(* ===== verification/Prelude.thy ===== *)
theory Prelude
  imports
    Main
    "HOL-Library.Word"
    "HOL-Library.AList"
    "HOL-Library.Char_ord"
    "HOL-Library.List_Lexorder"
    "HOL-Library.Product_Lexorder"
begin

text \<open>
  Shared vocabulary of the development: machine integers, time, text rendering, the hash
  maps of the Rust standard library, and the fact collections the component proofs use.

  \<^item> Time: \<open>std::time::Duration\<close> and \<open>Instant\<close> are natural numbers of nanoseconds.
    \<open>Instant::duration_since\<close> saturates at zero, which is subtraction on \<open>nat\<close>.
  \<^item> Text: a Rust \<open>String\<close> is its list of UTF-8 bytes, a \<open>char list\<close>.
  \<^item> \<open>HashMap\<close> is an association list with distinct keys; its iteration order is one
    of the orders the Rust map may show, and no lemma depends on it.
  \<^item> \<open>Result<T, E>\<close> is \<open>'e + 'a\<close> with \<open>Inl\<close> for the error.
\<close>

named_theorems wf_simps \<open>unfolding of the well-formedness predicates\<close>
named_theorems wf_intros \<open>every operation keeps its component's invariant\<close>

section \<open>Machine integers and time\<close>

type_synonym u8 = "8 word"
type_synonym u16 = "16 word"
type_synonym u32 = "32 word"
type_synonym u64 = "64 word"

type_synonym duration = nat
type_synonym instant = nat

definition from_millis :: "nat \<Rightarrow> duration" where
  "from_millis n = n * 1000000"

definition from_secs :: "nat \<Rightarrow> duration" where
  "from_secs n = n * 1000000000"

lemma from_secs_less [simp]: "from_secs a < from_secs b \<longleftrightarrow> a < b"
  by (simp add: from_secs_def)

lemma from_secs_le [simp]: "from_secs a \<le> from_secs b \<longleftrightarrow> a \<le> b"
  by (simp add: from_secs_def)

lemma from_millis_less [simp]: "from_millis a < from_millis b \<longleftrightarrow> a < b"
  by (simp add: from_millis_def)

lemma from_millis_le [simp]: "from_millis a \<le> from_millis b \<longleftrightarrow> a \<le> b"
  by (simp add: from_millis_def)

text \<open>\<open>saturating_sub\<close> and \<open>checked_add\<close> of the unsigned integer types.\<close>

definition saturating_sub :: "'w::len word \<Rightarrow> 'w word \<Rightarrow> 'w word" where
  "saturating_sub a b = (if b \<le> a then a - b else 0)"

lemma unat_saturating_sub: "unat (saturating_sub a b) = unat a - unat b"
  by (simp add: saturating_sub_def word_le_nat_alt unat_sub)

definition checked_succ :: "'w::len word \<Rightarrow> 'w word option" where
  "checked_succ a = (if a = - 1 then None else Some (a + 1))"

lemma unat_succ: "a \<noteq> - 1 \<Longrightarrow> unat (a + 1) = Suc (unat a)"
  by (metis add.commute unatSuc add_eq_0_iff2 add.inverse_inverse add_eq_0_iff)

lemma checked_succ_Some: "checked_succ a = Some b \<Longrightarrow> unat b = Suc (unat a)"
  by (auto simp: checked_succ_def unat_succ split: if_splits)

section \<open>Text\<close>

definition digit_char :: "nat \<Rightarrow> char" where
  "digit_char d = char_of (48 + d)"

fun nat_str :: "nat \<Rightarrow> string" where
  "nat_str n = (if n < 10 then [digit_char n] else nat_str (n div 10) @ [digit_char (n mod 10)])"

declare nat_str.simps [simp del]

fun join :: "string \<Rightarrow> string list \<Rightarrow> string" where
  "join sep [] = []"
| "join sep [x] = x"
| "join sep (x # y # xs) = x @ sep @ join sep (y # xs)"

lemma nat_str_ne [simp]: "nat_str n \<noteq> []"
  by (subst nat_str.simps) simp

lemma nat_str_ne' [simp]: "[] \<noteq> nat_str n"
  by (metis nat_str_ne)

lemma digit_char_inj: "a < 10 \<Longrightarrow> b < 10 \<Longrightarrow> digit_char a = digit_char b \<longleftrightarrow> a = b"
  by (auto simp: digit_char_def char_of_eq_iff take_bit_nat_def)

lemma nat_str_inj: "nat_str a = nat_str b \<Longrightarrow> a = b"
proof (induction a arbitrary: b rule: nat_str.induct)
  case (1 a)
  show ?case
  proof (cases "a < 10 \<or> b < 10")
    case True
    with "1.prems" show ?thesis
      by (auto simp: nat_str.simps [of a] nat_str.simps [of b] digit_char_inj split: if_splits)
  next
    case False
    then have "nat_str (a div 10) = nat_str (b div 10)" and "a mod 10 = b mod 10"
      using "1.prems" by (simp_all add: nat_str.simps [of a] nat_str.simps [of b] digit_char_inj)
    with "1.IH" False have "a div 10 = b div 10" by simp
    with \<open>a mod 10 = b mod 10\<close> show ?thesis by (metis div_mult_mod_eq)
  qed
qed

section \<open>Fallible loops\<close>

text \<open>
  A \<open>for\<close> loop whose body ends in \<open>?\<close>: the first error stops it
  (\<open>try_all\<close>); and \<open>iter().map(f).collect::<Result<Vec<_>>>()\<close> (\<open>try_map\<close>).
\<close>

fun try_all :: "('a \<Rightarrow> 'e + unit) \<Rightarrow> 'a list \<Rightarrow> 'e + unit" where
  "try_all f [] = Inr ()"
| "try_all f (x # xs) = (case f x of Inl e \<Rightarrow> Inl e | Inr _ \<Rightarrow> try_all f xs)"

fun try_map :: "('a \<Rightarrow> 'e + 'b) \<Rightarrow> 'a list \<Rightarrow> 'e + 'b list" where
  "try_map f [] = Inr []"
| "try_map f (x # xs) =
     (case f x of Inl e \<Rightarrow> Inl e
      | Inr y \<Rightarrow> (case try_map f xs of Inl e \<Rightarrow> Inl e | Inr ys \<Rightarrow> Inr (y # ys)))"

lemma try_all_Inr: "try_all f xs = Inr u \<longleftrightarrow> (\<forall>x \<in> set xs. f x = Inr ())"
  by (induction xs) (auto split: sum.splits)

lemma try_map_Inr:
  "try_map f xs = Inr ys \<longleftrightarrow> list_all2 (\<lambda>x y. f x = Inr y) xs ys"
proof (induction xs arbitrary: ys)
  case Nil
  then show ?case by auto
next
  case (Cons x xs)
  have "try_map f (x # xs) = Inr ys \<longleftrightarrow> (\<exists>y zs. f x = Inr y \<and> try_map f xs = Inr zs \<and> ys = y # zs)"
    by (auto split: sum.splits)
  then show ?case by (auto simp: Cons.IH list_all2_Cons1)
qed

section \<open>Hash maps\<close>

text \<open>
  The contract of \<open>std::collections::HashMap\<close> that the components rely on. What a
  lookup returns after an insert and a remove, the length, and that one key has one entry.
\<close>

locale hash_map =
  fixes new_map :: "'m"
    and get :: "'m \<Rightarrow> 'k \<Rightarrow> 'v option"
    and insert_kv :: "'k \<Rightarrow> 'v \<Rightarrow> 'm \<Rightarrow> 'm"
    and remove_key :: "'k \<Rightarrow> 'm \<Rightarrow> 'm"
    and keys :: "'m \<Rightarrow> 'k list"
    and len :: "'m \<Rightarrow> nat"
    and wf :: "'m \<Rightarrow> bool"
  assumes wf_new: "wf new_map"
    and wf_insert: "wf m \<Longrightarrow> wf (insert_kv k v m)"
    and wf_remove: "wf m \<Longrightarrow> wf (remove_key k m)"
    and get_new: "get new_map k = None"
    and get_insert: "get (insert_kv k v m) k' = (if k' = k then Some v else get m k')"
    and get_remove: "get (remove_key k m) k' = (if k' = k then None else get m k')"
    and keys_get: "k \<in> set (keys m) \<longleftrightarrow> get m k \<noteq> None"
    and distinct_keys: "wf m \<Longrightarrow> distinct (keys m)"
    and len_keys: "len m = length (keys m)"
begin

text \<open>Removing a list of keys, as both \<open>expire\<close> operations do.\<close>

definition remove_keys :: "'k list \<Rightarrow> 'm \<Rightarrow> 'm" where
  "remove_keys ks m = fold remove_key ks m"

lemma wf_remove_keys: "wf m \<Longrightarrow> wf (remove_keys ks m)"
  by (induction ks arbitrary: m) (auto simp: remove_keys_def wf_remove)

lemma get_remove_keys: "get (remove_keys ks m) k = (if k \<in> set ks then None else get m k)"
  by (induction ks arbitrary: m) (auto simp: remove_keys_def get_remove)

lemma set_keys: "set (keys m) = {k. get m k \<noteq> None}"
  using keys_get by auto

lemma len_card: "wf m \<Longrightarrow> len m = card {k. get m k \<noteq> None}"
  by (metis distinct_card distinct_keys len_keys set_keys)

lemma finite_keys: "finite {k. get m k \<noteq> None}"
  by (metis List.finite_set set_keys)

lemma len_insert: "wf m \<Longrightarrow> len (insert_kv k v m) = (if get m k = None then Suc (len m) else len m)"
proof -
  assume m: "wf m"
  have "{k'. get (insert_kv k v m) k' \<noteq> None} = insert k {k'. get m k' \<noteq> None}"
    by (auto simp: get_insert)
  then have "len (insert_kv k v m) = card (insert k {k'. get m k' \<noteq> None})"
    by (simp only: len_card [OF wf_insert [OF m]])
  also have "\<dots> = (if get m k = None then Suc (len m) else len m)"
    by (simp only: len_card [OF m] card_insert_if [OF finite_keys]) simp
  finally show ?thesis .
qed

lemma len_zero: "wf m \<Longrightarrow> len m = 0 \<longleftrightarrow> (\<forall>k. get m k = None)"
  using finite_keys [of m] by (auto simp: len_card)

end

type_synonym ('k, 'v) hmap = "('k \<times> 'v) list"

definition hm_wf :: "('k, 'v) hmap \<Rightarrow> bool" where
  "hm_wf m \<longleftrightarrow> distinct (map fst m)"

abbreviation hm_get :: "('k, 'v) hmap \<Rightarrow> 'k \<Rightarrow> 'v option" where
  "hm_get \<equiv> map_of"

abbreviation hm_insert :: "'k \<Rightarrow> 'v \<Rightarrow> ('k, 'v) hmap \<Rightarrow> ('k, 'v) hmap" where
  "hm_insert \<equiv> AList.update"

abbreviation hm_remove :: "'k \<Rightarrow> ('k, 'v) hmap \<Rightarrow> ('k, 'v) hmap" where
  "hm_remove \<equiv> AList.delete"

abbreviation hm_keys :: "('k, 'v) hmap \<Rightarrow> 'k list" where
  "hm_keys m \<equiv> map fst m"

lemma hm_wf_Nil [simp]: "hm_wf []"
  by (simp add: hm_wf_def)

lemma hm_get_update [simp]: "hm_get (hm_insert k v m) k' = (if k' = k then Some v else hm_get m k')"
  by (simp add: update_conv')

lemma hm_get_delete [simp]: "hm_get (hm_remove k m) k' = (if k' = k then None else hm_get m k')"
  by (simp add: delete_conv')

interpretation hm: hash_map "[]" hm_get hm_insert hm_remove hm_keys length hm_wf
  by unfold_locales (auto simp: hm_wf_def distinct_update distinct_delete map_of_eq_None_iff)

lemma hm_mem: "hm_wf m \<Longrightarrow> (k, v) \<in> set m \<longleftrightarrow> hm_get m k = Some v"
  by (auto simp: hm_wf_def)

end
