(* ===== verification/Proto.thy ===== *)
theory Proto
  imports Prelude
begin

text \<open>
  The ALPN convention (\<open>crates/engine/src/proto.rs\<close>): a service is addressed by the bytes
  of \<open>iroh-tunnel/{name}\<close>. \<open>std::str::from_utf8\<close> is the predicate \<open>utf8_valid\<close>, the
  well-formed byte sequences of the Unicode standard, which the Rust library checks.
\<close>

section \<open>UTF-8\<close>

definition bytes_of :: "string \<Rightarrow> u8 list" where
  "bytes_of s = map (\<lambda>c. word_of_nat (of_char c)) s"

definition string_of :: "u8 list \<Rightarrow> string" where
  "string_of bs = map (\<lambda>b. char_of (unat b)) bs"

definition is_cont :: "u8 \<Rightarrow> bool" where
  "is_cont b \<longleftrightarrow> 0x80 \<le> b \<and> b \<le> 0xBF"

fun utf8_valid :: "u8 list \<Rightarrow> bool" where
  "utf8_valid [] = True"
| "utf8_valid (a # bs) =
    (if a \<le> 0x7F then utf8_valid bs
     else if 0xC2 \<le> a \<and> a \<le> 0xDF then
       (case bs of b # r \<Rightarrow> is_cont b \<and> utf8_valid r | _ \<Rightarrow> False)
     else if 0xE0 \<le> a \<and> a \<le> 0xEF then
       (case bs of b # c # r \<Rightarrow>
          is_cont b \<and> (a = 0xE0 \<longrightarrow> 0xA0 \<le> b) \<and> (a = 0xED \<longrightarrow> b \<le> 0x9F) \<and> is_cont c \<and> utf8_valid r
        | _ \<Rightarrow> False)
     else if 0xF0 \<le> a \<and> a \<le> 0xF4 then
       (case bs of b # c # d # r \<Rightarrow>
          is_cont b \<and> (a = 0xF0 \<longrightarrow> 0x90 \<le> b) \<and> (a = 0xF4 \<longrightarrow> b \<le> 0x8F) \<and> is_cont c \<and> is_cont d
          \<and> utf8_valid r
        | _ \<Rightarrow> False)
     else False)"

lemma bytes_of_append [simp]: "bytes_of (s @ t) = bytes_of s @ bytes_of t"
  by (simp add: bytes_of_def)

lemma length_bytes_of [simp]: "length (bytes_of s) = length s"
  by (simp add: bytes_of_def)

lemma unat_of_char: "unat (word_of_nat (of_char c :: nat) :: u8) = of_char c"
  by (simp add: unat_of_nat take_bit_nat_eq_self_iff)

lemma string_of_bytes_of [simp]: "string_of (bytes_of s) = s"
  by (induction s) (simp_all add: string_of_def bytes_of_def unat_of_char)

lemma bytes_of_string_of [simp]: "bytes_of (string_of bs) = bs"
proof -
  have "word_of_nat (of_char (char_of (unat b) :: char)) = b" for b :: u8
  proof -
    have "unat b < 2 ^ LENGTH(8)" by (rule unsigned_less)
    then show ?thesis by simp
  qed
  then show ?thesis by (simp add: string_of_def bytes_of_def map_idI)
qed

lemma bytes_of_inj [simp]: "bytes_of s = bytes_of t \<longleftrightarrow> s = t"
  by (metis string_of_bytes_of)

lemma utf8_valid_ascii_append:
  "\<forall>b \<in> set as. b \<le> 0x7F \<Longrightarrow> utf8_valid (as @ bs) \<longleftrightarrow> utf8_valid bs"
  by (induction as) auto

section \<open>Service ALPNs\<close>

definition ALPN_PREFIX :: string where
  "ALPN_PREFIX = ''iroh-tunnel/''"

definition alpn_for :: "string \<Rightarrow> u8 list" where
  "alpn_for name = bytes_of (ALPN_PREFIX @ name)"

fun strip_prefix :: "'a list \<Rightarrow> 'a list \<Rightarrow> 'a list option" where
  "strip_prefix [] s = Some s"
| "strip_prefix (p # ps) [] = None"
| "strip_prefix (p # ps) (c # s) = (if p = c then strip_prefix ps s else None)"

definition name_from_alpn :: "u8 list \<Rightarrow> string option" where
  "name_from_alpn alpn =
     (if utf8_valid alpn then strip_prefix ALPN_PREFIX (string_of alpn) else None)"

lemma strip_prefix_Some: "strip_prefix p s = Some r \<longleftrightarrow> s = p @ r"
  by (induction p s rule: strip_prefix.induct) auto

lemma prefix_ascii: "\<forall>b \<in> set (bytes_of ALPN_PREFIX). b \<le> 0x7F"
  by (simp add: ALPN_PREFIX_def bytes_of_def)

text \<open>The ALPN names a service exactly. A negotiated ALPN yields a service name if and only if
it is the ALPN built for that name and the name is valid UTF-8, so two services never share one.\<close>

theorem alpn_roundtrip:
  "name_from_alpn alpn = Some name \<longleftrightarrow> utf8_valid (bytes_of name) \<and> alpn = alpn_for name"
proof -
  have valid: "utf8_valid (alpn_for name) \<longleftrightarrow> utf8_valid (bytes_of name)"
    using utf8_valid_ascii_append [OF prefix_ascii] by (simp add: alpn_for_def)
  have "string_of alpn = ALPN_PREFIX @ name \<longleftrightarrow> alpn = alpn_for name"
    by (metis alpn_for_def bytes_of_string_of string_of_bytes_of)
  with valid show ?thesis
    by (auto simp: name_from_alpn_def strip_prefix_Some)
qed

end
