(* ===== verification/Settings.thy ===== *)
theory Settings
  imports Prelude
begin

text \<open>
  The engine's plain settings (\<open>crates/engine/src/settings.rs\<close>): the protocol, the
  redacting relay token, the node settings with their \<open>Debug\<close> form, and the UDP
  resource limits with every default applied. The secret key type of the iroh library
  is the type variable \<open>'sk\<close>.
\<close>

section \<open>Protocol and relay token\<close>

datatype protocol = Tcp | Udp

fun protocol_as_str :: "protocol \<Rightarrow> string" where
  "protocol_as_str Tcp = ''tcp''"
| "protocol_as_str Udp = ''udp''"

lemma protocol_as_str_inj [simp]: "protocol_as_str p = protocol_as_str q \<longleftrightarrow> p = q"
  by (cases p; cases q) auto

datatype relay_token = RelayToken string

fun expose :: "relay_token \<Rightarrow> string" where
  "expose (RelayToken t) = t"

fun relay_token_debug :: "relay_token \<Rightarrow> string" where
  "relay_token_debug (RelayToken _) = ''RelayToken([redacted])''"

section \<open>Node settings\<close>

record 'sk node_settings =
  ns_secret_key :: "'sk option"
  ns_relay_urls :: "string list"
  ns_relay_token :: "relay_token option"
  ns_max_concurrent_streams :: "u32 option"

text \<open>
  What \<open>fmt::Formatter::debug_struct\<close> is given: the field names with their values, a
  string, a list of strings or an optional value.
\<close>

datatype debug_value =
    DbgStr string
  | DbgStrs "string list"
  | DbgNone
  | DbgSome debug_value
  | DbgToken string
  | DbgNum nat

definition redacted_tag :: string where
  "redacted_tag = ''[redacted]''"

fun dbg_option :: "('a \<Rightarrow> debug_value) \<Rightarrow> 'a option \<Rightarrow> debug_value" where
  "dbg_option f None = DbgNone"
| "dbg_option f (Some x) = DbgSome (f x)"

definition node_settings_debug :: "'sk node_settings \<Rightarrow> (string \<times> debug_value) list" where
  "node_settings_debug ns =
     [(''secret_key'', dbg_option (\<lambda>_. DbgStr redacted_tag) (ns_secret_key ns)),
      (''relay_urls'', DbgStrs (ns_relay_urls ns)),
      (''relay_token'', dbg_option (\<lambda>t. DbgToken (relay_token_debug t)) (ns_relay_token ns)),
      (''max_concurrent_streams'', dbg_option (\<lambda>n. DbgNum (unat n)) (ns_max_concurrent_streams ns))]"

section \<open>UDP limits\<close>

text \<open>The defaults of \<open>udp/types.rs\<close>.\<close>

definition IDLE_TIMEOUT :: duration where
  "IDLE_TIMEOUT = from_secs 60"

definition DEFAULT_MAX_FLOWS :: nat where
  "DEFAULT_MAX_FLOWS = 256"

definition DEFAULT_MAX_FLOWS_PER_PEER :: nat where
  "DEFAULT_MAX_FLOWS_PER_PEER = 64"

definition DEFAULT_QUEUE_DEPTH :: nat where
  "DEFAULT_QUEUE_DEPTH = 64"

record udp_limits =
  idle_timeout :: duration
  max_flows :: nat
  max_flows_per_peer :: nat
  queue_depth :: nat

fun unwrap_or :: "'a option \<Rightarrow> 'a \<Rightarrow> 'a" where
  "unwrap_or None d = d"
| "unwrap_or (Some x) d = x"

definition from_overrides ::
    "duration option \<Rightarrow> nat option \<Rightarrow> nat option \<Rightarrow> nat option \<Rightarrow> udp_limits" where
  "from_overrides idle flows per_peer depth =
     (let mf = unwrap_or flows DEFAULT_MAX_FLOWS
      in \<lparr>idle_timeout = unwrap_or idle IDLE_TIMEOUT,
          max_flows = mf,
          max_flows_per_peer = min (unwrap_or per_peer DEFAULT_MAX_FLOWS_PER_PEER) mf,
          queue_depth = unwrap_or depth DEFAULT_QUEUE_DEPTH\<rparr>)"

lemma from_overrides_sel [simp]:
  "idle_timeout (from_overrides i f p d) = unwrap_or i IDLE_TIMEOUT"
  "max_flows (from_overrides i f p d) = unwrap_or f DEFAULT_MAX_FLOWS"
  "queue_depth (from_overrides i f p d) = unwrap_or d DEFAULT_QUEUE_DEPTH"
  by (simp_all add: from_overrides_def Let_def)

lemma from_overrides_per_peer:
  "max_flows_per_peer (from_overrides i f p d) =
     min (unwrap_or p DEFAULT_MAX_FLOWS_PER_PEER) (unwrap_or f DEFAULT_MAX_FLOWS)"
  by (simp add: from_overrides_def Let_def)

section \<open>Service and role settings\<close>

record serve_service_settings =
  ss_name :: string
  ss_protocol :: protocol
  ss_host :: string
  ss_port :: u16
  ss_udp :: udp_limits

record 'sk serve_settings =
  serve_node :: "'sk node_settings"
  serve_services :: "serve_service_settings list"

record access_service_settings =
  as_name :: string
  as_node_id :: string
  as_protocol :: protocol
  as_host :: string
  as_port :: u16
  as_relay_urls :: "string list"
  as_udp :: udp_limits

record 'sk access_settings =
  access_node :: "'sk node_settings"
  access_services :: "access_service_settings list"

end
