(* ===== verification/ConfigSchema.thy ===== *)
theory ConfigSchema
  imports Proto Settings
begin

text \<open>
  The configuration schema of both roles (\<open>crates/host/src/config/dto.rs\<close>): the node
  table, the services with their UDP settings, and the validation every load, every
  command and every write runs. Errors are the \<open>bail!\<close> sites with their arguments.
  A \<open>usize\<close> is a natural number; what the deserializer accepts is in theory ConfigDoc.
\<close>

section \<open>Results\<close>

text \<open>The \<open>?\<close> operator, and a check that bails.\<close>

fun and_then :: "'e + 'a \<Rightarrow> ('a \<Rightarrow> 'e + 'b) \<Rightarrow> 'e + 'b" where
  "and_then (Inl e) f = Inl e"
| "and_then (Inr x) f = f x"

definition check :: "bool \<Rightarrow> 'e \<Rightarrow> 'e + unit" where
  "check ok e = (if ok then Inr () else Inl e)"

lemma and_then_Inr [simp]: "and_then r f = Inr y \<longleftrightarrow> (\<exists>x. r = Inr x \<and> f x = Inr y)"
  by (cases r) auto

lemma and_then_Inl: "and_then r f = Inl e \<longleftrightarrow> r = Inl e \<or> (\<exists>x. r = Inr x \<and> f x = Inl e)"
  by (cases r) auto

lemma check_Inr [simp]: "check b e = Inr u \<longleftrightarrow> b"
  by (simp add: check_def)

lemma check_Inl [simp]: "check b e = Inl e' \<longleftrightarrow> \<not> b \<and> e' = e"
  by (auto simp: check_def)

section \<open>Characters\<close>

text \<open>
  \<open>str::chars\<close> of a string, which in Rust is valid UTF-8, and \<open>char::is_whitespace\<close>,
  the Unicode property \<open>White_Space\<close>.
\<close>

fun utf8_chars :: "nat list \<Rightarrow> nat list" where
  "utf8_chars [] = []"
| "utf8_chars (a # bs) =
     (if a < 0x80 then a # utf8_chars bs
      else if a < 0xE0 then
        (case bs of b # r \<Rightarrow> ((a - 0xC0) * 64 + (b - 0x80)) # utf8_chars r | _ \<Rightarrow> [])
      else if a < 0xF0 then
        (case bs of b # c # r \<Rightarrow>
           ((a - 0xE0) * 4096 + (b - 0x80) * 64 + (c - 0x80)) # utf8_chars r | _ \<Rightarrow> [])
      else
        (case bs of b # c # d # r \<Rightarrow>
           ((a - 0xF0) * 262144 + (b - 0x80) * 4096 + (c - 0x80) * 64 + (d - 0x80)) # utf8_chars r
         | _ \<Rightarrow> []))"

definition str_chars :: "string \<Rightarrow> nat list" where
  "str_chars s = utf8_chars (map of_char s)"

definition is_whitespace :: "nat \<Rightarrow> bool" where
  "is_whitespace c \<longleftrightarrow>
     9 \<le> c \<and> c \<le> 13 \<or> c = 0x20 \<or> c = 0x85 \<or> c = 0xA0 \<or> c = 0x1680 \<or>
     0x2000 \<le> c \<and> c \<le> 0x200A \<or> c = 0x2028 \<or> c = 0x2029 \<or> c = 0x202F \<or> c = 0x205F \<or> c = 0x3000"

text \<open>The test of the static expression \<open>^[a-z0-9-]+$\<close>.\<close>

definition is_name_char :: "char \<Rightarrow> bool" where
  "is_name_char c \<longleftrightarrow> CHR ''a'' \<le> c \<and> c \<le> CHR ''z'' \<or> CHR ''0'' \<le> c \<and> c \<le> CHR ''9'' \<or> c = CHR ''-''"

definition name_regex_match :: "string \<Rightarrow> bool" where
  "name_regex_match s \<longleftrightarrow> s \<noteq> [] \<and> list_all is_name_char s"

definition starts_with :: "string \<Rightarrow> string \<Rightarrow> bool" where
  "starts_with s p \<longleftrightarrow> take (length p) s = p"

section \<open>Documents\<close>

definition MAX_NAME_LEN :: nat where
  "MAX_NAME_LEN = 63"

definition NODE_ID_LENS :: "nat list" where
  "NODE_ID_LENS = [52, 64]"

definition default_host :: string where
  "default_host = ''127.0.0.1''"

record node_config =
  nc_secret_key :: string
  nc_relay_urls :: "string list"
  nc_relay_token :: "string option"
  nc_max_concurrent_streams :: "u32 option"

definition node_config_default :: node_config where
  "node_config_default =
     \<lparr>nc_secret_key = [], nc_relay_urls = [], nc_relay_token = None, nc_max_concurrent_streams = None\<rparr>"

text \<open>The \<open>Debug\<close> form of the node table.\<close>

definition node_config_debug :: "node_config \<Rightarrow> (string \<times> debug_value) list" where
  "node_config_debug nc =
     [(''secret_key'', DbgStr (if nc_secret_key nc = [] then [] else redacted_tag)),
      (''relay_urls'', DbgStrs (nc_relay_urls nc)),
      (''relay_token'', dbg_option (\<lambda>_. DbgStr redacted_tag) (nc_relay_token nc)),
      (''max_concurrent_streams'', dbg_option (\<lambda>n. DbgNum (unat n)) (nc_max_concurrent_streams nc))]"

record udp_settings =
  us_idle_timeout :: "u64 option"
  us_max_flows :: "nat option"
  us_max_flows_per_peer :: "nat option"
  us_queue_depth :: "nat option"

definition udp_settings_default :: udp_settings where
  "udp_settings_default =
     \<lparr>us_idle_timeout = None, us_max_flows = None, us_max_flows_per_peer = None, us_queue_depth = None\<rparr>"

record serve_service =
  sv_name :: string
  sv_protocol :: protocol
  sv_host :: string
  sv_port :: u16
  sv_udp :: udp_settings

record access_service =
  av_name :: string
  av_node_id :: string
  av_protocol :: protocol
  av_host :: string
  av_port :: u16
  av_relay_urls :: "string list"
  av_udp :: udp_settings

record serve_config =
  sc_node :: node_config
  sc_services :: "serve_service list"

record access_config =
  ac_node :: node_config
  ac_services :: "access_service list"

section \<open>Validation\<close>

datatype schema_error =
    InvalidName string
  | NameTooLong string
  | DuplicateName string
  | InvalidPort
  | UdpOnOther string
  | UdpZero string string
  | UdpTooLarge string string nat nat
  | UdpNotOnAccess string string
  | PeerExceedsFlows string nat nat
  | RelayNotHttps string
  | ServiceRelayNotHttps string string
  | BadNodeId string
  | ZeroStreams
  | BlankToken
  | TokenWhitespace

definition MAX_UDP_IDLE_TIMEOUT_SECS :: nat where
  "MAX_UDP_IDLE_TIMEOUT_SECS = 86400"

definition MAX_UDP_FLOWS :: nat where
  "MAX_UDP_FLOWS = 1000000"

definition MAX_UDP_QUEUE_DEPTH :: nat where
  "MAX_UDP_QUEUE_DEPTH = 65536"

definition udp_resolve :: "udp_settings \<Rightarrow> udp_limits" where
  "udp_resolve u =
     from_overrides (map_option (\<lambda>s. from_secs (unat s)) (us_idle_timeout u))
       (us_max_flows u) (us_max_flows_per_peer u) (us_queue_depth u)"

definition udp_is_unset :: "udp_settings \<Rightarrow> bool" where
  "udp_is_unset u \<longleftrightarrow> u = udp_settings_default"

text \<open>The loop bodies over the fields, with their upper bounds, and over what Access rejects.\<close>

fun udp_field_check :: "string \<Rightarrow> string \<times> nat option \<times> nat \<Rightarrow> schema_error + unit" where
  "udp_field_check svc (field, None, mx) = Inr ()"
| "udp_field_check svc (field, Some v, mx) =
     (if v = 0 then Inl (UdpZero svc field)
      else if mx < v then Inl (UdpTooLarge svc field v mx)
      else Inr ())"

fun access_field_check :: "string \<Rightarrow> string \<times> bool \<Rightarrow> schema_error + unit" where
  "access_field_check svc (field, present) = check (\<not> present) (UdpNotOnAccess svc field)"

definition udp_validate :: "string \<Rightarrow> protocol \<Rightarrow> bool \<Rightarrow> udp_settings \<Rightarrow> schema_error + unit" where
  "udp_validate svc proto per_peer_allowed u =
     (if proto \<noteq> Udp then check (udp_is_unset u) (UdpOnOther svc)
      else and_then (try_all (udp_field_check svc)
             [(''idle_timeout'', map_option unat (us_idle_timeout u), MAX_UDP_IDLE_TIMEOUT_SECS),
              (''max_flows'', us_max_flows u, MAX_UDP_FLOWS),
              (''max_flows_per_peer'', us_max_flows_per_peer u, MAX_UDP_FLOWS),
              (''queue_depth'', us_queue_depth u, MAX_UDP_QUEUE_DEPTH)])
           (\<lambda>_. and_then
             (if per_peer_allowed then Inr ()
              else try_all (access_field_check svc)
                [(''max_flows_per_peer'', us_max_flows_per_peer u \<noteq> None),
                 (''queue_depth'', us_queue_depth u \<noteq> None)])
           (\<lambda>_. case (us_max_flows_per_peer u, us_max_flows u) of
                  (Some per_peer, Some flows) \<Rightarrow>
                    check (per_peer \<le> flows) (PeerExceedsFlows svc per_peer flows)
                | _ \<Rightarrow> Inr ())))"

definition validate_name :: "string \<Rightarrow> schema_error + unit" where
  "validate_name name =
     and_then (check (name_regex_match name) (InvalidName name))
       (\<lambda>_. check (length name \<le> MAX_NAME_LEN) (NameTooLong name))"

definition validate_port :: "u16 \<Rightarrow> schema_error + unit" where
  "validate_port port = check (port \<noteq> 0) InvalidPort"

definition https_check :: "string \<Rightarrow> schema_error + unit" where
  "https_check url = check (starts_with url ''https://'') (RelayNotHttps url)"

definition node_config_validate :: "node_config \<Rightarrow> schema_error + unit" where
  "node_config_validate nc =
     and_then (check (nc_max_concurrent_streams nc \<noteq> Some 0) ZeroStreams)
       (\<lambda>_. case nc_relay_token nc of
              None \<Rightarrow> Inr ()
            | Some token \<Rightarrow>
                and_then (check (\<not> list_all is_whitespace (str_chars token)) BlankToken)
                  (\<lambda>_. check (\<not> list_ex is_whitespace (str_chars token)) TokenWhitespace))"

text \<open>The service loops, with the set of names seen so far.\<close>

fun serve_services_validate :: "string set \<Rightarrow> serve_service list \<Rightarrow> schema_error + unit" where
  "serve_services_validate seen [] = Inr ()"
| "serve_services_validate seen (svc # svcs) =
     and_then (validate_name (sv_name svc)) (\<lambda>_.
     and_then (check (sv_name svc \<notin> seen) (DuplicateName (sv_name svc))) (\<lambda>_.
     and_then (validate_port (sv_port svc)) (\<lambda>_.
     and_then (udp_validate (sv_name svc) (sv_protocol svc) True (sv_udp svc)) (\<lambda>_.
     serve_services_validate (insert (sv_name svc) seen) svcs))))"

definition serve_validate :: "serve_config \<Rightarrow> schema_error + unit" where
  "serve_validate cfg =
     and_then (serve_services_validate {} (sc_services cfg)) (\<lambda>_.
     and_then (try_all https_check (nc_relay_urls (sc_node cfg))) (\<lambda>_.
     node_config_validate (sc_node cfg)))"

fun access_services_validate :: "string set \<Rightarrow> access_service list \<Rightarrow> schema_error + unit" where
  "access_services_validate seen [] = Inr ()"
| "access_services_validate seen (svc # svcs) =
     and_then (validate_name (av_name svc)) (\<lambda>_.
     and_then (check (av_name svc \<notin> seen) (DuplicateName (av_name svc))) (\<lambda>_.
     and_then (check (List.member NODE_ID_LENS (length (av_node_id svc))) (BadNodeId (av_node_id svc))) (\<lambda>_.
     and_then (validate_port (av_port svc)) (\<lambda>_.
     and_then (udp_validate (av_name svc) (av_protocol svc) False (av_udp svc)) (\<lambda>_.
     and_then (try_all (\<lambda>url. check (starts_with url ''https://'') (ServiceRelayNotHttps url (av_name svc)))
                 (av_relay_urls svc)) (\<lambda>_.
     access_services_validate (insert (av_name svc) seen) svcs))))))"

definition access_validate :: "access_config \<Rightarrow> schema_error + unit" where
  "access_validate cfg =
     and_then (try_all https_check (nc_relay_urls (ac_node cfg))) (\<lambda>_.
     and_then (node_config_validate (ac_node cfg)) (\<lambda>_.
     access_services_validate {} (ac_services cfg)))"

section \<open>What a valid document is\<close>

definition name_ok :: "string \<Rightarrow> bool" where
  "name_ok name \<longleftrightarrow> name \<noteq> [] \<and> length name \<le> 63 \<and> (\<forall>c \<in> set name. is_name_char c)"

definition within :: "nat \<Rightarrow> nat option \<Rightarrow> bool" where
  "within mx v \<longleftrightarrow> (\<forall>n. v = Some n \<longrightarrow> 1 \<le> n \<and> n \<le> mx)"

definition udp_ok :: "protocol \<Rightarrow> bool \<Rightarrow> udp_settings \<Rightarrow> bool" where
  "udp_ok proto serve u \<longleftrightarrow>
     (if proto = Udp then
        within 86400 (map_option unat (us_idle_timeout u)) \<and>
        within 1000000 (us_max_flows u) \<and>
        within 1000000 (us_max_flows_per_peer u) \<and>
        within 65536 (us_queue_depth u) \<and>
        (\<not> serve \<longrightarrow> us_max_flows_per_peer u = None \<and> us_queue_depth u = None) \<and>
        (\<forall>p m. us_max_flows_per_peer u = Some p \<and> us_max_flows u = Some m \<longrightarrow> p \<le> m)
      else u = udp_settings_default)"

definition https_ok :: "string list \<Rightarrow> bool" where
  "https_ok urls \<longleftrightarrow> (\<forall>url \<in> set urls. \<exists>rest. url = ''https://'' @ rest)"

definition node_ok :: "node_config \<Rightarrow> bool" where
  "node_ok nc \<longleftrightarrow>
     https_ok (nc_relay_urls nc) \<and> nc_max_concurrent_streams nc \<noteq> Some 0 \<and>
     (\<forall>token. nc_relay_token nc = Some token \<longrightarrow>
        str_chars token \<noteq> [] \<and> (\<forall>c \<in> set (str_chars token). \<not> is_whitespace c))"

definition serve_service_ok :: "serve_service \<Rightarrow> bool" where
  "serve_service_ok s \<longleftrightarrow>
     name_ok (sv_name s) \<and> sv_port s \<noteq> 0 \<and> udp_ok (sv_protocol s) True (sv_udp s)"

definition access_service_ok :: "access_service \<Rightarrow> bool" where
  "access_service_ok s \<longleftrightarrow>
     name_ok (av_name s) \<and> length (av_node_id s) \<in> {52, 64} \<and> av_port s \<noteq> 0 \<and>
     udp_ok (av_protocol s) False (av_udp s) \<and> https_ok (av_relay_urls s)"

definition serve_config_ok :: "serve_config \<Rightarrow> bool" where
  "serve_config_ok cfg \<longleftrightarrow>
     node_ok (sc_node cfg) \<and> distinct (map sv_name (sc_services cfg)) \<and>
     (\<forall>s \<in> set (sc_services cfg). serve_service_ok s)"

definition access_config_ok :: "access_config \<Rightarrow> bool" where
  "access_config_ok cfg \<longleftrightarrow>
     node_ok (ac_node cfg) \<and> distinct (map av_name (ac_services cfg)) \<and>
     (\<forall>s \<in> set (ac_services cfg). access_service_ok s)"

lemma starts_with_iff: "starts_with s p \<longleftrightarrow> (\<exists>r. s = p @ r)"
  by (metis append_eq_conv_conj append_take_drop_id starts_with_def)

lemma validate_name_iff: "validate_name n = Inr () \<longleftrightarrow> name_ok n"
  by (auto simp: validate_name_def name_ok_def name_regex_match_def MAX_NAME_LEN_def list_all_iff)

lemma udp_field_check_iff: "udp_field_check svc (f, v, mx) = Inr () \<longleftrightarrow> within mx v"
  by (cases v) (auto simp: within_def)

lemma udp_validate_iff: "udp_validate svc proto serve u = Inr () \<longleftrightarrow> udp_ok proto serve u"
  by (cases "us_max_flows_per_peer u"; cases "us_max_flows u")
    (auto simp: udp_validate_def udp_ok_def udp_is_unset_def try_all_Inr udp_field_check_iff
      MAX_UDP_IDLE_TIMEOUT_SECS_def MAX_UDP_FLOWS_def MAX_UDP_QUEUE_DEPTH_def
      simp del: try_all.simps udp_field_check.simps)

lemma https_iff: "try_all https_check urls = Inr u \<longleftrightarrow> https_ok urls"
  by (auto simp: try_all_Inr https_check_def https_ok_def starts_with_iff)

lemma service_https_iff:
  "try_all (\<lambda>url. check (starts_with url ''https://'') (e url)) urls = Inr u \<longleftrightarrow> https_ok urls"
  by (auto simp: try_all_Inr https_ok_def starts_with_iff)

lemma node_validate_iff:
  "https_ok (nc_relay_urls nc) \<and> node_config_validate nc = Inr () \<longleftrightarrow> node_ok nc"
  by (cases "nc_relay_token nc")
    (auto simp: node_config_validate_def node_ok_def list_all_iff list_ex_iff dest: hd_in_set)

lemma serve_services_iff:
  "serve_services_validate seen svcs = Inr () \<longleftrightarrow>
     distinct (map sv_name svcs) \<and> sv_name ` set svcs \<inter> seen = {} \<and>
     (\<forall>s \<in> set svcs. serve_service_ok s)"
  by (induction svcs arbitrary: seen)
    (auto simp: validate_name_iff udp_validate_iff validate_port_def serve_service_ok_def)

lemma access_services_iff:
  "access_services_validate seen svcs = Inr () \<longleftrightarrow>
     distinct (map av_name svcs) \<and> av_name ` set svcs \<inter> seen = {} \<and>
     (\<forall>s \<in> set svcs. access_service_ok s)"
  by (induction svcs arbitrary: seen)
    (auto simp: validate_name_iff udp_validate_iff validate_port_def access_service_ok_def
      service_https_iff NODE_ID_LENS_def)

lemma serve_validate_iff: "serve_validate cfg = Inr () \<longleftrightarrow> serve_config_ok cfg"
  using node_validate_iff [of "sc_node cfg"]
  by (auto simp: serve_validate_def serve_config_ok_def serve_services_iff https_iff)

lemma access_validate_iff: "access_validate cfg = Inr () \<longleftrightarrow> access_config_ok cfg"
  using node_validate_iff [of "ac_node cfg"]
  by (auto simp: access_validate_def access_config_ok_def access_services_iff https_iff)

section \<open>Limits a valid service runs under\<close>

definition limits_ok :: "udp_limits \<Rightarrow> bool" where
  "limits_ok l \<longleftrightarrow>
     from_secs 1 \<le> idle_timeout l \<and> idle_timeout l \<le> from_secs 86400 \<and>
     1 \<le> max_flows_per_peer l \<and> max_flows_per_peer l \<le> max_flows l \<and> max_flows l \<le> 1000000 \<and>
     1 \<le> queue_depth l \<and> queue_depth l \<le> 65536"

lemma udp_resolve_ok: "udp_ok proto serve u \<Longrightarrow> limits_ok (udp_resolve u)"
  by (cases "us_idle_timeout u"; cases "us_max_flows u"; cases "us_max_flows_per_peer u"; cases "us_queue_depth u")
    (auto simp: udp_ok_def udp_resolve_def limits_ok_def within_def from_overrides_per_peer
      udp_settings_default_def IDLE_TIMEOUT_def DEFAULT_MAX_FLOWS_def DEFAULT_MAX_FLOWS_PER_PEER_def
      DEFAULT_QUEUE_DEPTH_def split: if_splits)

section \<open>Properties\<close>

text \<open>C14: validation accepts exactly the documents the schema describes, for both roles: relay URLs
with https, a positive stream budget, a token without white space, names that are unique and of 1 to 63
characters from a-z, 0-9 and the hyphen, ports from 1, node identifiers of 52 or 64 bytes on Access,
UDP settings in range and only where they apply.\<close>

theorem validation_exact:
  "(serve_validate sc = Inr () \<longleftrightarrow> serve_config_ok sc) \<and>
   (access_validate ac = Inr () \<longleftrightarrow> access_config_ok ac)"
  by (simp add: serve_validate_iff access_validate_iff)

text \<open>The \<open>Debug\<close> output of the node table shows of the secret key only whether it is set and
of the relay token only whether it is present, and everything else of the table exactly.\<close>

theorem node_debug_reveals:
  "node_config_debug a = node_config_debug b \<longleftrightarrow>
     (nc_secret_key a = [] \<longleftrightarrow> nc_secret_key b = []) \<and>
     nc_relay_urls a = nc_relay_urls b \<and>
     (nc_relay_token a = None \<longleftrightarrow> nc_relay_token b = None) \<and>
     nc_max_concurrent_streams a = nc_max_concurrent_streams b"
proof -
  have token: "dbg_option (\<lambda>_. DbgStr redacted_tag) x = dbg_option (\<lambda>_. DbgStr redacted_tag) y \<longleftrightarrow>
    (x = None \<longleftrightarrow> y = None)" for x y :: "string option"
    by (cases x; cases y) simp_all
  have streams: "dbg_option (\<lambda>n. DbgNum (unat n)) x = dbg_option (\<lambda>n. DbgNum (unat n)) y \<longleftrightarrow> x = y"
    for x y :: "u32 option"
    by (cases x; cases y) (simp_all add: word_unat_eq_iff)
  have key: "(if nc_secret_key a = [] then [] else redacted_tag) = (if nc_secret_key b = [] then [] else redacted_tag)
    \<longleftrightarrow> (nc_secret_key a = [] \<longleftrightarrow> nc_secret_key b = [])"
    by (simp add: redacted_tag_def)
  show ?thesis
    by (simp only: node_config_debug_def list.inject prod.inject debug_value.inject token streams key simp_thms)
qed

end
