(* ===== verification/TextLib.thy ===== *)
theory TextLib
  imports ConfigSchema
begin

text \<open>
  The operations of Rust's \<open>str\<close>, \<open>char\<close>, \<open>Path\<close> and integer parsing that the host and the
  command line use, on the bytes of the text.
\<close>

section \<open>Prefixes, suffixes and splitting\<close>

definition ends_with :: "string \<Rightarrow> string \<Rightarrow> bool" where
  "ends_with s t \<longleftrightarrow> length t \<le> length s \<and> drop (length s - length t) s = t"

definition strip_suffix :: "string \<Rightarrow> string \<Rightarrow> string option" where
  "strip_suffix s t = (if ends_with s t then Some (take (length s - length t) s) else None)"

fun split_on :: "(char \<Rightarrow> bool) \<Rightarrow> string \<Rightarrow> string list" where
  "split_on sep [] = [[]]"
| "split_on sep (c # cs) =
     (if sep c then [] # split_on sep cs
      else (case split_on sep cs of p # ps \<Rightarrow> (c # p) # ps | [] \<Rightarrow> [[c]]))"

text \<open>\<open>str::lines\<close>: a final line feed ends the last line, and a carriage return before a line feed is cut.\<close>

fun cut_cr :: "string \<Rightarrow> string" where
  "cut_cr (c # acc) = (if c = CHR 0x0D then rev acc else rev (c # acc))"
| "cut_cr [] = []"

fun lines_from :: "string \<Rightarrow> string \<Rightarrow> string list" where
  "lines_from acc [] = (if acc = [] then [] else [rev acc])"
| "lines_from acc (c # cs) =
     (if c = CHR 0x0A then cut_cr acc # lines_from [] cs else lines_from (c # acc) cs)"

abbreviation str_lines :: "string \<Rightarrow> string list" where
  "str_lines \<equiv> lines_from []"

text \<open>The length in bytes of the white space character a text begins with, zero when it begins otherwise.\<close>

definition ws_len :: "string \<Rightarrow> nat" where
  "ws_len s =
     (case map of_char (take 3 s) of
        [] \<Rightarrow> 0
      | a # r \<Rightarrow>
          if 9 \<le> a \<and> a \<le> 13 \<or> a = (0x20 :: nat) then 1
          else if a = 0xC2 then (case r of b # _ \<Rightarrow> if b = 0x85 \<or> b = 0xA0 then 2 else 0 | [] \<Rightarrow> 0)
          else (case r of
                  b # c # _ \<Rightarrow>
                    if a = 0xE1 \<and> b = 0x9A \<and> c = 0x80 \<or>
                       a = 0xE2 \<and> b = 0x80 \<and> (0x80 \<le> c \<and> c \<le> 0x8A \<or> c = 0xA8 \<or> c = 0xA9 \<or> c = 0xAF) \<or>
                       a = 0xE2 \<and> b = 0x81 \<and> c = 0x9F \<or>
                       a = 0xE3 \<and> b = 0x80 \<and> c = 0x80 then 3 else 0
                | _ \<Rightarrow> 0))"

fun split_once_ws :: "string \<Rightarrow> (string \<times> string) option" where
  "split_once_ws [] = None"
| "split_once_ws (c # cs) =
     (if 0 < ws_len (c # cs) then Some ([], drop (ws_len (c # cs)) (c # cs))
      else map_option (\<lambda>(a, b). (c # a, b)) (split_once_ws cs))"

text \<open>\<open>split_whitespace\<close>: \<open>k\<close> bytes of a white space character are still to skip.\<close>

fun words_from :: "nat \<Rightarrow> string \<Rightarrow> string \<Rightarrow> string list" where
  "words_from k acc [] = (if acc = [] then [] else [rev acc])"
| "words_from (Suc k) acc (c # cs) = words_from k acc cs"
| "words_from 0 acc (c # cs) =
     (let n = ws_len (c # cs)
      in if n = 0 then words_from 0 (c # acc) cs
         else (if acc = [] then [] else [rev acc]) @ words_from (n - 1) [] cs)"

abbreviation str_words :: "string \<Rightarrow> string list" where
  "str_words \<equiv> words_from 0 []"

text \<open>\<open>str::trim\<close>.\<close>

fun trim_start :: "nat \<Rightarrow> string \<Rightarrow> string" where
  "trim_start k [] = []"
| "trim_start (Suc k) (c # cs) = trim_start k cs"
| "trim_start 0 (c # cs) = (let n = ws_len (c # cs) in if n = 0 then c # cs else trim_start (n - 1) cs)"

fun trim_end :: "string \<Rightarrow> string" where
  "trim_end [] = []"
| "trim_end (c # cs) = (if str_words (c # cs) = [] then [] else c # trim_end cs)"

definition str_trim :: "string \<Rightarrow> string" where
  "str_trim s = trim_end (trim_start 0 s)"

definition trim_start_matches :: "(char \<Rightarrow> bool) \<Rightarrow> string \<Rightarrow> string" where
  "trim_start_matches P s = dropWhile P s"

definition trim_end_matches :: "(char \<Rightarrow> bool) \<Rightarrow> string \<Rightarrow> string" where
  "trim_end_matches P s = rev (dropWhile P (rev s))"

section \<open>Numbers\<close>

definition is_digit :: "char \<Rightarrow> bool" where
  "is_digit c \<longleftrightarrow> CHR ''0'' \<le> c \<and> c \<le> CHR ''9''"

definition digits_val :: "string \<Rightarrow> nat" where
  "digits_val s = foldl (\<lambda>n c. 10 * n + (of_char c - 48)) 0 s"

text \<open>\<open>str::parse\<close> of an unsigned integer type with the given bound: an optional plus sign and digits.\<close>

definition parse_uint :: "nat \<Rightarrow> string \<Rightarrow> nat option" where
  "parse_uint bound s =
     (let d = (case s of c # cs \<Rightarrow> if c = CHR ''+'' then cs else s | [] \<Rightarrow> [])
      in if d \<noteq> [] \<and> list_all is_digit d \<and> digits_val d < bound then Some (digits_val d) else None)"

definition hex_digit :: "nat \<Rightarrow> char" where
  "hex_digit d = char_of (if d < 10 then 48 + d else 87 + d)"

definition hex_byte :: "char \<Rightarrow> string" where
  "hex_byte c = (let n = of_char c in [hex_digit (n div 16), hex_digit (n mod 16)])"

definition hex :: "string \<Rightarrow> string" where
  "hex bs = concat (map hex_byte bs)"

section \<open>Paths\<close>

text \<open>\<open>Path::components\<close> on Unix: repeated slashes and inner \<open>.\<close> disappear; two paths are equal when
their components are.\<close>

datatype comp = RootDir | CurDir | ParentDir | NormalComp string

definition inner_comp :: "string \<Rightarrow> comp list" where
  "inner_comp p =
     (if p = [] \<or> p = ''.'' then [] else if p = ''..'' then [ParentDir] else [NormalComp p])"

definition components :: "string \<Rightarrow> comp list" where
  "components s =
     (case split_on (\<lambda>c. c = CHR ''/'') s of
        [] \<Rightarrow> []
      | p # ps \<Rightarrow>
          (if p = [] then (if ps = [] then [] else [RootDir])
           else if p = ''.'' then [CurDir] else inner_comp p)
          @ concat (map inner_comp ps))"

fun comps_parent :: "comp list \<Rightarrow> comp list option" where
  "comps_parent cs =
     (case rev cs of [] \<Rightarrow> None | RootDir # _ \<Rightarrow> None | _ # r \<Rightarrow> Some (rev r))"

fun comps_file_name :: "comp list \<Rightarrow> string option" where
  "comps_file_name cs = (case rev cs of NormalComp n # _ \<Rightarrow> Some n | _ \<Rightarrow> None)"

definition to_str :: "string \<Rightarrow> string option" where
  "to_str s = (if utf8_valid (bytes_of s) then Some s else None)"

text \<open>\<open>Path::join\<close> of a relative name.\<close>

definition path_join :: "string \<Rightarrow> string \<Rightarrow> string" where
  "path_join d n = (if d = [] \<or> ends_with d ''/'' then d @ n else d @ ''/'' @ n)"

section \<open>Lemmas\<close>

lemma strip_prefix_append [simp]: "strip_prefix p (p @ s) = Some s"
  by (simp add: strip_prefix_Some)

lemma strip_suffix_append [simp]: "strip_suffix (s @ t) t = Some s"
  by (simp add: strip_suffix_def ends_with_def)

lemma strip_suffix_Some: "strip_suffix s t = Some r \<longleftrightarrow> s = r @ t"
  by (auto simp: strip_suffix_def ends_with_def) (metis append_take_drop_id)

lemma split_on_ne [simp]: "split_on sep s \<noteq> []"
  by (cases s) (auto split: list.split)

lemma split_on_plain: "\<forall>c \<in> set s. \<not> sep c \<Longrightarrow> split_on sep s = [s]"
  by (induction s) auto

lemma split_on_sep: "\<forall>c \<in> set s. \<not> sep c \<Longrightarrow> sep x \<Longrightarrow> split_on sep (s @ x # t) = s # split_on sep t"
  by (induction s) auto

lemma lines_from_line:
  "CHR 0x0A \<notin> set l \<Longrightarrow> lines_from acc (l @ CHR 0x0A # t) = cut_cr (rev l @ acc) # lines_from [] t"
  by (induction l arbitrary: acc) auto

lemma cut_cr_plain: "CHR 0x0D \<notin> set l \<Longrightarrow> cut_cr (rev l) = l"
  by (cases "rev l") (auto simp: rev_eq_Cons_iff)

text \<open>Texts without white space; in particular every text of printable ASCII.\<close>

definition plain_char :: "char \<Rightarrow> bool" where
  "plain_char c \<longleftrightarrow> (0x21 :: nat) \<le> of_char c \<and> of_char c \<le> (0x7E :: nat)"

lemma ws_len_plain [simp]: "plain_char c \<Longrightarrow> ws_len (c # cs) = 0"
  by (simp add: plain_char_def ws_len_def split: list.split)

lemma ws_len_space [simp]: "ws_len (CHR '' '' # cs) = 1"
  by (simp add: ws_len_def)

lemma plain_char_ne: "plain_char c \<Longrightarrow> c \<noteq> CHR 0x0A \<and> c \<noteq> CHR 0x0D \<and> c \<noteq> CHR '' ''"
  by (auto simp: plain_char_def)

lemma split_once_ws_plain:
  "list_all plain_char s \<Longrightarrow> split_once_ws (s @ CHR '' '' # t) = Some (s, t)"
  by (induction s) auto

lemma words_from_plain:
  "list_all plain_char s \<Longrightarrow> words_from 0 acc (s @ t) = words_from 0 (rev s @ acc) t"
  by (induction s arbitrary: acc) auto

end
