(* ===== verification/UdpCodec.thy ===== *)
theory UdpCodec
  imports Settings
begin

text \<open>
  UDP datagram framing shared by both roles (\<open>crates/engine/src/udp/\<close>): the big-endian flow
  header (\<open>encode.rs\<close>, \<open>decode.rs\<close>), the payload limit of a connection, the sweep period,
  the classification of receive errors, and the bounded queue of one flow with the writer
  that drains it.
\<close>

section \<open>Framing\<close>

definition HEADER_LEN :: nat where
  "HEADER_LEN = 4"

datatype flow_id = FlowId u32

fun flow_num :: "flow_id \<Rightarrow> u32" where
  "flow_num (FlowId n) = n"

datatype decode_error = Malformed

text \<open>\<open>BytesMut::put_u32\<close> and \<open>u32::from_be_bytes\<close>, byte by byte.\<close>

definition put_u32 :: "u32 \<Rightarrow> u8 list" where
  "put_u32 n = [ucast (drop_bit 24 n), ucast (drop_bit 16 n), ucast (drop_bit 8 n), ucast n]"

definition from_be_bytes :: "u8 \<Rightarrow> u8 \<Rightarrow> u8 \<Rightarrow> u8 \<Rightarrow> u32" where
  "from_be_bytes a b c d =
     or (push_bit 24 (ucast a)) (or (push_bit 16 (ucast b)) (or (push_bit 8 (ucast c)) (ucast d)))"

definition encode :: "flow_id \<Rightarrow> u8 list \<Rightarrow> u8 list" where
  "encode flow payload = put_u32 (flow_num flow) @ payload"

definition decode :: "u8 list \<Rightarrow> decode_error + flow_id \<times> u8 list" where
  "decode datagram =
     (if length datagram < HEADER_LEN then Inl Malformed
      else Inr (FlowId (from_be_bytes (datagram ! 0) (datagram ! 1) (datagram ! 2) (datagram ! 3)),
                drop HEADER_LEN datagram))"

lemma from_be_put_u32:
  "from_be_bytes (ucast (drop_bit 24 n)) (ucast (drop_bit 16 n)) (ucast (drop_bit 8 n)) (ucast n) = n"
proof (rule bit_word_eqI)
  fix k
  assume "k < LENGTH(32)"
  then consider "k < 8" | "8 \<le> k" "k < 16" | "16 \<le> k" "k < 24" | "24 \<le> k" "k < 32"
    by fastforce
  then show "bit (from_be_bytes (ucast (drop_bit 24 n)) (ucast (drop_bit 16 n)) (ucast (drop_bit 8 n)) (ucast n)) k
      = bit n k"
    by cases (auto simp: from_be_bytes_def bit_simps)
qed

lemma u8_bit_out: "8 \<le> k \<Longrightarrow> \<not> bit (b :: u8) k"
  using bit_imp_le_length [of b k] by auto

lemma put_from_be: "put_u32 (from_be_bytes a b c d) = [a, b, c, d]"
  unfolding put_u32_def from_be_bytes_def
  by (auto intro!: bit_word_eqI simp: bit_simps u8_bit_out)

lemma encode_decode [simp]: "decode (encode f payload) = Inr (f, payload)"
  by (cases f) (simp add: decode_def encode_def put_u32_def HEADER_LEN_def from_be_put_u32)

lemma length_encode [simp]: "length (encode f payload) = HEADER_LEN + length payload"
  by (simp add: encode_def put_u32_def HEADER_LEN_def)

text \<open>The header codec is exact in both directions. Decoding a datagram yields a flow and a
payload if and only if the datagram is the encoding of that flow and that payload, so no two
(flow, payload) pairs share a wire form and every datagram with a header has exactly one reading.\<close>

theorem decode_iff_encode: "decode d = Inr (f, payload) \<longleftrightarrow> d = encode f payload"
proof
  assume "decode d = Inr (f, payload)"
  then have len: "4 \<le> length d"
    and f: "f = FlowId (from_be_bytes (d ! 0) (d ! 1) (d ! 2) (d ! 3))" and p: "payload = drop 4 d"
    by (auto simp: decode_def HEADER_LEN_def split: if_splits)
  from len obtain a b c e r where "d = a # b # c # e # r"
    by (auto simp: numeral_eq_Suc Suc_le_length_iff)
  then show "d = encode f payload"
    by (simp add: f p encode_def put_from_be)
qed simp

section \<open>Payload limit, sweep period, receive errors\<close>

text \<open>\<open>payload_limit.rs\<close>: \<open>checked_sub\<close> then \<open>filter\<close>.\<close>

fun payload_limit :: "nat option \<Rightarrow> nat option" where
  "payload_limit None = None"
| "payload_limit (Some mx) =
     (if HEADER_LEN \<le> mx
      then (let limit = mx - HEADER_LEN in if 0 < limit then Some limit else None)
      else None)"

lemma payload_limit_Some:
  "payload_limit m = Some l \<longleftrightarrow> 0 < l \<and> m = Some (HEADER_LEN + l)"
  by (cases m) (auto simp: Let_def split: if_splits)

text \<open>A payload within the limit of a connection is one whose framed datagram fits the
connection's maximum datagram size, and when there is no limit not even a one-byte payload
fits.\<close>

theorem payload_limit_fits:
  "payload_limit (Some mx) = Some l \<Longrightarrow> length p \<le> l \<longleftrightarrow> length (encode f p) \<le> mx"
  by (auto simp: payload_limit_Some simp del: payload_limit.simps)

theorem payload_limit_fits_witness:
  "length [7 :: u8, 8] \<le> 1158 \<longleftrightarrow> length (encode (FlowId 3) [7, 8]) \<le> 1162"
  by (rule payload_limit_fits) (simp add: HEADER_LEN_def)

lemma payload_limit_None:
  "payload_limit (Some mx) = None \<Longrightarrow> 0 < length p \<Longrightarrow> mx < length (encode f p)"
  by (auto simp: Let_def split: if_splits)

definition SWEEP_INTERVAL :: duration where
  "SWEEP_INTERVAL = from_secs 5"

definition QUARANTINE :: duration where
  "QUARANTINE = from_secs 30"

definition sweep_interval :: "duration \<Rightarrow> duration" where
  "sweep_interval idle = max (min SWEEP_INTERVAL idle) (from_millis 100)"

text \<open>The kinds of \<open>std::io::ErrorKind\<close> that the program tells apart.\<close>

datatype io_error_kind =
    ConnectionAborted | ConnectionRefused | ConnectionReset | Interrupted | WouldBlock
  | NotFound | PermissionDenied | ReadOnlyFilesystem | InvalidInput | OtherKind

fun is_transient_recv_error :: "io_error_kind \<Rightarrow> bool" where
  "is_transient_recv_error k =
     (k \<in> {ConnectionRefused, ConnectionReset, ConnectionAborted, Interrupted, WouldBlock})"

section \<open>The queue of one flow\<close>

text \<open>
  \<open>FlowQueue\<close> is a bounded \<open>tokio::sync::mpsc\<close> channel: a capacity, the queued datagrams
  oldest first, whether the receiver still exists and whether a sender still exists.
  \<open>push\<close> is \<open>try_send\<close>, \<open>queue_recv\<close> is the channel's \<open>recv\<close> when it is ready.
\<close>

datatype push = Queued | Full | Closed

record flow_queue =
  fq_depth :: nat
  fq_items :: "u8 list list"
  fq_rx_open :: bool
  fq_tx_open :: bool

definition queue_new :: "nat \<Rightarrow> flow_queue" where
  "queue_new depth =
     \<lparr>fq_depth = max depth 1, fq_items = [], fq_rx_open = True, fq_tx_open = True\<rparr>"

definition queue_push :: "flow_queue \<Rightarrow> u8 list \<Rightarrow> push \<times> flow_queue" where
  "queue_push q datagram =
     (if \<not> fq_rx_open q then (Closed, q)
      else if fq_depth q \<le> length (fq_items q) then (Full, q)
      else (Queued, q\<lparr>fq_items := fq_items q @ [datagram]\<rparr>))"

datatype recv = RecvItem "u8 list" | RecvEnd | RecvPending

fun queue_recv :: "flow_queue \<Rightarrow> recv \<times> flow_queue" where
  "queue_recv q =
     (case fq_items q of
        x # xs \<Rightarrow> (RecvItem x, q\<lparr>fq_items := xs\<rparr>)
      | [] \<Rightarrow> (if fq_tx_open q then RecvPending else RecvEnd, q))"

text \<open>
  \<open>drain_queue.rs\<close>: the writer receives until the channel ends and hands every datagram
  to the sink. One run of the writer interleaved with pushes is a schedule of producer and
  consumer events. The trace collects what the sink was given, in order.
\<close>

datatype queue_event = Produce "u8 list" | Consume

record queue_run =
  qr_queue :: flow_queue
  qr_accepted :: "u8 list list"
  qr_sunk :: "u8 list list"

fun queue_step :: "queue_run \<Rightarrow> queue_event \<Rightarrow> queue_run" where
  "queue_step r (Produce d) =
     (case queue_push (qr_queue r) d of
        (Queued, q) \<Rightarrow> r\<lparr>qr_queue := q, qr_accepted := qr_accepted r @ [d]\<rparr>
      | (_, q) \<Rightarrow> r\<lparr>qr_queue := q\<rparr>)"
| "queue_step r Consume =
     (case queue_recv (qr_queue r) of
        (RecvItem d, q) \<Rightarrow> r\<lparr>qr_queue := q, qr_sunk := qr_sunk r @ [d]\<rparr>
      | (_, q) \<Rightarrow> r\<lparr>qr_queue := q\<rparr>)"

definition queue_run_start :: "nat \<Rightarrow> queue_run" where
  "queue_run_start depth = \<lparr>qr_queue = queue_new depth, qr_accepted = [], qr_sunk = []\<rparr>"

definition queue_run_inv :: "queue_run \<Rightarrow> bool" where
  "queue_run_inv r \<longleftrightarrow>
     qr_accepted r = qr_sunk r @ fq_items (qr_queue r)
     \<and> length (fq_items (qr_queue r)) \<le> fq_depth (qr_queue r)"

lemma queue_step_inv: "queue_run_inv r \<Longrightarrow> queue_run_inv (queue_step r e)"
  by (cases e) (auto simp: queue_run_inv_def queue_push_def split: list.splits prod.splits)

lemma queue_step_depth [simp]: "fq_depth (qr_queue (queue_step r e)) = fq_depth (qr_queue r)"
  by (cases e) (auto simp: queue_push_def split: list.splits prod.splits)

lemma queue_runs_inv:
  "queue_run_inv r \<Longrightarrow> queue_run_inv (foldl queue_step r es)
     \<and> fq_depth (qr_queue (foldl queue_step r es)) = fq_depth (qr_queue r)"
  by (induction es arbitrary: r) (auto simp: queue_step_inv)

text \<open>Whatever the interleaving of the receive loop's pushes and the writer's receives, the
sink has been given a prefix of the accepted datagrams in arrival order, the rest is in the
queue, and the queue never holds more than its depth (at least one): only the newest are dropped.\<close>

theorem flow_queue_order:
  "qr_accepted (foldl queue_step (queue_run_start depth) es) =
     qr_sunk (foldl queue_step (queue_run_start depth) es)
       @ fq_items (qr_queue (foldl queue_step (queue_run_start depth) es))
   \<and> length (fq_items (qr_queue (foldl queue_step (queue_run_start depth) es))) \<le> max depth 1"
proof -
  have "queue_run_inv (queue_run_start depth)"
    by (simp add: queue_run_inv_def queue_run_start_def queue_new_def)
  from queue_runs_inv [OF this, of es] show ?thesis
    by (simp add: queue_run_inv_def) (simp add: queue_run_start_def queue_new_def)
qed

end
