(* ===== verification/UdpStats.thy ===== *)
theory UdpStats
  imports UdpCodec
begin

text \<open>
  The live counters of one UDP service (\<open>UdpStats\<close> in \<open>crates/engine/src/udp/types.rs\<close>),
  their point-in-time copy (\<open>observation/types.rs\<close>), and the two compare-and-swap loops:
  \<open>try_open_flow\<close>, which takes a slot under the service cap, and \<open>sub_saturating\<close>, which
  gives slots back. The loops are modelled twice: as one atomic operation, which the
  handlers use, and iteration by iteration under interleaving, where the cap is proved.
\<close>

section \<open>Counters\<close>

datatype drop_reason =
    Oversize | Malformed | UnknownFlow | UpstreamError | Cap | QueueFull | LimitShrink
  | QuarantineReply | ForeignSource

record udp_stats =
  held_flows :: u64
  quarantined_flows :: u64
  datagram_limit :: u64
  oversize :: u64
  malformed :: u64
  unknown_flow :: u64
  upstream_error :: u64
  cap :: u64
  queue_full :: u64
  limit_shrink :: u64
  quarantine_reply :: u64
  foreign_source :: u64

definition udp_stats_default :: udp_stats where
  "udp_stats_default =
     \<lparr>held_flows = 0, quarantined_flows = 0, datagram_limit = 0, oversize = 0, malformed = 0,
      unknown_flow = 0, upstream_error = 0, cap = 0, queue_full = 0, limit_shrink = 0,
      quarantine_reply = 0, foreign_source = 0\<rparr>"

fun counter :: "drop_reason \<Rightarrow> udp_stats \<Rightarrow> u64" where
  "counter Oversize s = oversize s"
| "counter Malformed s = malformed s"
| "counter UnknownFlow s = unknown_flow s"
| "counter UpstreamError s = upstream_error s"
| "counter Cap s = cap s"
| "counter QueueFull s = queue_full s"
| "counter LimitShrink s = limit_shrink s"
| "counter QuarantineReply s = quarantine_reply s"
| "counter ForeignSource s = foreign_source s"

text \<open>\<open>fetch_add(1)\<close> on the reason's counter; it wraps.\<close>

fun record_drop :: "drop_reason \<Rightarrow> udp_stats \<Rightarrow> udp_stats" where
  "record_drop Oversize s = s\<lparr>oversize := oversize s + 1\<rparr>"
| "record_drop Malformed s = s\<lparr>malformed := malformed s + 1\<rparr>"
| "record_drop UnknownFlow s = s\<lparr>unknown_flow := unknown_flow s + 1\<rparr>"
| "record_drop UpstreamError s = s\<lparr>upstream_error := upstream_error s + 1\<rparr>"
| "record_drop Cap s = s\<lparr>cap := cap s + 1\<rparr>"
| "record_drop QueueFull s = s\<lparr>queue_full := queue_full s + 1\<rparr>"
| "record_drop LimitShrink s = s\<lparr>limit_shrink := limit_shrink s + 1\<rparr>"
| "record_drop QuarantineReply s = s\<lparr>quarantine_reply := quarantine_reply s + 1\<rparr>"
| "record_drop ForeignSource s = s\<lparr>foreign_source := foreign_source s + 1\<rparr>"

definition set_active_flows :: "nat \<Rightarrow> udp_stats \<Rightarrow> udp_stats" where
  "set_active_flows count s = s\<lparr>held_flows := word_of_nat count\<rparr>"

definition try_open_flow :: "nat \<Rightarrow> udp_stats \<Rightarrow> bool \<times> udp_stats" where
  "try_open_flow mx s =
     (if word_of_nat mx \<le> held_flows s then (False, s)
      else (True, s\<lparr>held_flows := held_flows s + 1\<rparr>))"

definition flows_closed :: "nat \<Rightarrow> udp_stats \<Rightarrow> udp_stats" where
  "flows_closed count s = s\<lparr>held_flows := saturating_sub (held_flows s) (word_of_nat count)\<rparr>"

definition quarantine_started :: "udp_stats \<Rightarrow> udp_stats" where
  "quarantine_started s = s\<lparr>quarantined_flows := quarantined_flows s + 1\<rparr>"

definition quarantine_ended :: "udp_stats \<Rightarrow> udp_stats" where
  "quarantine_ended s =
     s\<lparr>quarantined_flows := saturating_sub (quarantined_flows s) 1,
       held_flows := saturating_sub (held_flows s) 1\<rparr>"

fun set_datagram_limit :: "nat option \<Rightarrow> udp_stats \<Rightarrow> udp_stats" where
  "set_datagram_limit None s = s\<lparr>datagram_limit := 0\<rparr>"
| "set_datagram_limit (Some l) s = s\<lparr>datagram_limit := word_of_nat l\<rparr>"

section \<open>Snapshot\<close>

record udp_drop_counts =
  dc_oversize :: u64
  dc_malformed :: u64
  dc_unknown_flow :: u64
  dc_upstream_error :: u64
  dc_cap :: u64
  dc_queue_full :: u64
  dc_limit_shrink :: u64
  dc_quarantine_reply :: u64
  dc_foreign_source :: u64

record udp_observation =
  uo_active_flows :: u64
  uo_quarantined_flows :: u64
  uo_datagram_limit :: "u64 option"
  uo_drops :: udp_drop_counts

definition snapshot :: "udp_stats \<Rightarrow> udp_observation" where
  "snapshot s =
     (let limit = datagram_limit s
      in \<lparr>uo_active_flows = saturating_sub (held_flows s) (quarantined_flows s),
          uo_quarantined_flows = quarantined_flows s,
          uo_datagram_limit = (if 0 < limit then Some limit else None),
          uo_drops =
            \<lparr>dc_oversize = oversize s, dc_malformed = malformed s,
             dc_unknown_flow = unknown_flow s, dc_upstream_error = upstream_error s,
             dc_cap = cap s, dc_queue_full = queue_full s, dc_limit_shrink = limit_shrink s,
             dc_quarantine_reply = quarantine_reply s, dc_foreign_source = foreign_source s\<rparr>\<rparr>)"

lemma counter_record_drop:
  "counter r (record_drop r' s) = counter r s + (if r = r' then 1 else 0)"
  by (cases r; cases r') auto

lemma record_drop_frame [simp]:
  "held_flows (record_drop r s) = held_flows s"
  "quarantined_flows (record_drop r s) = quarantined_flows s"
  "datagram_limit (record_drop r s) = datagram_limit s"
  by (cases r; simp)+

lemma set_datagram_limit_frame [simp]:
  "held_flows (set_datagram_limit l s) = held_flows s"
  "quarantined_flows (set_datagram_limit l s) = quarantined_flows s"
  by (cases l; simp)+

declare record_drop.simps [simp del] set_datagram_limit.simps [simp del]

section \<open>The slot contract\<close>

text \<open>
  What a handler relies on when it opens and closes flows: a slot is granted exactly while
  fewer than the cap are held, granting takes one slot, closing gives slots back. Moving a
  flow to quarantine keeps its slot.
\<close>

locale slot_counter =
  fixes held :: "'s \<Rightarrow> nat"
    and quarantined :: "'s \<Rightarrow> nat"
    and try_open :: "nat \<Rightarrow> 's \<Rightarrow> bool \<times> 's"
    and closed :: "nat \<Rightarrow> 's \<Rightarrow> 's"
    and q_start :: "'s \<Rightarrow> 's"
    and q_end :: "'s \<Rightarrow> 's"
    and cap_bound :: nat
  assumes try_open_iff: "m < cap_bound \<Longrightarrow> fst (try_open m s) \<longleftrightarrow> held s < m"
    and try_open_granted: "m < cap_bound \<Longrightarrow> fst (try_open m s) \<Longrightarrow>
          held (snd (try_open m s)) = Suc (held s) \<and> quarantined (snd (try_open m s)) = quarantined s"
    and try_open_refused: "m < cap_bound \<Longrightarrow> \<not> fst (try_open m s) \<Longrightarrow> snd (try_open m s) = s"
    and held_bound: "held s < cap_bound"
    and closed_held: "n < cap_bound \<Longrightarrow> held (closed n s) = held s - n"
    and closed_quarantined: "quarantined (closed n s) = quarantined s"
    and q_start_quarantined: "Suc (quarantined s) < cap_bound \<Longrightarrow> quarantined (q_start s) = Suc (quarantined s)"
    and q_start_held: "held (q_start s) = held s"
    and q_end_quarantined: "quarantined (q_end s) = quarantined s - 1"
    and q_end_held: "held (q_end s) = held s - 1"
begin

text \<open>The books of a service: every held slot is a live flow or a quarantined one.\<close>

definition balanced :: "nat \<Rightarrow> nat \<Rightarrow> nat \<Rightarrow> 's \<Rightarrow> bool" where
  "balanced m live sinks s \<longleftrightarrow> held s = live + sinks \<and> quarantined s = sinks \<and> held s \<le> m"

lemma balanced_open:
  "\<lbrakk>balanced m live sinks s; m < cap_bound; fst (try_open m s)\<rbrakk>
     \<Longrightarrow> balanced m (Suc live) sinks (snd (try_open m s))"
  using try_open_granted try_open_iff by (fastforce simp: balanced_def)

lemma balanced_close:
  "\<lbrakk>balanced m live sinks s; m < cap_bound; n \<le> live\<rbrakk> \<Longrightarrow> balanced m (live - n) sinks (closed n s)"
  by (auto simp: balanced_def closed_held closed_quarantined)

lemma balanced_quarantine:
  "\<lbrakk>balanced m (Suc live) sinks s; m < cap_bound\<rbrakk> \<Longrightarrow> balanced m live (Suc sinks) (q_start s)"
  by (auto simp: balanced_def q_start_held q_start_quarantined)

lemma balanced_release:
  "balanced m live (Suc sinks) s \<Longrightarrow> balanced m live sinks (q_end s)"
  by (auto simp: balanced_def q_end_held q_end_quarantined)

lemma balanced_refused: "\<lbrakk>balanced m live sinks s; m < cap_bound\<rbrakk> \<Longrightarrow>
    \<not> fst (try_open m s) \<longleftrightarrow> live + sinks = m"
  using try_open_iff by (auto simp: balanced_def)

end

abbreviation held_count :: "udp_stats \<Rightarrow> nat" where
  "held_count s \<equiv> unat (held_flows s)"

abbreviation quarantined_count :: "udp_stats \<Rightarrow> nat" where
  "quarantined_count s \<equiv> unat (quarantined_flows s)"

lemma unat_word_of_nat_u64: "n < 2 ^ 64 \<Longrightarrow> unat (word_of_nat n :: u64) = n"
  by (simp add: unat_of_nat take_bit_nat_eq_self)

lemma unat_u64_less: "unat (w :: u64) < 2 ^ 64"
  using unsigned_less [of w, where ?'a = nat] by simp

lemma unat_u64_Suc: "Suc (unat (w :: u64)) < 2 ^ 64 \<Longrightarrow> unat (w + 1) = Suc (unat w)"
  by (simp add: unat_word_ariths)

interpretation slots: slot_counter held_count quarantined_count try_open_flow flows_closed
    quarantine_started quarantine_ended "2 ^ 64"
proof unfold_locales
  fix m n :: nat and s :: udp_stats
  show "m < 2 ^ 64 \<Longrightarrow> fst (try_open_flow m s) = (held_count s < m)"
    by (simp add: try_open_flow_def word_le_nat_alt unat_word_of_nat_u64 not_le)
  show "m < 2 ^ 64 \<Longrightarrow> fst (try_open_flow m s) \<Longrightarrow>
      held_count (snd (try_open_flow m s)) = Suc (held_count s)
      \<and> quarantined_count (snd (try_open_flow m s)) = quarantined_count s"
    by (auto simp: try_open_flow_def word_le_nat_alt unat_word_of_nat_u64 unat_u64_Suc
        split: if_splits)
  show "n < 2 ^ 64 \<Longrightarrow> held_count (flows_closed n s) = held_count s - n"
    by (simp add: flows_closed_def unat_saturating_sub unat_word_of_nat_u64)
qed (auto simp: try_open_flow_def flows_closed_def quarantine_started_def quarantine_ended_def
      unat_saturating_sub unat_u64_less unat_u64_Suc simp del: power_numeral power_Suc)


section \<open>The compare-and-swap loops under interleaving\<close>

text \<open>
  Every peer connection of a service is a thread of \<open>slot_step\<close>. A thread that opens a flow
  has loaded \<open>now\<close> and runs the loop of \<open>try_open_flow\<close>; a thread that closes flows runs
  the loop of \<open>sub_saturating\<close>. \<open>compare_exchange_weak\<close> may fail without a reason, so a
  retry is always possible. \<open>sys_owned\<close> is a ghost: the slots each thread holds.
\<close>

datatype slot_thread = Idle | Opening u64 | Closing nat u64

record slot_sys =
  sys_held :: u64
  sys_thread :: "nat \<Rightarrow> slot_thread"
  sys_owned :: "nat \<Rightarrow> nat"

inductive slot_step :: "nat \<Rightarrow> nat set \<Rightarrow> slot_sys \<Rightarrow> slot_sys \<Rightarrow> bool" for mx T where
  open_load: "\<lbrakk>t \<in> T; sys_thread s t = Idle\<rbrakk> \<Longrightarrow>
     slot_step mx T s (s\<lparr>sys_thread := (sys_thread s)(t := Opening (sys_held s))\<rparr>)"
| open_refused: "\<lbrakk>t \<in> T; sys_thread s t = Opening now; word_of_nat mx \<le> now\<rbrakk> \<Longrightarrow>
     slot_step mx T s (s\<lparr>sys_thread := (sys_thread s)(t := Idle)\<rparr>)"
| open_taken: "\<lbrakk>t \<in> T; sys_thread s t = Opening now; now < word_of_nat mx; sys_held s = now\<rbrakk> \<Longrightarrow>
     slot_step mx T s (s\<lparr>sys_held := now + 1, sys_thread := (sys_thread s)(t := Idle),
                         sys_owned := (sys_owned s)(t := Suc (sys_owned s t))\<rparr>)"
| open_retry: "\<lbrakk>t \<in> T; sys_thread s t = Opening now; now < word_of_nat mx\<rbrakk> \<Longrightarrow>
     slot_step mx T s (s\<lparr>sys_thread := (sys_thread s)(t := Opening (sys_held s))\<rparr>)"
| close_load: "\<lbrakk>t \<in> T; sys_thread s t = Idle; n \<le> sys_owned s t\<rbrakk> \<Longrightarrow>
     slot_step mx T s (s\<lparr>sys_thread := (sys_thread s)(t := Closing n (sys_held s))\<rparr>)"
| close_done: "\<lbrakk>t \<in> T; sys_thread s t = Closing n now; sys_held s = now\<rbrakk> \<Longrightarrow>
     slot_step mx T s (s\<lparr>sys_held := saturating_sub now (word_of_nat n),
                         sys_thread := (sys_thread s)(t := Idle),
                         sys_owned := (sys_owned s)(t := sys_owned s t - n)\<rparr>)"
| close_retry: "\<lbrakk>t \<in> T; sys_thread s t = Closing n now\<rbrakk> \<Longrightarrow>
     slot_step mx T s (s\<lparr>sys_thread := (sys_thread s)(t := Closing n (sys_held s))\<rparr>)"

definition slot_start :: slot_sys where
  "slot_start = \<lparr>sys_held = 0, sys_thread = (\<lambda>_. Idle), sys_owned = (\<lambda>_. 0)\<rparr>"

definition slot_inv :: "nat \<Rightarrow> nat set \<Rightarrow> slot_sys \<Rightarrow> bool" where
  "slot_inv mx T s \<longleftrightarrow>
     sum (sys_owned s) T = unat (sys_held s) \<and> unat (sys_held s) \<le> mx
     \<and> (\<forall>t n now. sys_thread s t = Closing n now \<longrightarrow> n \<le> sys_owned s t)"

lemma sum_upd:
  assumes "finite T" and "t \<in> T"
  shows "sum (f(t := v)) T + f t = sum f T + (v :: nat)"
proof -
  have "sum (f(t := v)) (T - {t}) = sum f (T - {t})"
    by (rule sum.cong) auto
  then show ?thesis
    using assms by (simp add: sum.remove [of T t])
qed

lemma slot_start_inv: "slot_inv mx T slot_start"
  by (simp add: slot_inv_def slot_start_def)

lemma slot_step_inv:
  assumes "slot_step mx T s s'" and inv: "slot_inv mx T s" and "finite T" and mx: "mx < 2 ^ 64"
  shows "slot_inv mx T s'"
  using assms(1)
proof (cases rule: slot_step.cases)
  case (open_taken t now)
  have lt: "unat now < mx"
    using open_taken(4) mx by (simp add: word_less_nat_alt unat_word_of_nat_u64)
  then have "unat (now + 1) = Suc (unat now)"
    using mx by (intro unat_u64_Suc) simp
  moreover have "sum ((sys_owned s)(t := Suc (sys_owned s t))) T = Suc (sum (sys_owned s) T)"
    using sum_upd [OF \<open>finite T\<close> open_taken(2), of "sys_owned s" "Suc (sys_owned s t)"] by simp
  ultimately show ?thesis
    using inv open_taken(1,3,5) lt by (auto simp: slot_inv_def simp del: fun_upd_apply)
       (auto split: if_splits)
next
  case (close_done t n now)
  have own: "n \<le> sys_owned s t" using inv close_done by (auto simp: slot_inv_def)
  have sum: "sum ((sys_owned s)(t := sys_owned s t - n)) T + n = sum (sys_owned s) T"
    using sum_upd [OF \<open>finite T\<close> close_done(2), of "sys_owned s" "sys_owned s t - n"] own by simp
  then have "n < 2 ^ 64"
    using inv mx by (simp add: slot_inv_def)
  then have "unat (saturating_sub now (word_of_nat n)) = unat now - n"
    by (simp add: unat_saturating_sub unat_word_of_nat_u64)
  then show ?thesis
    using inv close_done(1,3,4) sum by (auto simp: slot_inv_def simp del: fun_upd_apply)
       (auto split: if_splits)
qed (use inv in \<open>auto simp: slot_inv_def split: if_splits\<close>)

text \<open>C1: the service cap is never exceeded and no slot is lost, whatever the interleaving of any
number of peers opening and closing flows through the compare-and-swap loops: in every reachable
state the shared counter is the number of slots the peers hold, and it is at most the cap.\<close>

theorem slot_cap_concurrent:
  assumes "(slot_step mx T)\<^sup>*\<^sup>* slot_start s" and "finite T" and "mx < 2 ^ 64"
  shows "sum (sys_owned s) T = unat (sys_held s) \<and> unat (sys_held s) \<le> mx"
proof -
  from assms(1) have "slot_inv mx T s"
    by (induction rule: rtranclp_induct) (use slot_start_inv slot_step_inv assms(2,3) in blast)+
  then show ?thesis by (simp add: slot_inv_def)
qed

lemma slot_race_run:
  "(slot_step 1 {0, 1})\<^sup>*\<^sup>* slot_start
     \<lparr>sys_held = 1, sys_thread = (\<lambda>_. Idle)(1 := Opening 1), sys_owned = (\<lambda>_. 0)(0 := 1)\<rparr>"
proof -
  let ?th1 = "(\<lambda>_ :: nat. Idle)(0 := Opening 0)"
  let ?th2 = "?th1(1 := Opening 0)"
  let ?th3 = "?th2(0 := Idle)"
  let ?own = "(\<lambda>_ :: nat. 0 :: nat)(0 := Suc 0)"
  let ?s1 = "\<lparr>sys_held = 0, sys_thread = ?th1, sys_owned = (\<lambda>_. 0)\<rparr>"
  let ?s2 = "\<lparr>sys_held = 0, sys_thread = ?th2, sys_owned = (\<lambda>_. 0)\<rparr>"
  let ?s3 = "\<lparr>sys_held = 1, sys_thread = ?th3, sys_owned = ?own\<rparr>"
  let ?s4 = "\<lparr>sys_held = 1, sys_thread = ?th3(1 := Opening 1), sys_owned = ?own\<rparr>"
  have "slot_step 1 {0, 1} slot_start ?s1"
    using open_load [of 0 "{0, 1}" slot_start 1] by (simp add: slot_start_def)
  moreover have "slot_step 1 {0, 1} ?s1 ?s2"
    using open_load [of 1 "{0, 1}" ?s1 1] by simp
  moreover have "slot_step 1 {0, 1} ?s2 ?s3"
    using open_taken [of 0 "{0, 1}" ?s2 0 1] by simp
  moreover have "slot_step 1 {0, 1} ?s3 ?s4"
    using open_retry [of 1 "{0, 1}" ?s3 0 1] by simp
  ultimately have "(slot_step 1 {0, 1})\<^sup>*\<^sup>* slot_start ?s4"
    by (meson rtranclp.rtrancl_into_rtrancl rtranclp.rtrancl_refl)
  moreover have "?th3(1 := Opening 1) = (\<lambda>_. Idle)(1 := Opening 1)" by auto
  ultimately show ?thesis by simp
qed

theorem slot_cap_concurrent_witness:
  "sum ((\<lambda>_. 0)(0 := 1) :: nat \<Rightarrow> nat) {0, 1} = unat (1 :: u64) \<and> unat (1 :: u64) \<le> 1"
  using slot_cap_concurrent [OF slot_race_run] by simp

end
