(* ===== verification/UdpFlows.thy ===== *)
theory UdpFlows
  imports UdpStats "HOL-Library.Multiset"
begin

text \<open>
  The flow tables of both roles (\<open>crates/engine/src/udp/types.rs\<close>): \<open>ClientFlows\<close>, where
  Access gives each local client a flow identifier, and \<open>PeerFlows\<close>, where Serve admits
  the identifiers of one peer. A client address is the type variable \<open>'c\<close>, an upstream the
  type variable \<open>'u\<close>.
\<close>

instantiation flow_id :: linorder
begin

definition less_eq_flow_id :: "flow_id \<Rightarrow> flow_id \<Rightarrow> bool" where
  "less_eq_flow_id f g \<longleftrightarrow> flow_num f \<le> flow_num g"

definition less_flow_id :: "flow_id \<Rightarrow> flow_id \<Rightarrow> bool" where
  "less_flow_id f g \<longleftrightarrow> flow_num f < flow_num g"

instance
proof
  fix f g h :: flow_id
  show "f \<le> g \<Longrightarrow> g \<le> f \<Longrightarrow> f = g"
    by (cases f; cases g) (simp add: less_eq_flow_id_def)
qed (auto simp: less_eq_flow_id_def less_flow_id_def)

end

lemma flow_le_iff: "f \<le> g \<longleftrightarrow> unat (flow_num f) \<le> unat (flow_num g)"
  by (simp add: less_eq_flow_id_def word_le_nat_alt)

lemma flow_less_iff: "f < g \<longleftrightarrow> unat (flow_num f) < unat (flow_num g)"
  by (simp add: less_flow_id_def word_less_nat_alt)

section \<open>The idle-timer contract\<close>

text \<open>
  What both tables promise about time: refreshing a live entry sets its last-seen time, and
  a sweep ends exactly the entries that have been silent for at least the idle timeout.
\<close>

locale idle_table =
  fixes seen :: "'s \<Rightarrow> flow_id \<Rightarrow> instant option"
    and refresh :: "flow_id \<Rightarrow> instant \<Rightarrow> 's \<Rightarrow> 's"
    and expire :: "instant \<Rightarrow> duration \<Rightarrow> 's \<Rightarrow> 's"
    and wf :: "'s \<Rightarrow> bool"
  assumes wf_refresh: "wf s \<Longrightarrow> wf (refresh f t s)"
    and wf_expire: "wf s \<Longrightarrow> wf (expire t idle s)"
    and seen_refresh: "wf s \<Longrightarrow> seen (refresh f t s) g =
          (if g = f \<and> seen s f \<noteq> None then Some t else seen s g)"
    and seen_expire: "wf s \<Longrightarrow> seen (expire t idle s) g =
          (case seen s g of None \<Rightarrow> None | Some t0 \<Rightarrow> if idle \<le> t - t0 then None else Some t0)"
begin

text \<open>Sweeps at increasing times, as the interval timer makes them.\<close>

definition sweeps :: "instant list \<Rightarrow> duration \<Rightarrow> 's \<Rightarrow> 's" where
  "sweeps ts idle s = fold (\<lambda>t. expire t idle) ts s"

lemma wf_sweeps: "wf s \<Longrightarrow> wf (sweeps ts idle s)"
  by (induction ts arbitrary: s) (auto simp: sweeps_def wf_expire)

lemma survives_sweeps:
  assumes "wf s" and "seen s f = Some t0" and "\<forall>t \<in> set ts. t - t0 < idle"
  shows "seen (sweeps ts idle s) f = Some t0"
  using assms
proof (induction ts arbitrary: s)
  case (Cons t ts)
  then show ?case
    using seen_expire [of s t idle f] by (auto simp: sweeps_def wf_expire)
qed (simp add: sweeps_def)

lemma ended_by_sweep:
  assumes "wf s" and "seen s f = Some t0" and "t0 + idle \<le> t"
  shows "seen (expire t idle s) f = None"
  using assms seen_expire [of s t idle f] by auto

lemma no_revival: "wf s \<Longrightarrow> seen s f = None \<Longrightarrow> seen (expire t idle (refresh f t' s)) f = None"
  by (simp add: seen_expire wf_refresh seen_refresh)

end

section \<open>Access: client flows\<close>

datatype refused = RefusedCap | RefusedExhausted

record 'c client_flows =
  by_client :: "('c, flow_id) hmap"
  by_flow :: "(flow_id, 'c \<times> instant) hmap"
  next_flow :: u32

definition client_flows_default :: "'c client_flows" where
  "client_flows_default = \<lparr>by_client = [], by_flow = [], next_flow = 0\<rparr>"

definition touch ::
    "'c \<Rightarrow> instant \<Rightarrow> nat \<Rightarrow> 'c client_flows \<Rightarrow> (refused + flow_id) \<times> 'c client_flows" where
  "touch client now mx s =
     (case hm_get (by_client s) client of
        Some flow \<Rightarrow> (Inr flow, s\<lparr>by_flow := hm_insert flow (client, now) (by_flow s)\<rparr>)
      | None \<Rightarrow>
          (if mx \<le> length (by_flow s) then (Inl RefusedCap, s)
           else (case checked_succ (next_flow s) of
                   None \<Rightarrow> (Inl RefusedExhausted, s)
                 | Some nxt \<Rightarrow>
                     (let flow = FlowId (next_flow s)
                      in (Inr flow,
                          s\<lparr>next_flow := nxt,
                            by_client := hm_insert client flow (by_client s),
                            by_flow := hm_insert flow (client, now) (by_flow s)\<rparr>)))))"

definition client_of ::
    "flow_id \<Rightarrow> instant \<Rightarrow> 'c client_flows \<Rightarrow> 'c option \<times> 'c client_flows" where
  "client_of flow now s =
     (case hm_get (by_flow s) flow of
        None \<Rightarrow> (None, s)
      | Some (client, _) \<Rightarrow>
          (Some client, s\<lparr>by_flow := hm_insert flow (client, now) (by_flow s)\<rparr>))"

definition client_flows_len :: "'c client_flows \<Rightarrow> nat" where
  "client_flows_len s = length (by_flow s)"

text \<open>The loop body of \<open>expire\<close>: drop a flow and, with it, its client's entry.\<close>

definition expire_one :: "flow_id \<Rightarrow> 'c client_flows \<Rightarrow> 'c client_flows" where
  "expire_one flow s =
     (case hm_get (by_flow s) flow of
        None \<Rightarrow> s
      | Some (client, _) \<Rightarrow>
          s\<lparr>by_flow := hm_remove flow (by_flow s), by_client := hm_remove client (by_client s)\<rparr>)"

definition idle_flows :: "instant \<Rightarrow> duration \<Rightarrow> (flow_id, 'a \<times> instant) hmap \<Rightarrow> flow_id list" where
  "idle_flows now idle m = map fst (filter (\<lambda>(_, _, seen). idle \<le> now - seen) m)"

definition client_expire ::
    "instant \<Rightarrow> duration \<Rightarrow> 'c client_flows \<Rightarrow> nat \<times> 'c client_flows" where
  "client_expire now idle s =
     (let expired = idle_flows now idle (by_flow s)
      in (length expired, fold expire_one expired s))"

subsection \<open>Invariant\<close>

text \<open>
  The two maps are each other's inverse, every live flow was issued below \<open>next_flow\<close>.
\<close>

definition client_wf :: "'c client_flows \<Rightarrow> bool" where
  "client_wf s \<longleftrightarrow> hm_wf (by_client s) \<and> hm_wf (by_flow s)
     \<and> (\<forall>c f. hm_get (by_client s) c = Some f \<longleftrightarrow> (\<exists>t. hm_get (by_flow s) f = Some (c, t)))
     \<and> (\<forall>f c t. hm_get (by_flow s) f = Some (c, t) \<longrightarrow> unat (flow_num f) < unat (next_flow s))"

lemma client_wfD:
  assumes "client_wf s"
  shows "hm_wf (by_client s)" "hm_wf (by_flow s)"
    "hm_get (by_client s) c = Some f \<longleftrightarrow> (\<exists>t. hm_get (by_flow s) f = Some (c, t))"
    "hm_get (by_flow s) f = Some (c, t) \<Longrightarrow> unat (flow_num f) < unat (next_flow s)"
  using assms by (auto simp: client_wf_def)

lemma client_wf_default [wf_intros]: "client_wf client_flows_default"
  by (simp add: client_wf_def client_flows_default_def)

lemma client_wf_refresh:
  assumes wf: "client_wf s" and f: "hm_get (by_flow s) f = Some (c, t)"
  shows "client_wf (s\<lparr>by_flow := hm_insert f (c, now) (by_flow s)\<rparr>)"
proof -
  have "hm_get (by_client s) c' = Some f \<longleftrightarrow> c' = c" for c'
    using wf f by (auto simp: client_wfD(3) [OF wf])
  then show ?thesis
    using wf f unfolding client_wf_def by (auto simp: hm.wf_insert)
qed

lemma touch_known:
  assumes wf: "client_wf s" and c: "hm_get (by_client s) c = Some f"
  shows "touch c now mx s = (Inr f, s\<lparr>by_flow := hm_insert f (c, now) (by_flow s)\<rparr>)"
  using c by (simp add: touch_def)

lemma touch_new:
  assumes "hm_get (by_client s) c = None" and "length (by_flow s) < mx"
    and "next_flow s \<noteq> - 1"
  shows "touch c now mx s = (Inr (FlowId (next_flow s)),
     s\<lparr>next_flow := next_flow s + 1,
       by_client := hm_insert c (FlowId (next_flow s)) (by_client s),
       by_flow := hm_insert (FlowId (next_flow s)) (c, now) (by_flow s)\<rparr>)"
  using assms by (simp add: touch_def checked_succ_def Let_def)

text \<open>The three ways a call of \<open>touch\<close> can go.\<close>

lemma touch_cases:
  assumes "client_wf s"
  obtains
    (known) f t where "hm_get (by_client s) c = Some f" "hm_get (by_flow s) f = Some (c, t)"
      "touch c now mx s = (Inr f, s\<lparr>by_flow := hm_insert f (c, now) (by_flow s)\<rparr>)"
  | (fresh) "hm_get (by_client s) c = None" "length (by_flow s) < mx" "next_flow s \<noteq> - 1"
      "touch c now mx s = (Inr (FlowId (next_flow s)),
         s\<lparr>next_flow := next_flow s + 1,
           by_client := hm_insert c (FlowId (next_flow s)) (by_client s),
           by_flow := hm_insert (FlowId (next_flow s)) (c, now) (by_flow s)\<rparr>)"
  | (refused) e where "hm_get (by_client s) c = None" "touch c now mx s = (Inl e, s)"
      "e = RefusedCap \<longleftrightarrow> mx \<le> length (by_flow s)"
      "e = RefusedExhausted \<Longrightarrow> next_flow s = - 1"
proof (cases "hm_get (by_client s) c")
  case (Some f)
  with known touch_known [OF assms Some] client_wfD(3) [OF assms, of c f] show ?thesis by blast
next
  case None
  consider "mx \<le> length (by_flow s)" | "length (by_flow s) < mx" "next_flow s = - 1"
    | "length (by_flow s) < mx" "next_flow s \<noteq> - 1" by force
  then show ?thesis
  proof cases
    case 1
    show ?thesis by (rule refused [of RefusedCap]) (use None 1 in \<open>auto simp: touch_def\<close>)
  next
    case 2
    show ?thesis
      by (rule refused [of RefusedExhausted]) (use None 2 in \<open>auto simp: touch_def checked_succ_def\<close>)
  next
    case 3
    with None fresh touch_new [OF None] show ?thesis by blast
  qed
qed

lemma touch_wf [wf_intros]:
  assumes wf: "client_wf s"
  shows "client_wf (snd (touch c now mx s))"
proof (rule touch_cases [OF wf, of c now mx])
  fix f t
  assume "hm_get (by_flow s) f = Some (c, t)"
    and "touch c now mx s = (Inr f, s\<lparr>by_flow := hm_insert f (c, now) (by_flow s)\<rparr>)"
  then show ?thesis by (simp add: client_wf_refresh [OF wf])
next
  let ?f = "FlowId (next_flow s)"
  assume none: "hm_get (by_client s) c = None" and lim: "next_flow s \<noteq> - 1"
    and eq: "touch c now mx s = (Inr ?f,
         s\<lparr>next_flow := next_flow s + 1, by_client := hm_insert c ?f (by_client s),
           by_flow := hm_insert ?f (c, now) (by_flow s)\<rparr>)"
  have unused: "hm_get (by_flow s) ?f = None"
    using client_wfD(4) [OF wf, of ?f] by (cases "hm_get (by_flow s) ?f") auto
  have "hm_get (by_client s) c' \<noteq> Some ?f" for c'
    using client_wfD(3) [OF wf, of c' ?f] unused by auto
  moreover have "hm_get (by_flow s) f' \<noteq> Some (c, t)" for f' t
    using client_wfD(3) [OF wf, of c f'] none by auto
  ultimately show ?thesis
    using wf lim unfolding eq client_wf_def
    by (auto simp: hm.wf_insert unat_succ intro: less_SucI)
qed (simp add: wf)


lemma client_of_wf [wf_intros]: "client_wf s \<Longrightarrow> client_wf (snd (client_of f now s))"
  by (auto simp: client_of_def client_wf_refresh split: option.splits)

lemma expire_one_wf [wf_intros]:
  assumes wf: "client_wf s"
  shows "client_wf (expire_one f s)"
proof (cases "hm_get (by_flow s) f")
  case (Some ct)
  obtain c t where f: "hm_get (by_flow s) f = Some (c, t)" using Some by (cases ct) auto
  have eq: "expire_one f s = s\<lparr>by_flow := hm_remove f (by_flow s), by_client := hm_remove c (by_client s)\<rparr>"
    by (simp add: expire_one_def f)
  have c: "hm_get (by_client s) c = Some f"
    using f by (auto simp: client_wfD(3) [OF wf])
  have "hm_get (hm_remove c (by_client s)) c' = Some f' \<longleftrightarrow>
      (\<exists>t. hm_get (hm_remove f (by_flow s)) f' = Some (c', t))" for c' f'
    using c f client_wfD(3) [OF wf, of c' f'] by (cases "c' = c"; cases "f' = f") auto
  then show ?thesis
    using client_wfD(1,2,4) [OF wf] unfolding eq client_wf_def
    by (simp add: hm.wf_remove) blast
qed (simp add: expire_one_def wf)

lemma fold_expire_one_wf: "client_wf s \<Longrightarrow> client_wf (fold expire_one fs s)"
  by (induction fs arbitrary: s) (auto intro: expire_one_wf)

lemma client_expire_wf [wf_intros]: "client_wf s \<Longrightarrow> client_wf (snd (client_expire now idle s))"
  by (simp add: client_expire_def Let_def fold_expire_one_wf)

lemma expire_one_by_flow: "by_flow (expire_one f s) = hm_remove f (by_flow s)"
  by (auto simp: expire_one_def delete_id dest!: map_of_eq_None_iff [THEN iffD1] split: option.splits)

lemma fold_expire_one_by_flow: "by_flow (fold expire_one fs s) = hm.remove_keys fs (by_flow s)"
  by (induction fs arbitrary: s) (simp_all add: hm.remove_keys_def expire_one_by_flow)

lemma fold_expire_one_next [simp]: "next_flow (fold expire_one fs s) = next_flow s"
  by (induction fs arbitrary: s) (auto simp: expire_one_def split: option.splits)

lemma mem_idle_flows:
  "hm_wf m \<Longrightarrow> f \<in> set (idle_flows now idle m) \<longleftrightarrow>
     (\<exists>x seen. hm_get m f = Some (x, seen) \<and> idle \<le> now - seen)"
  unfolding idle_flows_def by (auto simp: image_iff Bex_def hm_mem)

lemma distinct_idle_flows: "hm_wf m \<Longrightarrow> distinct (idle_flows now idle m)"
  by (simp add: idle_flows_def hm_wf_def distinct_map_filter)

lemma client_expire_lookup:
  assumes wf: "client_wf s"
  shows "hm_get (by_flow (snd (client_expire now idle s))) f =
     (case hm_get (by_flow s) f of None \<Rightarrow> None
      | Some (c, seen) \<Rightarrow> if idle \<le> now - seen then None else Some (c, seen))"
  using mem_idle_flows [OF client_wfD(2) [OF wf], of f now idle]
  by (auto simp: client_expire_def Let_def fold_expire_one_by_flow hm.get_remove_keys
      split: option.splits)

definition client_seen :: "'c client_flows \<Rightarrow> flow_id \<Rightarrow> instant option" where
  "client_seen s f = map_option snd (hm_get (by_flow s) f)"

interpretation client_idle: idle_table client_seen
    "\<lambda>f t s. snd (client_of f t s)" "\<lambda>t idle s. snd (client_expire t idle s)" client_wf
proof unfold_locales
  fix s :: "'c client_flows" and f g :: flow_id and t :: instant and idle :: duration
  assume wf: "client_wf s"
  show "client_wf (snd (client_of f t s))" and "client_wf (snd (client_expire t idle s))"
    using wf by (rule wf_intros)+
  show "client_seen (snd (client_of f t s)) g =
      (if g = f \<and> client_seen s f \<noteq> None then Some t else client_seen s g)"
    by (auto simp: client_seen_def client_of_def split: option.splits)
  show "client_seen (snd (client_expire t idle s)) g =
      (case client_seen s g of None \<Rightarrow> None | Some t0 \<Rightarrow> if idle \<le> t - t0 then None else Some t0)"
    by (auto simp: client_seen_def client_expire_lookup [OF wf] split: option.splits)
qed

subsection \<open>The cap and the identifiers\<close>

lemma length_by_flow: "client_wf s \<Longrightarrow> length (by_flow s) = card {f. hm_get (by_flow s) f \<noteq> None}"
  by (rule hm.len_card) (rule client_wfD)

lemma touch_length:
  assumes wf: "client_wf s"
  shows "length (by_flow (snd (touch c now mx s))) \<le> max mx (length (by_flow s))"
  by (rule touch_cases [OF wf, of c now mx])
     (auto simp: hm.len_insert [OF client_wfD(2) [OF wf]])

lemma client_of_length:
  "client_wf s \<Longrightarrow> length (by_flow (snd (client_of f now s))) = length (by_flow s)"
  by (auto simp: client_of_def hm.len_insert client_wfD(2) split: option.splits)

lemma client_expire_length:
  assumes wf: "client_wf s"
  shows "length (by_flow (snd (client_expire now idle s))) + fst (client_expire now idle s)
           = length (by_flow s)"
proof -
  let ?K = "{f. hm_get (by_flow s) f \<noteq> None}" and ?E = "set (idle_flows now idle (by_flow s))"
  have wf': "client_wf (snd (client_expire now idle s))" by (rule client_expire_wf [OF wf])
  have "{f. hm_get (by_flow (snd (client_expire now idle s))) f \<noteq> None} = ?K - ?E"
    by (auto simp: client_expire_lookup [OF wf] mem_idle_flows [OF client_wfD(2) [OF wf]]
        split: option.splits if_splits)
  moreover have "?E \<subseteq> ?K"
    by (auto simp: mem_idle_flows [OF client_wfD(2) [OF wf]])
  moreover have "card ?E = fst (client_expire now idle s)"
    by (simp add: client_expire_def Let_def distinct_card distinct_idle_flows client_wfD(2) [OF wf])
  ultimately show ?thesis
    using hm.finite_keys [of "by_flow s"]
    by (simp only: length_by_flow [OF wf] length_by_flow [OF wf'])
       (metis List.finite_set card_Diff_subset card_mono le_add_diff_inverse2)
qed

text \<open>The operations as one step function, with the binding a successful \<open>touch\<close> reports.\<close>

datatype 'c client_op = Touch 'c instant nat | ClientOf flow_id instant | ClientExpire instant duration

fun client_step :: "'c client_op \<Rightarrow> 'c client_flows \<Rightarrow> ('c \<times> flow_id) list \<times> 'c client_flows" where
  "client_step (Touch c now mx) s =
     (case touch c now mx s of (Inr f, s') \<Rightarrow> ([(c, f)], s') | (Inl _, s') \<Rightarrow> ([], s'))"
| "client_step (ClientOf f now) s = ([], snd (client_of f now s))"
| "client_step (ClientExpire now idle) s = ([], snd (client_expire now idle s))"

fun client_run :: "'c client_op list \<Rightarrow> 'c client_flows \<Rightarrow> ('c \<times> flow_id) list \<times> 'c client_flows" where
  "client_run [] s = ([], s)"
| "client_run (op # ops) s =
     (let (bs, s') = client_step op s; (bs', s'') = client_run ops s' in (bs @ bs', s''))"

lemma client_step_touch:
  "client_step (Touch c now mx) s =
     ((case fst (touch c now mx s) of Inr f \<Rightarrow> [(c, f)] | Inl _ \<Rightarrow> []), snd (touch c now mx s))"
  by (cases "touch c now mx s") (auto split: sum.splits)

declare client_step.simps(1) [simp del] client_step_touch [simp]

lemma client_step_wf [wf_intros]: "client_wf s \<Longrightarrow> client_wf (snd (client_step op s))"
  by (cases op) (simp_all add: wf_intros)

lemma client_run_wf [wf_intros]: "client_wf s \<Longrightarrow> client_wf (snd (client_run ops s))"
proof (induction ops arbitrary: s)
  case (Cons op ops)
  then show ?case
    using Cons.IH [OF client_step_wf [OF Cons.prems, of op]]
    by (simp add: Let_def case_prod_unfold)
qed simp


lemma client_step_next: "client_wf s \<Longrightarrow> unat (next_flow s) \<le> unat (next_flow (snd (client_step op s)))"
proof (cases op)
  case (Touch c now mx)
  assume wf: "client_wf s"
  show ?thesis
    unfolding Touch client_step_touch
    by (rule touch_cases [OF wf, of c now mx]) (simp_all add: unat_succ)
qed (auto simp: client_of_def client_expire_def Let_def split: option.splits)

text \<open>
  \<open>owns g s\<close>: the ghost assignment \<open>g\<close> of identifiers to clients agrees with the table.
\<close>

definition owns :: "(flow_id \<Rightarrow> 'c) \<Rightarrow> 'c client_flows \<Rightarrow> bool" where
  "owns g s \<longleftrightarrow> (\<forall>f c t. hm_get (by_flow s) f = Some (c, t) \<longrightarrow> g f = c)"

lemma owns_step:
  assumes wf: "client_wf s" and g: "owns g s"
  shows "\<exists>g'. (\<forall>f. unat (flow_num f) < unat (next_flow s) \<longrightarrow> g' f = g f)
     \<and> owns g' (snd (client_step op s))
     \<and> (\<forall>(c, f) \<in> set (fst (client_step op s)).
           g' f = c \<and> unat (flow_num f) < unat (next_flow (snd (client_step op s))))"
proof (cases op)
  case (Touch c now mx)
  show ?thesis
  proof (rule touch_cases [OF wf, of c now mx])
    fix f t
    assume bf: "hm_get (by_flow s) f = Some (c, t)"
      and eq: "touch c now mx s = (Inr f, s\<lparr>by_flow := hm_insert f (c, now) (by_flow s)\<rparr>)"
    have "owns g (snd (client_step op s))"
      using g bf by (auto simp: Touch client_step_touch eq owns_def split: if_splits)
    moreover have "g f = c" using g bf by (auto simp: owns_def)
    ultimately show ?thesis
      using client_wfD(4) [OF wf bf] by (auto simp: Touch client_step_touch eq intro!: exI [of _ g])
  next
    let ?f = "FlowId (next_flow s)"
    assume lim: "next_flow s \<noteq> - 1"
      and eq: "touch c now mx s = (Inr ?f, s\<lparr>next_flow := next_flow s + 1,
           by_client := hm_insert c ?f (by_client s), by_flow := hm_insert ?f (c, now) (by_flow s)\<rparr>)"
    have "owns (g(?f := c)) (snd (client_step op s))"
      using g by (auto simp: Touch client_step_touch eq owns_def split: if_splits)
    then show ?thesis
      using lim by (auto simp: Touch client_step_touch eq unat_succ intro!: exI [of _ "g(?f := c)"])
  qed (use g in \<open>auto simp: Touch client_step_touch intro!: exI [of _ g]\<close>)
next
  case (ClientOf f now)
  then show ?thesis
    using g by (auto simp: client_of_def owns_def split: option.splits if_splits intro!: exI [of _ g])
next
  case (ClientExpire now idle)
  then show ?thesis
    using g by (auto simp: owns_def client_expire_lookup [OF wf] split: option.splits if_splits
        intro!: exI [of _ g])
qed

lemma owns_run:
  "client_wf s \<Longrightarrow> owns g s \<Longrightarrow> \<exists>g'. (\<forall>f. unat (flow_num f) < unat (next_flow s) \<longrightarrow> g' f = g f)
     \<and> (\<forall>(c, f) \<in> set (fst (client_run ops s)). g' f = c)"
proof (induction ops arbitrary: s g)
  case (Cons op ops)
  let ?s' = "snd (client_step op s)"
  from owns_step [OF Cons.prems, of op] obtain g1 where
    g1: "\<forall>f. unat (flow_num f) < unat (next_flow s) \<longrightarrow> g1 f = g f" "owns g1 ?s'"
      "\<forall>(c, f) \<in> set (fst (client_step op s)). g1 f = c \<and> unat (flow_num f) < unat (next_flow ?s')"
    by blast
  from Cons.IH [OF client_step_wf [OF Cons.prems(1)] g1(2)] obtain g2 where
    g2: "\<forall>f. unat (flow_num f) < unat (next_flow ?s') \<longrightarrow> g2 f = g1 f"
      "\<forall>(c, f) \<in> set (fst (client_run ops ?s')). g2 f = c"
    by blast
  have "set (fst (client_run (op # ops) s)) =
      set (fst (client_step op s)) \<union> set (fst (client_run ops ?s'))"
    by (simp add: Let_def case_prod_unfold)
  moreover have "unat (next_flow s) \<le> unat (next_flow ?s')"
    by (rule client_step_next [OF Cons.prems(1)])
  ultimately have "(\<forall>f. unat (flow_num f) < unat (next_flow s) \<longrightarrow> g2 f = g f)
     \<and> (\<forall>(c, f) \<in> set (fst (client_run (op # ops) s)). g2 f = c)"
    using g1 g2 by fastforce
  then show ?case by blast
qed auto

text \<open>C2: within one session incarnation a flow identifier names one client for good. Over any
sequence of datagrams, replies and sweeps, two clients that are given the same identifier at
whatever two moments are the same client: identifiers are never reused, also after expiry.\<close>

theorem flow_ids_name_one_client:
  assumes "(c, f) \<in> set (fst (client_run ops client_flows_default))"
    and "(c', f) \<in> set (fst (client_run ops client_flows_default))"
  shows "c = c'"
proof -
  have "owns (\<lambda>_. c) client_flows_default" by (simp add: owns_def client_flows_default_def)
  then obtain g where "\<forall>(c, f) \<in> set (fst (client_run ops client_flows_default)). g f = c"
    using owns_run [OF client_wf_default, of "\<lambda>_. c" ops] by blast
  with assms have "g f = c" and "g f = c'" by auto
  then show ?thesis by simp
qed

theorem flow_ids_name_one_client_witness:
  "(7 :: nat, FlowId 2) \<in>
      set (fst (client_run [Touch 7 0 4, Touch 9 1 4, ClientExpire 100 50, Touch 7 101 4] client_flows_default))
   \<and> (9 :: nat, FlowId 2) \<notin>
      set (fst (client_run [Touch 7 0 4, Touch 9 1 4, ClientExpire 100 50, Touch 7 101 4] client_flows_default))"
  (is "?in \<and> _ \<notin> ?run")
proof
  show i: ?in
    by (simp add: client_flows_default_def touch_def checked_succ_def client_expire_def
        expire_one_def idle_flows_def Let_def)
  show "(9 :: nat, FlowId 2) \<notin> ?run"
  proof
    assume "(9 :: nat, FlowId 2) \<in> ?run"
    from flow_ids_name_one_client [OF this i] show False by simp
  qed
qed

definition capped :: "nat \<Rightarrow> 'c client_op \<Rightarrow> bool" where
  "capped m op \<longleftrightarrow> (case op of Touch c now mx \<Rightarrow> mx = m | _ \<Rightarrow> True)"

lemma client_step_length:
  assumes wf: "client_wf s" and "capped m op" and "length (by_flow s) \<le> m"
  shows "length (by_flow (snd (client_step op s))) \<le> m"
proof (cases op)
  case (Touch c now mx)
  then show ?thesis
    using assms touch_length [OF wf, of c now mx] by (simp add: capped_def)
next
  case (ClientOf f now)
  then show ?thesis using assms by (simp add: client_of_length)
next
  case (ClientExpire now idle)
  then show ?thesis using assms client_expire_length [OF wf, of now idle] by simp
qed

lemma client_run_length:
  "client_wf s \<Longrightarrow> length (by_flow s) \<le> m \<Longrightarrow> \<forall>op \<in> set ops. capped m op \<Longrightarrow>
     length (by_flow (snd (client_run ops s))) \<le> m"
proof (induction ops arbitrary: s)
  case (Cons op ops)
  then show ?case
    using client_step_wf [of s op] client_step_length [of s m op]
    by (simp add: Let_def case_prod_unfold)
qed simp

text \<open>Under a fixed cap no sequence of datagrams, replies and sweeps makes Access hold more
flows than the cap.\<close>

theorem client_flow_cap:
  assumes "\<forall>op \<in> set ops. capped m op"
  shows "client_flows_len (snd (client_run ops client_flows_default)) \<le> m"
  using client_run_length [OF client_wf_default _ assms]
  by (simp add: client_flows_len_def client_flows_default_def)

theorem client_flow_cap_witness:
  "client_flows_len (snd (client_run [Touch 7 0 1, Touch (9 :: nat) 1 1] client_flows_default)) \<le> 1"
  by (rule client_flow_cap) (simp add: capped_def)

text \<open>A refusal costs nothing and hits only clients without a flow. When \<open>touch\<close> fails
the table is unchanged and the client had no flow; it fails with \<open>Cap\<close> exactly when the table
is at the cap, and otherwise only because the identifier counter is at its maximum.\<close>

theorem touch_refused_iff:
  assumes "client_wf s"
  shows "touch c now m s = (Inl e, s') \<longleftrightarrow>
     s' = s \<and> hm_get (by_client s) c = None
     \<and> (if m \<le> client_flows_len s then e = RefusedCap else next_flow s = - 1 \<and> e = RefusedExhausted)"
  by (rule touch_cases [OF assms, of c now m]; cases e)
     (auto simp: client_flows_len_def touch_def checked_succ_def)

theorem touch_refused_iff_witness:
  "touch (9 :: nat) 5 1 (snd (touch 7 0 1 client_flows_default))
     = (Inl RefusedCap, snd (touch 7 0 1 client_flows_default))"
proof -
  have "client_wf (snd (touch (7 :: nat) 0 1 client_flows_default))"
    by (intro wf_intros)
  from touch_refused_iff [OF this, of 9 5 1 RefusedCap] show ?thesis
    by (simp add: client_flows_default_def touch_def checked_succ_def client_flows_len_def Let_def)
qed

section \<open>Serve: the flows of one peer\<close>

record 'u peer_flows =
  live :: "(flow_id, 'u \<times> instant) hmap"
  highest :: "flow_id option"

datatype admission = Live | New | Unknown

definition peer_flows_default :: "'u peer_flows" where
  "peer_flows_default = \<lparr>live = [], highest = None\<rparr>"

definition admit :: "flow_id \<Rightarrow> instant \<Rightarrow> 'u peer_flows \<Rightarrow> admission \<times> 'u peer_flows" where
  "admit flow now s =
     (case hm_get (live s) flow of
        Some (u, _) \<Rightarrow> (Live, s\<lparr>live := hm_insert flow (u, now) (live s)\<rparr>)
      | None \<Rightarrow>
          (if (case highest s of None \<Rightarrow> False | Some mark \<Rightarrow> flow \<le> mark) then (Unknown, s)
           else (New, s)))"

definition raise_mark :: "flow_id \<Rightarrow> flow_id option \<Rightarrow> flow_id option" where
  "raise_mark flow h = Some (case h of None \<Rightarrow> flow | Some mark \<Rightarrow> max mark flow)"

definition refuse :: "flow_id \<Rightarrow> 'u peer_flows \<Rightarrow> 'u peer_flows" where
  "refuse flow s = s\<lparr>highest := raise_mark flow (highest s)\<rparr>"

definition peer_insert :: "flow_id \<Rightarrow> 'u \<Rightarrow> instant \<Rightarrow> 'u peer_flows \<Rightarrow> 'u peer_flows" where
  "peer_insert flow u now s =
     s\<lparr>highest := raise_mark flow (highest s), live := hm_insert flow (u, now) (live s)\<rparr>"

definition peer_flows_len :: "'u peer_flows \<Rightarrow> nat" where
  "peer_flows_len s = length (live s)"

definition peer_get :: "flow_id \<Rightarrow> 'u peer_flows \<Rightarrow> 'u option" where
  "peer_get flow s = map_option fst (hm_get (live s) flow)"

definition peer_refresh :: "flow_id \<Rightarrow> instant \<Rightarrow> 'u peer_flows \<Rightarrow> 'u peer_flows" where
  "peer_refresh flow now s =
     (case hm_get (live s) flow of
        None \<Rightarrow> s
      | Some (u, _) \<Rightarrow> s\<lparr>live := hm_insert flow (u, now) (live s)\<rparr>)"

definition drain_all :: "'u peer_flows \<Rightarrow> 'u list \<times> 'u peer_flows" where
  "drain_all s = (map (\<lambda>(_, u, _). u) (live s), s\<lparr>live := []\<rparr>)"

text \<open>The \<open>filter_map\<close> of \<open>expire\<close>: remove each expired flow, keep what was removed.\<close>

fun take_upstreams :: "flow_id list \<Rightarrow> (flow_id, 'u \<times> instant) hmap \<Rightarrow> 'u list \<times> (flow_id, 'u \<times> instant) hmap" where
  "take_upstreams [] m = ([], m)"
| "take_upstreams (f # fs) m =
     (let (us, m') = take_upstreams fs (hm_remove f m)
      in (case hm_get m f of None \<Rightarrow> us | Some (u, _) \<Rightarrow> u # us, m'))"

definition peer_expire :: "instant \<Rightarrow> duration \<Rightarrow> 'u peer_flows \<Rightarrow> 'u list \<times> 'u peer_flows" where
  "peer_expire now idle s =
     (let (us, m) = take_upstreams (idle_flows now idle (live s)) (live s) in (us, s\<lparr>live := m\<rparr>))"

definition peer_wf :: "'u peer_flows \<Rightarrow> bool" where
  "peer_wf s \<longleftrightarrow> hm_wf (live s)
     \<and> (\<forall>f. hm_get (live s) f \<noteq> None \<longrightarrow> (\<exists>mark. highest s = Some mark \<and> f \<le> mark))"


lemma peer_wfD:
  assumes "peer_wf s"
  shows "hm_wf (live s)"
    "hm_get (live s) f = Some x \<Longrightarrow> \<exists>mark. highest s = Some mark \<and> f \<le> mark"
  using assms unfolding peer_wf_def by (simp, blast)

lemma peer_wf_default [wf_intros]: "peer_wf peer_flows_default"
  by (simp add: peer_wf_def peer_flows_default_def)

lemma raise_mark_le: "\<exists>m. raise_mark f h = Some m \<and> f \<le> m \<and> (\<forall>m0. h = Some m0 \<longrightarrow> m0 \<le> m)"
  by (cases h) (auto simp: raise_mark_def)

lemma peer_wf_live_update:
  assumes wf: "peer_wf s" and "hm_get (live s) f \<noteq> None"
  shows "peer_wf (s\<lparr>live := hm_insert f v (live s)\<rparr>)"
  using assms unfolding peer_wf_def by (auto simp: hm.wf_insert)

lemma admit_wf [wf_intros]: "peer_wf s \<Longrightarrow> peer_wf (snd (admit f now s))"
  by (auto simp: admit_def intro: peer_wf_live_update split: option.splits)

lemma peer_refresh_wf [wf_intros]: "peer_wf s \<Longrightarrow> peer_wf (peer_refresh f now s)"
  by (auto simp: peer_refresh_def intro: peer_wf_live_update split: option.splits)

lemma mark_raised:
  "\<exists>mark. h = Some mark \<and> g \<le> mark \<Longrightarrow> \<exists>mark. raise_mark f h = Some mark \<and> g \<le> mark"
  using raise_mark_le [of f h] by (auto intro: order_trans)

lemma refuse_wf [wf_intros]: "peer_wf s \<Longrightarrow> peer_wf (refuse f s)"
  unfolding peer_wf_def refuse_def by (simp add: mark_raised)

lemma peer_insert_wf [wf_intros]: "peer_wf s \<Longrightarrow> peer_wf (peer_insert f u now s)"
  using raise_mark_le [of f "highest s"]
  unfolding peer_wf_def peer_insert_def by (auto simp: hm.wf_insert mark_raised)

lemma drain_all_wf [wf_intros]: "peer_wf s \<Longrightarrow> peer_wf (snd (drain_all s))"
  by (simp add: peer_wf_def drain_all_def)

lemma take_upstreams_map: "snd (take_upstreams fs m) = hm.remove_keys fs m"
  by (induction fs m rule: take_upstreams.induct) (auto simp: Let_def hm.remove_keys_def split: prod.splits)

lemma peer_expire_live: "live (snd (peer_expire now idle s)) = hm.remove_keys (idle_flows now idle (live s)) (live s)"
  by (simp add: peer_expire_def Let_def case_prod_unfold take_upstreams_map)

lemma peer_expire_highest [simp]: "highest (snd (peer_expire now idle s)) = highest s"
  by (simp add: peer_expire_def Let_def case_prod_unfold)

lemma peer_expire_lookup:
  assumes wf: "peer_wf s"
  shows "hm_get (live (snd (peer_expire now idle s))) f =
     (case hm_get (live s) f of None \<Rightarrow> None
      | Some (u, seen) \<Rightarrow> if idle \<le> now - seen then None else Some (u, seen))"
  using mem_idle_flows [OF peer_wfD(1) [OF wf], of f now idle]
  by (auto simp: peer_expire_live hm.get_remove_keys split: option.splits)

lemma peer_expire_wf [wf_intros]: "peer_wf s \<Longrightarrow> peer_wf (snd (peer_expire now idle s))"
  using peer_expire_lookup [of s now idle]
  by (auto simp: peer_wf_def peer_expire_live hm.wf_remove_keys split: option.splits)

definition peer_seen :: "'u peer_flows \<Rightarrow> flow_id \<Rightarrow> instant option" where
  "peer_seen s f = map_option snd (hm_get (live s) f)"

interpretation peer_idle: idle_table peer_seen peer_refresh "\<lambda>t idle s. snd (peer_expire t idle s)" peer_wf
proof unfold_locales
  fix s :: "'u peer_flows" and f g :: flow_id and t :: instant and idle :: duration
  assume wf: "peer_wf s"
  show "peer_wf (peer_refresh f t s)" and "peer_wf (snd (peer_expire t idle s))"
    using wf by (rule wf_intros)+
  show "peer_seen (peer_refresh f t s) g = (if g = f \<and> peer_seen s f \<noteq> None then Some t else peer_seen s g)"
    by (auto simp: peer_seen_def peer_refresh_def split: option.splits)
  show "peer_seen (snd (peer_expire t idle s)) g =
      (case peer_seen s g of None \<Rightarrow> None | Some t0 \<Rightarrow> if idle \<le> t - t0 then None else Some t0)"
    by (auto simp: peer_seen_def peer_expire_lookup [OF wf] split: option.splits)
qed

subsection \<open>Spent identifiers\<close>

text \<open>An identifier at or below the mark is spent; only a higher one is \<open>New\<close>.\<close>

definition spent :: "flow_id \<Rightarrow> 'u peer_flows \<Rightarrow> bool" where
  "spent f s \<longleftrightarrow> (\<exists>mark. highest s = Some mark \<and> f \<le> mark)"

lemma admit_New_iff: "peer_wf s \<Longrightarrow> fst (admit f now s) = New \<longleftrightarrow> \<not> spent f s"
  using peer_wfD(2) [of s f]
  by (auto simp: admit_def spent_def split: option.splits)

lemma admit_Live_iff: "fst (admit f now s) = Live \<longleftrightarrow> peer_get f s \<noteq> None"
  by (auto simp: admit_def peer_get_def split: option.splits)

datatype 'u peer_op =
    Admit flow_id instant | Refuse flow_id | Insert flow_id 'u instant | Refresh flow_id instant
  | DrainAll | PeerExpire instant duration

fun peer_step :: "'u peer_op \<Rightarrow> 'u peer_flows \<Rightarrow> 'u peer_flows" where
  "peer_step (Admit f now) s = snd (admit f now s)"
| "peer_step (Refuse f) s = refuse f s"
| "peer_step (Insert f u now) s = peer_insert f u now s"
| "peer_step (Refresh f now) s = peer_refresh f now s"
| "peer_step DrainAll s = snd (drain_all s)"
| "peer_step (PeerExpire now idle) s = snd (peer_expire now idle s)"

lemma peer_step_wf [wf_intros]: "peer_wf s \<Longrightarrow> peer_wf (peer_step op s)"
  by (cases op) (simp_all add: wf_intros)

lemma peer_run_wf [wf_intros]: "peer_wf s \<Longrightarrow> peer_wf (fold peer_step ops s)"
  by (induction ops arbitrary: s) (auto intro: peer_step_wf)

lemma raise_mark_mono: "h = Some mark \<Longrightarrow> f \<le> mark \<Longrightarrow> \<exists>m. raise_mark g h = Some m \<and> f \<le> m"
  using mark_raised [of h f g] by auto

lemma spent_step: "spent f s \<Longrightarrow> spent f (peer_step op s)"
  by (cases op)
     (auto simp: spent_def admit_def refuse_def peer_insert_def peer_refresh_def drain_all_def
        intro: raise_mark_mono split: option.splits)

lemma spent_run: "spent f s \<Longrightarrow> spent f (fold peer_step ops s)"
  by (induction ops arbitrary: s) (auto intro: spent_step)

lemma spent_insert: "spent f (peer_insert f u now s)" and spent_refuse: "spent f (refuse f s)"
  using raise_mark_le [of f "highest s"] by (auto simp: spent_def peer_insert_def refuse_def)

text \<open>C3: Serve never rebinds an identifier. Once a flow was inserted or refused, no later
sequence of admissions, replies, sweeps, refusals, insertions and drains makes \<open>admit\<close> answer
\<open>New\<close> for it again, so an expired flow cannot be opened a second time.\<close>

theorem spent_flow_never_new:
  assumes "peer_wf s" and "op \<in> {Insert f u t0, Refuse f}"
  shows "fst (admit f now (fold peer_step ops (peer_step op s))) \<noteq> New"
proof -
  have "spent f (peer_step op s)"
    using assms(2) spent_insert [of f u t0 s] spent_refuse [of f s] by auto
  then have "spent f (fold peer_step ops (peer_step op s))" by (rule spent_run)
  with assms(1) show ?thesis by (simp add: admit_New_iff wf_intros)
qed

theorem spent_flow_never_new_witness:
  "fst (admit (FlowId 1) 60
     (fold peer_step [PeerExpire 60 60, Refuse (FlowId 0), DrainAll]
        (peer_step (Insert (FlowId 1) ''one'' 0) peer_flows_default))) \<noteq> New"
  by (rule spent_flow_never_new [where u = "''one''" and ?t0.0 = 0]) (simp_all add: wf_intros)

subsection \<open>No upstream is lost\<close>

definition upstreams :: "(flow_id, 'u \<times> instant) hmap \<Rightarrow> 'u list" where
  "upstreams m = map (\<lambda>(_, u, _). u) m"

lemma perm_remove_key:
  "hm_wf m \<Longrightarrow> hm_get m f = Some x \<Longrightarrow> mset m = add_mset (f, x) (mset (hm_remove f m))"
proof (induction m)
  case (Cons a m)
  then show ?case
    by (cases a) (auto simp: hm_wf_def delete_id image_iff)
qed simp

lemma take_upstreams_mset:
  "hm_wf m \<Longrightarrow> mset (upstreams m) = mset (fst (take_upstreams fs m)) + mset (upstreams (snd (take_upstreams fs m)))"
proof (induction fs arbitrary: m)
  case (Cons f fs)
  have IH: "mset (upstreams (hm_remove f m)) = mset (fst (take_upstreams fs (hm_remove f m)))
      + mset (upstreams (snd (take_upstreams fs (hm_remove f m))))"
    by (rule Cons.IH) (rule hm.wf_remove [OF Cons.prems])
  show ?case
  proof (cases "hm_get m f")
    case None
    then have "hm_remove f m = m" by (simp add: delete_id map_of_eq_None_iff)
    with None IH show ?thesis by (simp add: Let_def case_prod_unfold)
  next
    case (Some x)
    then have "mset (upstreams m) = add_mset (fst x) (mset (upstreams (hm_remove f m)))"
      using perm_remove_key [OF Cons.prems Some] by (simp add: upstreams_def case_prod_unfold)
    with Some IH show ?thesis by (simp add: Let_def case_prod_unfold split: prod.splits)
  qed
qed simp

text \<open>A sweep hands back exactly the upstreams of the flows it ends. As multisets, the
upstreams before a sweep are the ones returned for closing plus the ones still live, and a flow
is still live exactly if it was live and has been silent for less than the idle timeout.\<close>

theorem peer_expire_partition:
  assumes "peer_wf s"
  shows "mset (upstreams (live s)) =
       mset (fst (peer_expire now idle s)) + mset (upstreams (live (snd (peer_expire now idle s))))
     \<and> peer_get f (snd (peer_expire now idle s)) =
         (case hm_get (live s) f of None \<Rightarrow> None
          | Some (u, seen) \<Rightarrow> if now - seen < idle then Some u else None)"
proof
  show "mset (upstreams (live s)) =
      mset (fst (peer_expire now idle s)) + mset (upstreams (live (snd (peer_expire now idle s))))"
    using take_upstreams_mset [OF peer_wfD(1) [OF assms], of "idle_flows now idle (live s)"]
    by (simp add: peer_expire_def Let_def case_prod_unfold)
  show "peer_get f (snd (peer_expire now idle s)) =
      (case hm_get (live s) f of None \<Rightarrow> None
       | Some (u, seen) \<Rightarrow> if now - seen < idle then Some u else None)"
    by (auto simp: peer_get_def peer_expire_lookup [OF assms] split: option.splits)
qed

theorem peer_expire_partition_witness:
  "mset [''a'', ''b''] =
     mset (fst (peer_expire 60 50 (peer_insert (FlowId 2) ''b'' 30 (peer_insert (FlowId 1) ''a'' 0 peer_flows_default))))
     + mset [''b'']"
proof -
  let ?s = "peer_insert (FlowId 2) ''b'' 30 (peer_insert (FlowId 1) ''a'' 0 peer_flows_default)"
  have "peer_wf ?s" by (intro wf_intros)
  from peer_expire_partition [OF this, of 60 50] show ?thesis
    by (simp add: peer_expire_def upstreams_def peer_insert_def peer_flows_default_def idle_flows_def Let_def)
qed

end
