(* ===== verification/ServeUdp.thy ===== *)
theory ServeUdp
  imports UdpFlows
begin

text \<open>
  Serve's UDP data path (\<open>handle_udp_connection\<close>, \<open>quarantine\<close>, \<open>open_upstream\<close> and
  \<open>relay_upstream_replies\<close> in \<open>crates/engine/src/serve/run_serve.rs\<close>). One UDP service has
  any number of peer connections. Each runs a receive loop over its own flow table; all of
  them share the service's counters and the role's quarantine sinks.

  The loop is modelled at the points where the code awaits: \<open>conn_step\<close> is one turn of its
  \<open>select!\<close>. A turn that must open an upstream socket stops at that await (the phase
  \<open>OpeningFlow\<close>, with the slot already reserved) and goes on when the open resolves, so other
  connections and sinks interleave there. A datagram, a tick, an end of connection, a
  resolved open, and what a socket returns are inputs.
\<close>

section \<open>Opening an upstream\<close>

text \<open>
  What \<open>tokio::net::lookup_host\<close>, \<open>UdpSocket::bind\<close> and \<open>UdpSocket::connect\<close> answer.
  \<open>AddrV4\<close> and \<open>AddrV6\<close> carry the address and port as text.
\<close>

datatype sock_addr = AddrV4 string u16 | AddrV6 string u16

datatype resolve_result = ResolveTimeout | ResolveErr string | Resolved "sock_addr list"

datatype open_error =
    ResolvingTimedOut string
  | CannotResolve string string
  | ResolvedToNoAddress string
  | BindFailed string
  | ConnectFailed string

definition UPSTREAM_RESOLVE_TIMEOUT :: duration where
  "UPSTREAM_RESOLVE_TIMEOUT = from_secs 5"

fun unspecified_for :: "sock_addr \<Rightarrow> sock_addr" where
  "unspecified_for (AddrV4 _ _) = AddrV4 ''0.0.0.0'' 0"
| "unspecified_for (AddrV6 _ _) = AddrV6 ''::'' 0"

text \<open>The socket that comes back is the one bound to the first argument, connected to the second.\<close>

definition open_upstream ::
    "string \<Rightarrow> resolve_result \<Rightarrow> (sock_addr \<Rightarrow> string + nat) \<Rightarrow> (nat \<Rightarrow> sock_addr \<Rightarrow> string + unit)
      \<Rightarrow> open_error + nat \<times> sock_addr" where
  "open_upstream local_addr resolved bind connect =
     (case resolved of
        ResolveTimeout \<Rightarrow> Inl (ResolvingTimedOut local_addr)
      | ResolveErr e \<Rightarrow> Inl (CannotResolve local_addr e)
      | Resolved [] \<Rightarrow> Inl (ResolvedToNoAddress local_addr)
      | Resolved (target # _) \<Rightarrow>
          (case bind (unspecified_for target) of
             Inl e \<Rightarrow> Inl (BindFailed e)
           | Inr socket \<Rightarrow>
               (case connect socket target of
                  Inl e \<Rightarrow> Inl (ConnectFailed e)
                | Inr _ \<Rightarrow> Inr (socket, target))))"

section \<open>State\<close>

record udp_upstream =
  up_socket :: nat
  up_queue :: flow_queue

datatype conn_phase = Receiving | OpeningFlow flow_id "u8 list" instant | Ended

record serve_conn =
  sc_flows :: "udp_upstream peer_flows"
  sc_phase :: conn_phase
  sc_sent :: "u8 list list"

text \<open>
  A quarantine sink: its socket and, once the spawned task has run for the first time, its
  deadline.
\<close>

record sink =
  sk_socket :: nat
  sk_deadline :: "instant option"

definition serve_conn_start :: serve_conn where
  "serve_conn_start = \<lparr>sc_flows = peer_flows_default, sc_phase = Receiving, sc_sent = []\<rparr>"

section \<open>The receive loop\<close>

text \<open>Offering the payload to the flow's bounded queue, and what a refusal costs.\<close>

definition push_payload :: "flow_id \<Rightarrow> u8 list \<Rightarrow> udp_stats \<times> serve_conn \<Rightarrow> udp_stats \<times> serve_conn" where
  "push_payload flow payload sc =
     (let (stats, c) = sc in
      case hm_get (live (sc_flows c)) flow of
        None \<Rightarrow> (stats, c)
      | Some (up, seen) \<Rightarrow>
          (let (outcome, q) = queue_push (up_queue up) payload;
               c' = c\<lparr>sc_flows := (sc_flows c)\<lparr>live := hm_insert flow (up\<lparr>up_queue := q\<rparr>, seen) (live (sc_flows c))\<rparr>\<rparr>
           in case outcome of
                Queued \<Rightarrow> (stats, c')
              | Full \<Rightarrow> (record_drop QueueFull stats, c')
              | Closed \<Rightarrow> (record_drop UpstreamError stats, c')))"

text \<open>A datagram from the peer, up to the point where a new flow awaits its socket.\<close>

definition receive_datagram ::
    "udp_limits \<Rightarrow> u8 list \<Rightarrow> instant \<Rightarrow> udp_stats \<times> serve_conn \<Rightarrow> udp_stats \<times> serve_conn" where
  "receive_datagram limits datagram now sc =
     (let (stats, c) = sc in
      case decode datagram of
        Inl _ \<Rightarrow> (record_drop drop_reason.Malformed stats, c)
      | Inr (flow, payload) \<Rightarrow>
          (let (admission, flows) = admit flow now (sc_flows c); c1 = c\<lparr>sc_flows := flows\<rparr>
           in case admission of
                Unknown \<Rightarrow> (record_drop UnknownFlow stats, c1)
              | Live \<Rightarrow> push_payload flow payload (stats, c1)
              | New \<Rightarrow>
                  (if max_flows_per_peer limits \<le> peer_flows_len flows
                   then (record_drop Cap stats, c1\<lparr>sc_flows := refuse flow flows\<rparr>)
                   else (let (granted, stats1) = try_open_flow (max_flows limits) stats
                         in if granted then (stats1, c1\<lparr>sc_phase := OpeningFlow flow payload now\<rparr>)
                            else (record_drop Cap stats1, c1\<lparr>sc_flows := refuse flow flows\<rparr>)))))"

text \<open>
  Ending a flow: stop its relay and its writer (the queue is discarded with them), count the
  quarantine and spawn the sink that keeps the socket.
\<close>

definition quarantine :: "udp_upstream \<Rightarrow> udp_stats \<times> sink list \<Rightarrow> udp_stats \<times> sink list" where
  "quarantine up ss =
     (let (stats, sinks) = ss
      in (quarantine_started stats, sinks @ [\<lparr>sk_socket = up_socket up, sk_deadline = None\<rparr>]))"

definition sweep_tick ::
    "udp_limits \<Rightarrow> instant \<Rightarrow> udp_stats \<times> sink list \<times> serve_conn \<Rightarrow> udp_stats \<times> sink list \<times> serve_conn" where
  "sweep_tick limits now st =
     (let (stats, sinks, c) = st;
          (ended, flows) = peer_expire now (idle_timeout limits) (sc_flows c);
          (stats', sinks') = fold quarantine ended (stats, sinks)
      in (stats', sinks', c\<lparr>sc_flows := flows\<rparr>))"

text \<open>After the loop: every live flow is quarantined, the readers are aborted and joined.\<close>

definition end_connection ::
    "udp_stats \<times> sink list \<times> serve_conn \<Rightarrow> udp_stats \<times> sink list \<times> serve_conn" where
  "end_connection st =
     (let (stats, sinks, c) = st;
          (ended, flows) = drain_all (sc_flows c);
          (stats', sinks') = fold quarantine ended (stats, sinks)
      in (stats', sinks', c\<lparr>sc_flows := flows, sc_phase := Ended\<rparr>))"

text \<open>The open resolves: a stop gives the slot back and ends the loop; a failure gives it back
and spends the identifier; a socket becomes the upstream of the flow.\<close>

datatype opened = OpenStopped | OpenFailed | OpenedSocket nat

definition upstream_opened ::
    "udp_limits \<Rightarrow> opened \<Rightarrow> flow_id \<Rightarrow> u8 list \<Rightarrow> instant
      \<Rightarrow> udp_stats \<times> sink list \<times> serve_conn \<Rightarrow> udp_stats \<times> sink list \<times> serve_conn" where
  "upstream_opened limits res flow payload now st =
     (let (stats, sinks, c) = st in
      case res of
        OpenStopped \<Rightarrow> end_connection (flows_closed 1 stats, sinks, c)
      | OpenFailed \<Rightarrow>
          (record_drop Cap (flows_closed 1 stats), sinks,
           c\<lparr>sc_flows := refuse flow (sc_flows c), sc_phase := Receiving\<rparr>)
      | OpenedSocket socket \<Rightarrow>
          (let up = \<lparr>up_socket = socket, up_queue = queue_new (queue_depth limits)\<rparr>;
               c1 = c\<lparr>sc_flows := peer_insert flow up now (sc_flows c), sc_phase := Receiving\<rparr>;
               (stats', c2) = push_payload flow payload (stats, c1)
           in (stats', sinks, c2)))"

datatype conn_event =
    Stopped | SweepTick instant | ReaderJoined | ReadDatagram "u8 list" instant
  | ConnectionClosed | UpstreamOpen opened

fun conn_step ::
    "udp_limits \<Rightarrow> conn_event \<Rightarrow> udp_stats \<times> sink list \<times> serve_conn \<Rightarrow> udp_stats \<times> sink list \<times> serve_conn" where
  "conn_step limits ev (stats, sinks, c) =
     (case (sc_phase c, ev) of
        (Receiving, Stopped) \<Rightarrow> end_connection (stats, sinks, c)
      | (Receiving, SweepTick now) \<Rightarrow> sweep_tick limits now (stats, sinks, c)
      | (Receiving, ReaderJoined) \<Rightarrow> (stats, sinks, c)
      | (Receiving, ReadDatagram d now) \<Rightarrow>
          (let (stats', c') = receive_datagram limits d now (stats, c) in (stats', sinks, c'))
      | (Receiving, ConnectionClosed) \<Rightarrow> end_connection (stats, sinks, c)
      | (OpeningFlow flow payload now, UpstreamOpen res) \<Rightarrow>
          upstream_opened limits res flow payload now (stats, sinks, c)
      | _ \<Rightarrow> (stats, sinks, c))"

section \<open>Replies, writers and sinks\<close>

datatype socket_recv = RecvOk "u8 list" | RecvErr io_error_kind

text \<open>
  One turn of a flow's reply relay: \<open>None\<close> when the loop ends. \<open>mds\<close> is the connection's
  maximum datagram size now. A reply that cannot be sent (\<open>send_ok\<close> false) is only logged.
\<close>

definition relay_upstream_replies ::
    "flow_id \<Rightarrow> socket_recv \<Rightarrow> instant \<Rightarrow> nat option \<Rightarrow> bool \<Rightarrow> udp_stats \<times> serve_conn
      \<Rightarrow> (udp_stats \<times> serve_conn) option" where
  "relay_upstream_replies flow r now mds send_ok sc =
     (let (stats, c) = sc in
      case r of
        RecvErr k \<Rightarrow> if is_transient_recv_error k then Some (stats, c) else None
      | RecvOk bytes \<Rightarrow>
          (let c1 = c\<lparr>sc_flows := peer_refresh flow now (sc_flows c)\<rparr>;
               limit = payload_limit mds;
               stats1 = set_datagram_limit limit stats
           in case limit of
                None \<Rightarrow> Some (record_drop LimitShrink stats1, c1)
              | Some l \<Rightarrow>
                  (if l < length bytes then Some (record_drop Oversize stats1, c1)
                   else if send_ok then Some (stats1, c1\<lparr>sc_sent := sc_sent c1 @ [encode flow bytes]\<rparr>)
                   else Some (stats1, c1))))"

text \<open>One turn of a flow's writer: the next queued datagram goes to the socket.\<close>

definition writer_turn :: "flow_id \<Rightarrow> bool \<Rightarrow> udp_stats \<times> serve_conn \<Rightarrow> udp_stats \<times> serve_conn" where
  "writer_turn flow send_ok sc =
     (let (stats, c) = sc in
      case hm_get (live (sc_flows c)) flow of
        None \<Rightarrow> (stats, c)
      | Some (up, seen) \<Rightarrow>
          (case queue_recv (up_queue up) of
             (RecvItem _, q) \<Rightarrow>
               (if send_ok then stats else record_drop UpstreamError stats,
                c\<lparr>sc_flows := (sc_flows c)\<lparr>live := hm_insert flow (up\<lparr>up_queue := q\<rparr>, seen) (live (sc_flows c))\<rparr>\<rparr>)
           | _ \<Rightarrow> (stats, c)))"

text \<open>
  One turn of a sink's task: its first run fixes the deadline; a stop, the deadline, a dead
  socket or an abort end it, and dropping its slot releases the quarantine.
\<close>

datatype sink_event =
    SinkFirstRun instant | SinkStopped | SinkTimer instant | SinkRecv socket_recv | SinkAborted

fun sink_step :: "sink_event \<Rightarrow> sink \<Rightarrow> udp_stats \<Rightarrow> sink option \<times> udp_stats" where
  "sink_step (SinkFirstRun now) k stats =
     (case sk_deadline k of None \<Rightarrow> (Some (k\<lparr>sk_deadline := Some (now + QUARANTINE)\<rparr>), stats)
      | Some _ \<Rightarrow> (Some k, stats))"
| "sink_step SinkStopped k stats = (None, quarantine_ended stats)"
| "sink_step (SinkTimer now) k stats =
     (case sk_deadline k of None \<Rightarrow> (Some k, stats)
      | Some d \<Rightarrow> if d \<le> now then (None, quarantine_ended stats) else (Some k, stats))"
| "sink_step (SinkRecv (RecvOk _)) k stats = (Some k, record_drop QuarantineReply stats)"
| "sink_step (SinkRecv (RecvErr e)) k stats =
     (if is_transient_recv_error e then (Some k, stats) else (None, quarantine_ended stats))"
| "sink_step SinkAborted k stats = (None, quarantine_ended stats)"


section \<open>One service: many connections, shared counters, shared sinks\<close>

record udp_service =
  sv_stats :: udp_stats
  sv_sinks :: "sink list"
  sv_conns :: "serve_conn list"

definition udp_service_start :: udp_service where
  "udp_service_start = \<lparr>sv_stats = udp_stats_default, sv_sinks = [], sv_conns = []\<rparr>"

datatype service_event =
    Accepted
  | OnConn nat conn_event
  | OnRelay nat flow_id socket_recv instant "nat option" bool
  | OnWriter nat flow_id bool
  | OnSink nat sink_event

fun service_step :: "udp_limits \<Rightarrow> service_event \<Rightarrow> udp_service \<Rightarrow> udp_service" where
  "service_step limits Accepted s = s\<lparr>sv_conns := sv_conns s @ [serve_conn_start]\<rparr>"
| "service_step limits (OnConn i ev) s =
     (if i < length (sv_conns s)
      then (let (stats, sinks, c) = conn_step limits ev (sv_stats s, sv_sinks s, sv_conns s ! i)
            in \<lparr>sv_stats = stats, sv_sinks = sinks, sv_conns = (sv_conns s)[i := c]\<rparr>)
      else s)"
| "service_step limits (OnRelay i flow r now mds ok) s =
     (if i < length (sv_conns s)
      then (case relay_upstream_replies flow r now mds ok (sv_stats s, sv_conns s ! i) of
              None \<Rightarrow> s
            | Some (stats, c) \<Rightarrow> s\<lparr>sv_stats := stats, sv_conns := (sv_conns s)[i := c]\<rparr>)
      else s)"
| "service_step limits (OnWriter i flow ok) s =
     (if i < length (sv_conns s)
      then (let (stats, c) = writer_turn flow ok (sv_stats s, sv_conns s ! i)
            in s\<lparr>sv_stats := stats, sv_conns := (sv_conns s)[i := c]\<rparr>)
      else s)"
| "service_step limits (OnSink i ev) s =
     (if i < length (sv_sinks s)
      then (let (k, stats) = sink_step ev (sv_sinks s ! i) (sv_stats s)
            in s\<lparr>sv_stats := stats,
                 sv_sinks := take i (sv_sinks s) @ (case k of None \<Rightarrow> [] | Some k' \<Rightarrow> [k'])
                               @ drop (Suc i) (sv_sinks s)\<rparr>)
      else s)"

subsection \<open>Invariant\<close>

text \<open>The slots a connection holds: its live flows and the one whose socket is being opened.\<close>

definition pending :: "serve_conn \<Rightarrow> nat" where
  "pending c = (case sc_phase c of OpeningFlow _ _ _ \<Rightarrow> 1 | _ \<Rightarrow> 0)"

definition conn_slots :: "serve_conn \<Rightarrow> nat" where
  "conn_slots c = length (live (sc_flows c)) + pending c"

definition queue_ok :: "udp_limits \<Rightarrow> udp_upstream \<Rightarrow> bool" where
  "queue_ok limits up \<longleftrightarrow>
     fq_depth (up_queue up) = max (queue_depth limits) 1
     \<and> length (fq_items (up_queue up)) \<le> fq_depth (up_queue up)"

definition queues_ok :: "udp_limits \<Rightarrow> udp_upstream peer_flows \<Rightarrow> bool" where
  "queues_ok limits fl \<longleftrightarrow> (\<forall>f up t. hm_get (live fl) f = Some (up, t) \<longrightarrow> queue_ok limits up)"

definition conn_ok :: "udp_limits \<Rightarrow> serve_conn \<Rightarrow> bool" where
  "conn_ok limits c \<longleftrightarrow> peer_wf (sc_flows c) \<and> queues_ok limits (sc_flows c)
     \<and> conn_slots c \<le> max_flows_per_peer limits
     \<and> (sc_phase c = Ended \<longrightarrow> live (sc_flows c) = [])
     \<and> (\<forall>f p t. sc_phase c = OpeningFlow f p t \<longrightarrow> hm_get (live (sc_flows c)) f = None)"

abbreviation service_balanced :: "udp_limits \<Rightarrow> nat \<Rightarrow> nat \<Rightarrow> udp_stats \<Rightarrow> bool" where
  "service_balanced limits \<equiv> slots.balanced (max_flows limits)"

lemma balanced_frame [simp]:
  "slots.balanced m l k (record_drop r stats) = slots.balanced m l k stats"
  "slots.balanced m l k (set_datagram_limit d stats) = slots.balanced m l k stats"
  by (simp_all add: slots.balanced_def)

lemma conn_start_ok: "conn_ok limits serve_conn_start"
  by (simp add: conn_ok_def serve_conn_start_def wf_intros queues_ok_def conn_slots_def pending_def)
     (simp add: peer_flows_default_def)

text \<open>Replacing the queue of a live flow changes neither slots nor phase.\<close>

lemma conn_ok_set_queue:
  assumes ok: "conn_ok limits c" and f: "hm_get (live (sc_flows c)) f = Some (up, t)"
    and q: "queue_ok limits (up\<lparr>up_queue := q\<rparr>)"
  shows "conn_ok limits (c\<lparr>sc_flows := (sc_flows c)\<lparr>live := hm_insert f (up\<lparr>up_queue := q\<rparr>, t) (live (sc_flows c))\<rparr>\<rparr>)"
    and "conn_slots (c\<lparr>sc_flows := (sc_flows c)\<lparr>live := hm_insert f (up\<lparr>up_queue := q\<rparr>, t) (live (sc_flows c))\<rparr>\<rparr>) = conn_slots c"
proof -
  have wf: "peer_wf (sc_flows c)" using ok by (simp add: conn_ok_def)
  have ended: "sc_phase c \<noteq> Ended" using ok f by (auto simp: conn_ok_def)
  have len: "length (hm_insert f x (live (sc_flows c))) = length (live (sc_flows c))" for x
    using f by (simp add: hm.len_insert [OF peer_wfD(1) [OF wf]])
  show "conn_slots (c\<lparr>sc_flows := (sc_flows c)\<lparr>live := hm_insert f (up\<lparr>up_queue := q\<rparr>, t) (live (sc_flows c))\<rparr>\<rparr>) = conn_slots c"
    by (simp add: conn_slots_def pending_def len)
  have "peer_wf ((sc_flows c)\<lparr>live := hm_insert f (up\<lparr>up_queue := q\<rparr>, t) (live (sc_flows c))\<rparr>)"
    using f by (intro peer_wf_live_update [OF wf]) simp
  then show "conn_ok limits (c\<lparr>sc_flows := (sc_flows c)\<lparr>live := hm_insert f (up\<lparr>up_queue := q\<rparr>, t) (live (sc_flows c))\<rparr>\<rparr>)"
    using ok f q ended unfolding conn_ok_def
    by (auto simp: queues_ok_def conn_slots_def pending_def len split: conn_phase.splits)
qed

lemma queue_push_ok: "queue_ok limits up \<Longrightarrow> queue_ok limits (up\<lparr>up_queue := snd (queue_push (up_queue up) p)\<rparr>)"
  by (auto simp: queue_ok_def queue_push_def)

lemma queue_recv_ok:
  "queue_ok limits up \<Longrightarrow> queue_ok limits (up\<lparr>up_queue := snd (queue_recv (up_queue up))\<rparr>)"
  by (auto simp: queue_ok_def split: list.splits)

lemma push_payload_ok:
  assumes "conn_ok limits c" and "slots.balanced m (conn_slots c + rest) k stats"
  shows "conn_ok limits (snd (push_payload f p (stats, c)))
    \<and> slots.balanced m (conn_slots (snd (push_payload f p (stats, c))) + rest) k (fst (push_payload f p (stats, c)))"
proof (cases "hm_get (live (sc_flows c)) f")
  case (Some ut)
  obtain up t where ut: "ut = (up, t)" by (cases ut)
  obtain r q where rq: "queue_push (up_queue up) p = (r, q)" by (cases "queue_push (up_queue up) p")
  have "queue_ok limits up" using assms(1) Some ut by (auto simp: conn_ok_def queues_ok_def)
  from queue_push_ok [OF this, of p] have "queue_ok limits (up\<lparr>up_queue := q\<rparr>)" by (simp add: rq)
  from conn_ok_set_queue [OF assms(1) Some [unfolded ut] this] assms(2) show ?thesis
    by (cases r) (simp_all add: push_payload_def Some ut rq)
qed (use assms in \<open>simp add: push_payload_def\<close>)

lemma conn_ok_admit:
  assumes "conn_ok limits c"
  shows "conn_ok limits (c\<lparr>sc_flows := snd (admit f now (sc_flows c))\<rparr>)"
    and "conn_slots (c\<lparr>sc_flows := snd (admit f now (sc_flows c))\<rparr>) = conn_slots c"
proof -
  have wf: "peer_wf (sc_flows c)" using assms by (simp add: conn_ok_def)
  have len: "length (live (snd (admit f now (sc_flows c)))) = length (live (sc_flows c))"
    by (auto simp: admit_def hm.len_insert [OF peer_wfD(1) [OF wf]] split: option.splits)
  show slots: "conn_slots (c\<lparr>sc_flows := snd (admit f now (sc_flows c))\<rparr>) = conn_slots c"
    by (simp add: conn_slots_def pending_def len)
  have "queues_ok limits (snd (admit f now (sc_flows c)))"
    using assms unfolding conn_ok_def queues_ok_def
    by (auto simp: admit_def split: option.splits if_splits)
  moreover have "hm_get (live (snd (admit f now (sc_flows c)))) g = None \<longleftrightarrow> hm_get (live (sc_flows c)) g = None" for g
    by (auto simp: admit_def split: option.splits)
  moreover have "live (snd (admit f now (sc_flows c))) = [] \<longleftrightarrow> live (sc_flows c) = []"
    using len by (metis length_0_conv)
  ultimately show "conn_ok limits (c\<lparr>sc_flows := snd (admit f now (sc_flows c))\<rparr>)"
    using assms slots admit_wf [OF wf, of f now] unfolding conn_ok_def by simp
qed

lemma conn_ok_refresh:
  assumes "conn_ok limits c"
  shows "conn_ok limits (c\<lparr>sc_flows := peer_refresh f now (sc_flows c)\<rparr>)"
    and "conn_slots (c\<lparr>sc_flows := peer_refresh f now (sc_flows c)\<rparr>) = conn_slots c"
proof -
  have wf: "peer_wf (sc_flows c)" using assms by (simp add: conn_ok_def)
  have len: "length (live (peer_refresh f now (sc_flows c))) = length (live (sc_flows c))"
    by (auto simp: peer_refresh_def hm.len_insert [OF peer_wfD(1) [OF wf]] split: option.splits)
  show slots: "conn_slots (c\<lparr>sc_flows := peer_refresh f now (sc_flows c)\<rparr>) = conn_slots c"
    by (simp add: conn_slots_def pending_def len)
  have "queues_ok limits (peer_refresh f now (sc_flows c))"
    using assms unfolding conn_ok_def queues_ok_def
    by (auto simp: peer_refresh_def split: option.splits if_splits)
  moreover have "hm_get (live (peer_refresh f now (sc_flows c))) g = None \<longleftrightarrow> hm_get (live (sc_flows c)) g = None" for g
    by (auto simp: peer_refresh_def split: option.splits)
  moreover have "live (peer_refresh f now (sc_flows c)) = [] \<longleftrightarrow> live (sc_flows c) = []"
    using len by (metis length_0_conv)
  ultimately show "conn_ok limits (c\<lparr>sc_flows := peer_refresh f now (sc_flows c)\<rparr>)"
    using assms slots peer_refresh_wf [OF wf, of f now] unfolding conn_ok_def by simp
qed

lemma refuse_live [simp]: "live (refuse f s) = live s"
  by (simp add: refuse_def)

lemma conn_ok_refuse:
  assumes "conn_ok limits c"
  shows "conn_ok limits (c\<lparr>sc_flows := refuse f (sc_flows c)\<rparr>)"
    and "conn_slots (c\<lparr>sc_flows := refuse f (sc_flows c)\<rparr>) = conn_slots c"
  using assms refuse_wf [of "sc_flows c" f]
  by (simp_all add: conn_ok_def conn_slots_def pending_def queues_ok_def)


subsection \<open>Every turn of a connection keeps the books\<close>

text \<open>
  \<open>keeps limits rest k st\<close>: the connection of \<open>st\<close> is in order and the shared counters
  balance with \<open>rest\<close> slots of the other connections.
\<close>

fun keeps :: "udp_limits \<Rightarrow> nat \<Rightarrow> udp_stats \<times> sink list \<times> serve_conn \<Rightarrow> bool" where
  "keeps limits rest (stats, sinks, c) \<longleftrightarrow> conn_ok limits c
     \<and> service_balanced limits (conn_slots c + rest) (length sinks) stats"

lemma fold_quarantine:
  assumes "m < 2 ^ 64" and "slots.balanced m (length us + rest) (length sinks) stats"
  shows "slots.balanced m rest (length (snd (fold quarantine us (stats, sinks))))
           (fst (fold quarantine us (stats, sinks)))"
  using assms(2)
proof (induction us arbitrary: stats sinks)
  case (Cons u us)
  have "slots.balanced m (length us + rest) (Suc (length sinks)) (quarantine_started stats)"
    using slots.balanced_quarantine [OF _ assms(1)] Cons.prems by simp
  then show ?case
    using Cons.IH [of "sinks @ [\<lparr>sk_socket = up_socket u, sk_deadline = None\<rparr>]" "quarantine_started stats"]
    by (simp add: quarantine_def)
qed simp

lemma length_upstreams [simp]: "length (upstreams m) = length m"
  by (simp add: upstreams_def)

lemma peer_expire_length:
  "peer_wf s \<Longrightarrow> length (fst (peer_expire now idle s)) + length (live (snd (peer_expire now idle s))) = length (live s)"
proof -
  assume "peer_wf s"
  from take_upstreams_mset [OF peer_wfD(1) [OF this], of "idle_flows now idle (live s)"]
  have "size (mset (upstreams (live s))) = size (mset (fst (peer_expire now idle s)) + mset (upstreams (live (snd (peer_expire now idle s)))))"
    by (simp add: peer_expire_def Let_def case_prod_unfold)
  then show ?thesis by simp
qed

lemma sweep_tick_keeps:
  assumes "keeps limits rest (stats, sinks, c)" and "max_flows limits < 2 ^ 64" and "sc_phase c = Receiving"
  shows "keeps limits rest (sweep_tick limits now (stats, sinks, c))"
proof -
  let ?ex = "peer_expire now (idle_timeout limits) (sc_flows c)"
  let ?c' = "c\<lparr>sc_flows := snd ?ex\<rparr>"
  have ok: "conn_ok limits c" using assms(1) by simp
  then have wf: "peer_wf (sc_flows c)" by (simp add: conn_ok_def)
  have len: "conn_slots c = length (fst ?ex) + conn_slots ?c'"
    using peer_expire_length [OF wf, of now "idle_timeout limits"] by (simp add: conn_slots_def pending_def)
  have "queues_ok limits (snd ?ex)"
    using ok by (auto simp: conn_ok_def queues_ok_def peer_expire_lookup [OF wf] split: option.splits if_splits)
  then have "conn_ok limits ?c'"
    using ok len assms(3) peer_expire_wf [OF wf] by (simp add: conn_ok_def)
  moreover have "slots.balanced (max_flows limits) (length (fst ?ex) + (conn_slots ?c' + rest)) (length sinks) stats"
    using assms(1) len by (simp add: add.assoc)
  from fold_quarantine [OF assms(2) this]
  have "slots.balanced (max_flows limits) (conn_slots ?c' + rest)
      (length (snd (fold quarantine (fst ?ex) (stats, sinks)))) (fst (fold quarantine (fst ?ex) (stats, sinks)))" .
  ultimately show ?thesis
    by (simp add: sweep_tick_def Let_def case_prod_unfold)
qed

lemma end_connection_keeps:
  assumes "peer_wf (sc_flows c)" and "max_flows limits < 2 ^ 64"
    and "service_balanced limits (length (live (sc_flows c)) + rest) (length sinks) stats"
  shows "keeps limits rest (end_connection (stats, sinks, c))"
proof -
  have "conn_ok limits (c\<lparr>sc_flows := (sc_flows c)\<lparr>live := []\<rparr>, sc_phase := Ended\<rparr>)"
    using drain_all_wf [OF assms(1)]
    by (simp add: conn_ok_def queues_ok_def conn_slots_def pending_def drain_all_def)
  moreover have "slots.balanced (max_flows limits)
      (length (map (\<lambda>(_, u, _). u) (live (sc_flows c))) + rest) (length sinks) stats"
    using assms(3) by simp
  from fold_quarantine [OF assms(2) this] show ?thesis
    using calculation
    by (simp add: end_connection_def drain_all_def Let_def case_prod_unfold conn_slots_def pending_def)
qed

lemma receive_datagram_keeps:
  assumes "keeps limits rest (stats, sinks, c)" and "max_flows limits < 2 ^ 64" and "sc_phase c = Receiving"
    and "receive_datagram limits d now (stats, c) = (stats', c')"
  shows "keeps limits rest (stats', sinks, c')"
proof (cases "decode d")
  case (Inl e)
  then show ?thesis using assms(1,4) by (auto simp: receive_datagram_def)
next
  case (Inr fp)
  obtain f p where fp: "fp = (f, p)" by (cases fp)
  let ?c1 = "c\<lparr>sc_flows := snd (admit f now (sc_flows c))\<rparr>"
  have ok: "conn_ok limits c" and bal: "service_balanced limits (conn_slots c + rest) (length sinks) stats"
    using assms(1) by simp_all
  have wf: "peer_wf (sc_flows c)" using ok by (simp add: conn_ok_def)
  note c1 = conn_ok_admit [OF ok, of f now]
  have def1: "receive_datagram limits d now (stats, c) =
    (case fst (admit f now (sc_flows c)) of
        Unknown \<Rightarrow> (record_drop UnknownFlow stats, ?c1)
      | Live \<Rightarrow> push_payload f p (stats, ?c1)
      | New \<Rightarrow>
          (if max_flows_per_peer limits \<le> peer_flows_len (sc_flows ?c1)
           then (record_drop Cap stats, ?c1\<lparr>sc_flows := refuse f (sc_flows ?c1)\<rparr>)
           else (if fst (try_open_flow (max_flows limits) stats)
                 then (snd (try_open_flow (max_flows limits) stats), ?c1\<lparr>sc_phase := OpeningFlow f p now\<rparr>)
                 else (record_drop Cap (snd (try_open_flow (max_flows limits) stats)),
                       ?c1\<lparr>sc_flows := refuse f (sc_flows ?c1)\<rparr>))))"
    by (simp add: receive_datagram_def Inr fp Let_def case_prod_unfold split: admission.splits)
  show ?thesis
  proof (cases "fst (admit f now (sc_flows c))")
    case Unknown
    then show ?thesis using assms(4) c1 bal by (auto simp: def1)
  next
    case Live
    then show ?thesis
      using assms(4) push_payload_ok [OF c1(1), of "max_flows limits" rest "length sinks" stats f p] bal c1(2)
      by (simp add: def1)
  next
    case New
    note refused = conn_ok_refuse [OF c1(1), of f]
    have live1: "live (sc_flows ?c1) = live (sc_flows c)" and none: "hm_get (live (sc_flows c)) f = None"
      using New by (auto simp: admit_def split: option.splits if_splits)
    show ?thesis
    proof (cases "max_flows_per_peer limits \<le> peer_flows_len (sc_flows ?c1)")
      case True
      then show ?thesis using New assms(4) refused bal c1(2) by (auto simp: def1)
    next
      case room: False
      show ?thesis
      proof (cases "fst (try_open_flow (max_flows limits) stats)")
        case True
        let ?c2 = "?c1\<lparr>sc_phase := OpeningFlow f p now\<rparr>"
        have slots2: "conn_slots ?c2 = Suc (conn_slots c)"
          using assms(3) live1 by (simp add: conn_slots_def pending_def)
        moreover have "conn_slots ?c2 \<le> max_flows_per_peer limits"
          using room live1 by (simp add: conn_slots_def pending_def peer_flows_len_def)
        ultimately have "conn_ok limits ?c2"
          using c1(1) live1 none unfolding conn_ok_def by simp
        moreover have "service_balanced limits (Suc (conn_slots c + rest)) (length sinks) (snd (try_open_flow (max_flows limits) stats))"
          by (rule slots.balanced_open [OF bal assms(2) True])
        ultimately show ?thesis
          using New room True assms(4) slots2 by (auto simp: def1)
      next
        case False
        have "snd (try_open_flow (max_flows limits) stats) = stats"
          by (rule slots.try_open_refused [OF assms(2) False])
        then show ?thesis
          using New room False assms(4) refused bal c1(2) by (auto simp: def1)
      qed
    qed
  qed
qed

lemma queue_ok_new: "queue_ok limits \<lparr>up_socket = k, up_queue = queue_new (queue_depth limits)\<rparr>"
  by (simp add: queue_ok_def queue_new_def)

lemma upstream_opened_keeps:
  assumes "keeps limits rest (stats, sinks, c)" and mx: "max_flows limits < 2 ^ 64"
    and ph: "sc_phase c = OpeningFlow f p now"
  shows "keeps limits rest (upstream_opened limits res f p now (stats, sinks, c))"
proof -
  let ?n = "length (live (sc_flows c))"
  have ok: "conn_ok limits c" and bal: "service_balanced limits (Suc ?n + rest) (length sinks) stats"
    using assms by (simp_all add: conn_slots_def pending_def)
  have wf: "peer_wf (sc_flows c)" using ok by (simp add: conn_ok_def)
  have "service_balanced limits (Suc ?n + rest - 1) (length sinks) (flows_closed 1 stats)"
    by (rule slots.balanced_close [OF bal mx]) simp
  then have closed: "service_balanced limits (?n + rest) (length sinks) (flows_closed 1 stats)" by simp
  show ?thesis
  proof (cases res)
    case OpenStopped
    then show ?thesis
      using end_connection_keeps [OF wf mx closed] by (simp add: upstream_opened_def)
  next
    case OpenFailed
    have "conn_ok limits (c\<lparr>sc_flows := refuse f (sc_flows c), sc_phase := Receiving\<rparr>)"
      using ok ph by (simp add: conn_ok_def refuse_wf queues_ok_def conn_slots_def pending_def)
    then show ?thesis
      using closed OpenFailed by (simp add: upstream_opened_def conn_slots_def pending_def)
  next
    case (OpenedSocket socket)
    let ?up = "\<lparr>up_socket = socket, up_queue = queue_new (queue_depth limits)\<rparr>"
    let ?c1 = "c\<lparr>sc_flows := peer_insert f ?up now (sc_flows c), sc_phase := Receiving\<rparr>"
    have "hm_get (live (sc_flows c)) f = None" using ok ph by (simp add: conn_ok_def)
    then have slots1: "conn_slots ?c1 = conn_slots c"
      using ph by (simp add: conn_slots_def pending_def peer_insert_def hm.len_insert [OF peer_wfD(1) [OF wf]])
    moreover have "queues_ok limits (peer_insert f ?up now (sc_flows c))"
      using ok by (auto simp: conn_ok_def queues_ok_def peer_insert_def queue_ok_new split: if_splits)
    ultimately have "conn_ok limits ?c1"
      using ok peer_insert_wf [OF wf] unfolding conn_ok_def by simp
    from push_payload_ok [OF this, of "max_flows limits" rest "length sinks" stats f p] slots1 assms(1)
    show ?thesis
      by (simp add: upstream_opened_def OpenedSocket Let_def case_prod_unfold)
  qed
qed

lemma conn_step_keeps:
  assumes "keeps limits rest (stats, sinks, c)" and mx: "max_flows limits < 2 ^ 64"
  shows "keeps limits rest (conn_step limits ev (stats, sinks, c))"
proof (cases "sc_phase c")
  case Receiving
  have wf: "peer_wf (sc_flows c)" and bal: "service_balanced limits (length (live (sc_flows c)) + rest) (length sinks) stats"
    using assms(1) Receiving by (simp_all add: conn_ok_def conn_slots_def pending_def)
  note ended = end_connection_keeps [OF wf mx bal]
  show ?thesis
  proof (cases ev)
    case (ReadDatagram d now)
    then show ?thesis
      using Receiving receive_datagram_keeps [OF assms Receiving, of d now]
      by (cases "receive_datagram limits d now (stats, c)") simp
  qed (use Receiving assms ended sweep_tick_keeps [OF assms Receiving] in auto)
next
  case (OpeningFlow f p now)
  then show ?thesis
    using assms(1) upstream_opened_keeps [OF assms OpeningFlow] by (cases ev) auto
next
  case Ended
  then show ?thesis using assms(1) by simp
qed


lemma relay_keeps:
  assumes "conn_ok limits c" and "slots.balanced m (conn_slots c + rest) k stats"
    and "relay_upstream_replies f r now mds send_ok (stats, c) = Some (stats', c')"
  shows "conn_ok limits c' \<and> slots.balanced m (conn_slots c' + rest) k stats'"
proof -
  note refreshed = conn_ok_refresh [OF assms(1), of f now]
  have "conn_ok limits (c\<lparr>sc_sent := x\<rparr>) = conn_ok limits c" and "conn_slots (c\<lparr>sc_sent := x\<rparr>) = conn_slots c"
    for c x by (simp_all add: conn_ok_def conn_slots_def pending_def)
  then show ?thesis
    using assms refreshed
    by (auto simp: relay_upstream_replies_def Let_def split: socket_recv.splits option.splits if_splits
        simp del: is_transient_recv_error.simps)
qed

lemma writer_keeps:
  assumes "conn_ok limits c" and "slots.balanced m (conn_slots c + rest) k stats"
  shows "conn_ok limits (snd (writer_turn f send_ok (stats, c)))
    \<and> slots.balanced m (conn_slots (snd (writer_turn f send_ok (stats, c))) + rest) k (fst (writer_turn f send_ok (stats, c)))"
proof (cases "hm_get (live (sc_flows c)) f")
  case (Some ut)
  obtain up t where ut: "ut = (up, t)" by (cases ut)
  obtain r q where rq: "queue_recv (up_queue up) = (r, q)" by (cases "queue_recv (up_queue up)")
  have "queue_ok limits up" using assms(1) Some ut by (auto simp: conn_ok_def queues_ok_def)
  from queue_recv_ok [OF this] have "queue_ok limits (up\<lparr>up_queue := q\<rparr>)" by (simp only: rq snd_conv)
  from conn_ok_set_queue [OF assms(1) Some [unfolded ut] this] assms show ?thesis
    by (cases r) (simp_all add: writer_turn_def Some ut rq del: queue_recv.simps)
qed (use assms in \<open>simp add: writer_turn_def\<close>)

lemma sink_step_stats:
  assumes "slots.balanced m l (Suc k) stats" and "sink_step ev sk stats = (r, stats')"
  shows "slots.balanced m l (if r = None then k else Suc k) stats'"
proof -
  have "slots.balanced m l k (quarantine_ended stats)" by (rule slots.balanced_release [OF assms(1)])
  then show ?thesis
    using assms by (cases "(ev, sk, stats)" rule: sink_step.cases)
      (auto split: option.splits if_splits simp del: is_transient_recv_error.simps)
qed

section \<open>The service invariant\<close>

definition total_slots :: "serve_conn list \<Rightarrow> nat" where
  "total_slots cs = sum_list (map conn_slots cs)"

definition service_inv :: "udp_limits \<Rightarrow> udp_service \<Rightarrow> bool" where
  "service_inv limits s \<longleftrightarrow> (\<forall>c \<in> set (sv_conns s). conn_ok limits c)
     \<and> service_balanced limits (total_slots (sv_conns s)) (length (sv_sinks s)) (sv_stats s)"

lemma total_slots_update:
  "i < length cs \<Longrightarrow> \<exists>rest. total_slots cs = conn_slots (cs ! i) + rest
     \<and> (\<forall>c. total_slots (cs[i := c]) = conn_slots c + rest)"
proof -
  assume i: "i < length cs"
  have "total_slots cs = conn_slots (cs ! i) + total_slots (take i cs @ drop (Suc i) cs)"
    by (subst id_take_nth_drop [OF i]) (simp add: total_slots_def)
  moreover have "total_slots (cs[i := c]) = conn_slots c + total_slots (take i cs @ drop (Suc i) cs)" for c
    by (simp add: upd_conv_take_nth_drop [OF i] total_slots_def)
  ultimately show ?thesis by blast
qed

lemma service_inv_update:
  assumes "service_inv limits s" and "i < length (sv_conns s)" and "conn_ok limits c"
    and "\<And>rest. total_slots (sv_conns s) = conn_slots (sv_conns s ! i) + rest \<Longrightarrow>
           service_balanced limits (conn_slots c + rest) (length sinks) stats"
  shows "service_inv limits \<lparr>sv_stats = stats, sv_sinks = sinks, sv_conns = (sv_conns s)[i := c]\<rparr>"
proof -
  obtain rest where "total_slots (sv_conns s) = conn_slots (sv_conns s ! i) + rest"
    and "\<forall>c. total_slots ((sv_conns s)[i := c]) = conn_slots c + rest"
    using total_slots_update [OF assms(2)] by blast
  moreover have "\<forall>c' \<in> set ((sv_conns s)[i := c]). conn_ok limits c'"
    using assms(1,3) set_update_subset_insert [of "sv_conns s" i c] by (auto simp: service_inv_def)
  ultimately show ?thesis using assms(4) by (simp add: service_inv_def)
qed

lemma service_step_inv:
  assumes inv: "service_inv limits s" and mx: "max_flows limits < 2 ^ 64"
  shows "service_inv limits (service_step limits ev s)"
proof (cases ev)
  case Accepted
  then show ?thesis
    using inv by (simp add: service_inv_def conn_start_ok total_slots_def)
       (simp add: conn_slots_def serve_conn_start_def pending_def peer_flows_default_def)
next
  case (OnConn i cev)
  show ?thesis
  proof (cases "i < length (sv_conns s)")
    case True
    obtain stats sinks c where st: "conn_step limits cev (sv_stats s, sv_sinks s, sv_conns s ! i) = (stats, sinks, c)"
      by (cases "conn_step limits cev (sv_stats s, sv_sinks s, sv_conns s ! i)") auto
    have "keeps limits rest (stats, sinks, c)" if "total_slots (sv_conns s) = conn_slots (sv_conns s ! i) + rest" for rest
      unfolding st [symmetric] using inv True that by (intro conn_step_keeps mx) (simp add: service_inv_def)
    then show ?thesis
      using service_inv_update [OF inv True, of c sinks stats] total_slots_update [OF True] st True OnConn
      by auto
  qed (use inv OnConn in simp)
next
  case (OnRelay i f r now mds ok)
  show ?thesis
  proof (cases "i < length (sv_conns s) \<and> relay_upstream_replies f r now mds ok (sv_stats s, sv_conns s ! i) \<noteq> None")
    case True
    then obtain stats c where r: "relay_upstream_replies f r now mds ok (sv_stats s, sv_conns s ! i) = Some (stats, c)"
      and i: "i < length (sv_conns s)" by auto
    have "conn_ok limits (sv_conns s ! i)" using inv i by (simp add: service_inv_def)
    note step = relay_keeps [OF this _ r]
    have "conn_ok limits c \<and> service_balanced limits (conn_slots c + rest) (length (sv_sinks s)) stats"
      if "total_slots (sv_conns s) = conn_slots (sv_conns s ! i) + rest" for rest
      using step [of "max_flows limits" rest "length (sv_sinks s)"] inv that by (simp add: service_inv_def)
    then have "service_inv limits \<lparr>sv_stats = stats, sv_sinks = sv_sinks s, sv_conns = (sv_conns s)[i := c]\<rparr>"
      using service_inv_update [OF inv i] total_slots_update [OF i] by blast
    then show ?thesis using OnRelay i r by (cases s) simp
  qed (use inv OnRelay in \<open>auto split: option.splits\<close>)
next
  case (OnWriter i f ok)
  show ?thesis
  proof (cases "i < length (sv_conns s)")
    case True
    obtain stats c where w: "writer_turn f ok (sv_stats s, sv_conns s ! i) = (stats, c)"
      by (cases "writer_turn f ok (sv_stats s, sv_conns s ! i)")
    have "conn_ok limits (sv_conns s ! i)" using inv True by (simp add: service_inv_def)
    note step = writer_keeps [OF this, where f = f and send_ok = ok and stats = "sv_stats s", unfolded w]
    have "conn_ok limits c \<and> service_balanced limits (conn_slots c + rest) (length (sv_sinks s)) stats"
      if "total_slots (sv_conns s) = conn_slots (sv_conns s ! i) + rest" for rest
      using step [of "max_flows limits" rest "length (sv_sinks s)"] inv that by (simp add: service_inv_def)
    then have "service_inv limits \<lparr>sv_stats = stats, sv_sinks = sv_sinks s, sv_conns = (sv_conns s)[i := c]\<rparr>"
      using service_inv_update [OF inv True] total_slots_update [OF True] by blast
    then show ?thesis using OnWriter True w by (cases s) simp
  qed (use inv OnWriter in simp)
next
  case (OnSink i sev)
  show ?thesis
  proof (cases "i < length (sv_sinks s)")
    case True
    obtain k stats where ks: "sink_step sev (sv_sinks s ! i) (sv_stats s) = (k, stats)"
      by (cases "sink_step sev (sv_sinks s ! i) (sv_stats s)")
    have "length (sv_sinks s) = Suc (length (sv_sinks s) - 1)" using True by simp
    with inv have "service_balanced limits (total_slots (sv_conns s)) (Suc (length (sv_sinks s) - 1)) (sv_stats s)"
      by (simp add: service_inv_def)
    from sink_step_stats [OF this ks] inv True show ?thesis
      by (cases k) (auto simp: OnSink ks service_inv_def min_def)
  qed (use inv OnSink in simp)
qed

lemma service_start_inv: "service_inv limits udp_service_start"
  by (simp add: service_inv_def udp_service_start_def total_slots_def udp_stats_default_def slots.balanced_def)

lemma service_run_inv:
  "max_flows limits < 2 ^ 64 \<Longrightarrow> service_inv limits s \<Longrightarrow> service_inv limits (fold (service_step limits) evs s)"
proof (induction evs arbitrary: s)
  case (Cons ev evs)
  from Cons.IH [OF Cons.prems(1) service_step_inv [OF Cons.prems(2,1)]] show ?case by simp
qed simp

text \<open>C4: a UDP service never exceeds its caps and never loses a slot. After any interleaving of
connections, datagrams, sweeps, socket opens, replies, writer turns and sink events, the shared
counter is the number of live flows plus flows being opened plus quarantined sinks, it is at most
\<open>max_flows\<close>, and every connection holds at most \<open>max_flows_per_peer\<close> flows. So once all
connections have ended and all sinks have closed, every slot is free again.\<close>

theorem service_caps:
  assumes "max_flows limits < 2 ^ 64"
    and "s = fold (service_step limits) evs udp_service_start"
  shows "held_count (sv_stats s) = sum_list (map conn_slots (sv_conns s)) + length (sv_sinks s)
    \<and> quarantined_count (sv_stats s) = length (sv_sinks s)
    \<and> held_count (sv_stats s) \<le> max_flows limits
    \<and> list_all (\<lambda>c. peer_flows_len (sc_flows c) \<le> max_flows_per_peer limits) (sv_conns s)"
proof -
  from service_run_inv [OF assms(1) service_start_inv] have "service_inv limits s"
    by (simp add: assms(2))
  then show ?thesis
    by (auto simp: service_inv_def slots.balanced_def total_slots_def list_all_iff conn_ok_def
        conn_slots_def peer_flows_len_def)
qed


text \<open>A run: a peer opens a flow, a second flow meets the cap, and the stop quarantines the first.\<close>

definition demo_limits :: udp_limits where
  "demo_limits = \<lparr>idle_timeout = 10, max_flows = 2, max_flows_per_peer = 1, queue_depth = 1\<rparr>"

definition demo_events :: "service_event list" where
  "demo_events =
     [Accepted,
      OnConn 0 (ReadDatagram (encode (FlowId 0) [1]) 0), OnConn 0 (UpstreamOpen (OpenedSocket 50)),
      OnConn 0 (ReadDatagram (encode (FlowId 1) [3]) 2),
      OnConn 0 Stopped]"

lemma service_caps_witness:
  "max_flows demo_limits < 2 ^ 64
   \<and> held_count (sv_stats (fold (service_step demo_limits) demo_events udp_service_start)) = 1
   \<and> length (sv_sinks (fold (service_step demo_limits) demo_events udp_service_start)) = 1"
proof -
  have m: "max_flows demo_limits < 2 ^ 64"
    by (simp add: demo_limits_def)
  have "map conn_slots (sv_conns (fold (service_step demo_limits) demo_events udp_service_start)) = [0]
     \<and> length (sv_sinks (fold (service_step demo_limits) demo_events udp_service_start)) = 1"
    by (simp add: demo_events_def demo_limits_def udp_service_start_def serve_conn_start_def
        receive_datagram_def push_payload_def admit_def peer_flows_default_def peer_flows_len_def
        try_open_flow_def udp_stats_default_def upstream_opened_def flows_closed_def refuse_def
        raise_mark_def peer_insert_def end_connection_def drain_all_def quarantine_def
        quarantine_started_def queue_push_def queue_new_def saturating_sub_def record_drop.simps
        flow_le_iff max_def conn_slots_def pending_def)
  with service_caps [OF m refl, of demo_events] m show ?thesis by simp
qed

end
