(* ===== verification/ConnPath.thy ===== *)
theory ConnPath
  imports Prelude "HOL-Library.Multiset"
begin

text \<open>
  Connection paths (\<open>crates/engine/src/conn_path/\<close> and the transport types of
  \<open>observation/types.rs\<close>): the report of how a peer is reached, its deterministic order, the
  difference of two snapshots, and the quiet rules of the path-change poller.

  What iroh knows of a peer (\<open>Endpoint::remote_info\<close>, \<open>bound_sockets\<close>) is an input. Texts are
  byte strings, so the order of addresses is the byte order Rust compares strings by.
\<close>

section \<open>Transports\<close>

datatype transport_kind = Relay | Direct

fun kind_name :: "transport_kind \<Rightarrow> string" where
  "kind_name Relay = ''relay''"
| "kind_name Direct = ''direct''"

text \<open>The derived order is the order of declaration.\<close>

instantiation transport_kind :: linorder
begin

definition less_eq_transport_kind :: "transport_kind \<Rightarrow> transport_kind \<Rightarrow> bool" where
  "less_eq_transport_kind a b \<longleftrightarrow> a = Relay \<or> b = Direct"

definition less_transport_kind :: "transport_kind \<Rightarrow> transport_kind \<Rightarrow> bool" where
  "less_transport_kind a b \<longleftrightarrow> a = Relay \<and> b = Direct"

instance
proof
  fix x y z :: transport_kind
  show "(x < y) = (x \<le> y \<and> \<not> y \<le> x)" and "x \<le> x" and "x \<le> y \<or> y \<le> x"
    by (cases x; cases y; simp add: less_eq_transport_kind_def less_transport_kind_def)+
  show "x \<le> y \<Longrightarrow> y \<le> z \<Longrightarrow> x \<le> z" and "x \<le> y \<Longrightarrow> y \<le> x \<Longrightarrow> x = y"
    by (cases x; cases y; cases z; simp add: less_eq_transport_kind_def)+
qed

end

record transport_observation =
  tr_kind :: transport_kind
  tr_addr :: string
  tr_active :: bool

record peer_path_observation =
  pp_peer :: string
  pp_transports :: "transport_observation list"
  pp_local_bound_addrs :: "string list"

section \<open>The report\<close>

datatype transport_addr = RelayUrl string | IpAddr string | CustomAddr

datatype transport_usage = UsageActive | UsageInactive

fun classify_transport :: "transport_addr \<Rightarrow> (transport_kind \<times> string) option" where
  "classify_transport (RelayUrl url) = Some (Relay, url)"
| "classify_transport (IpAddr addr) = Some (Direct, addr)"
| "classify_transport CustomAddr = None"

definition observe_transport :: "transport_addr \<times> transport_usage \<Rightarrow> transport_observation option" where
  "observe_transport a =
     map_option (\<lambda>(kind, addr). \<lparr>tr_kind = kind, tr_addr = addr, tr_active = (snd a = UsageActive)\<rparr>)
       (classify_transport (fst a))"

definition transport_key :: "transport_observation \<Rightarrow> bool \<times> transport_kind \<times> string" where
  "transport_key t = (\<not> tr_active t, tr_kind t, tr_addr t)"

definition sort_transports :: "transport_observation list \<Rightarrow> transport_observation list" where
  "sort_transports ts = sort_key transport_key ts"

definition peer_path_report ::
    "string \<Rightarrow> (transport_addr \<times> transport_usage) list option \<Rightarrow> string list \<Rightarrow> peer_path_observation option" where
  "peer_path_report peer remote_info bound_sockets =
     (case remote_info of
        None \<Rightarrow> None
      | Some addrs \<Rightarrow>
          Some \<lparr>pp_peer = peer,
                pp_transports = remdups_adj (sort_transports (List.map_filter observe_transport addrs)),
                pp_local_bound_addrs = sort bound_sockets\<rparr>)"

lemma inj_transport_key: "inj transport_key"
  by (rule injI) (simp add: transport_key_def)

lemma sorted_remdups_adj_distinct: "sorted xs \<Longrightarrow> sorted (remdups_adj xs) \<and> distinct (remdups_adj xs)"
  by (induction xs rule: remdups_adj.induct) auto

text \<open>Sorting by the full key and collapsing neighbours is a canonical form of the set of rows.\<close>

lemma canonical_rows:
  assumes "set xs = set ys"
  shows "remdups_adj (sort_transports xs) = remdups_adj (sort_transports ys)"
proof -
  let ?c = "\<lambda>zs. map transport_key (remdups_adj (sort_transports zs))"
  have c: "?c zs = remdups_adj (map transport_key (sort_transports zs))" for zs
    using inj_transport_key by (simp add: remdups_adj_map_injective)
  have "sorted (?c zs) \<and> distinct (?c zs)" for zs
    unfolding c by (rule sorted_remdups_adj_distinct) (simp add: sort_transports_def)
  moreover have "set (?c xs) = set (?c ys)"
    using assms by (simp add: sort_transports_def)
  ultimately have "?c xs = ?c ys"
    by (metis sorted_distinct_set_unique)
  then show ?thesis
    using inj_transport_key by (simp add: inj_map_eq_map)
qed

lemma set_map_filter: "set (List.map_filter f xs) = {y. \<exists>x \<in> set xs. f x = Some y}"
  by (induction xs) (auto simp: List.map_filter_simps split: option.splits)

text \<open>The path report does not depend on the order in which iroh lists a peer's paths, nor
on duplicate entries, nor on the order of the bound sockets. Two snapshots of an unchanged
endpoint are equal, so the status file is not rewritten for them.\<close>

theorem peer_path_report_stable:
  assumes "set addrs = set addrs'" and "mset socks = mset socks'"
  shows "peer_path_report peer (Some addrs) socks = peer_path_report peer (Some addrs') socks'"
proof -
  have "set (List.map_filter observe_transport addrs) = set (List.map_filter observe_transport addrs')"
    by (simp add: set_map_filter assms(1))
  note rows = canonical_rows [OF this]
  from assms(2) have "sort socks = sort socks'"
    by (metis properties_for_sort sorted_sort mset_sort)
  with rows show ?thesis
    by (simp add: peer_path_report_def)
qed

lemma peer_path_report_stable_witness:
  "peer_path_report ''p'' (Some [(IpAddr ''1'', UsageActive), (RelayUrl ''r'', UsageActive)]) [''b'', ''a''] =
   peer_path_report ''p'' (Some [(RelayUrl ''r'', UsageActive), (IpAddr ''1'', UsageActive),
     (RelayUrl ''r'', UsageActive)]) [''a'', ''b'']"
proof (rule peer_path_report_stable)
  show "set [(IpAddr ''1'', UsageActive), (RelayUrl ''r'', UsageActive)] =
      set [(RelayUrl ''r'', UsageActive), (IpAddr ''1'', UsageActive), (RelayUrl ''r'', UsageActive)]"
    by (simp only: list.set) blast
  show "mset [''b'', ''a''] = mset [''a'', ''b'']"
    by (simp only: mset.simps add_mset_commute)
qed

section \<open>Differences and rendering\<close>

record path_change_summary =
  before_active :: "transport_observation list"
  after_active :: "transport_observation list"
  kinds_added :: "transport_kind list"
  kinds_removed :: "transport_kind list"

text \<open>\<open>active_set\<close> collects into a \<open>HashSet\<close>: a list without duplicates, in some order.\<close>

definition active_set :: "transport_observation list \<Rightarrow> (transport_kind \<times> string) list" where
  "active_set ts = remdups (map (\<lambda>t. (tr_kind t, tr_addr t)) (filter tr_active ts))"

definition kinds_of :: "(transport_kind \<times> string) list \<Rightarrow> transport_kind list" where
  "kinds_of ps = remdups_adj (sort (map fst ps))"

definition diff_transports ::
    "transport_observation list \<Rightarrow> transport_observation list \<Rightarrow> path_change_summary option" where
  "diff_transports before after =
     (let before_set = active_set before; after_set = active_set after
      in if set before_set = set after_set then None
         else Some \<lparr>before_active = filter tr_active before,
                    after_active = filter tr_active after,
                    kinds_added = kinds_of (filter (\<lambda>p. p \<notin> set before_set) after_set),
                    kinds_removed = kinds_of (filter (\<lambda>p. p \<notin> set after_set) before_set)\<rparr>)"

definition render_active_transports :: "transport_observation list \<Rightarrow> string" where
  "render_active_transports ts =
     join '', '' (map (\<lambda>t. kind_name (tr_kind t) @ ''='' @ tr_addr t) (filter tr_active ts))"

definition render_established_paths :: "peer_path_observation option \<Rightarrow> string" where
  "render_established_paths report =
     (case map_option (\<lambda>r. render_active_transports (pp_transports r)) report of
        None \<Rightarrow> ''paths pending''
      | Some rendered \<Rightarrow> if rendered = [] then ''paths pending'' else rendered)"

definition render_active_kinds :: "transport_observation list \<Rightarrow> string" where
  "render_active_kinds ts =
     (let kinds = remdups_adj (sort (map tr_kind (filter tr_active ts)))
      in if kinds = [] then ''none'' else join ''+'' (map kind_name kinds))"

text \<open>The live paths: the set of active \<open>(kind, addr)\<close> pairs.\<close>

abbreviation live_paths :: "transport_observation list \<Rightarrow> (transport_kind \<times> string) set" where
  "live_paths ts \<equiv> set (active_set ts)"

lemma live_paths_iff: "(k, a) \<in> live_paths ts \<longleftrightarrow> (\<exists>t \<in> set ts. tr_active t \<and> tr_kind t = k \<and> tr_addr t = a)"
  by (auto simp: active_set_def)

lemma set_kinds_of: "set (kinds_of ps) = fst ` set ps"
  by (simp add: kinds_of_def)

lemma kinds_added_iff:
  "diff_transports a b = Some ch \<Longrightarrow>
     set (kinds_added ch) = fst ` (live_paths b - live_paths a)
   \<and> set (kinds_removed ch) = fst ` (live_paths a - live_paths b)"
  by (drule sym, simp add: diff_transports_def Let_def split: if_splits)
    (simp add: set_kinds_of set_diff_eq)

lemma sort_kinds_canonical:
  "set xs = set ys \<Longrightarrow> remdups_adj (sort xs) = remdups_adj (sort (ys :: 'a::linorder list))"
  using sorted_remdups_adj_distinct [OF sorted_sort, of xs] sorted_remdups_adj_distinct [OF sorted_sort, of ys]
  by (intro sorted_distinct_set_unique) (simp_all only: remdups_adj_set set_sort)

lemma render_active_kinds_cong:
  assumes "live_paths a = live_paths b"
  shows "render_active_kinds a = render_active_kinds b"
proof -
  have "set (map tr_kind (filter tr_active ts)) = fst ` live_paths ts" for ts
    by (simp add: active_set_def image_image)
  with assms have "set (map tr_kind (filter tr_active a)) = set (map tr_kind (filter tr_active b))"
    by (simp only:)
  from sort_kinds_canonical [OF this] show ?thesis
    by (simp add: render_active_kinds_def)
qed

section \<open>The poller\<close>

definition arrow :: string where
  "arrow = [CHR 0xE2, CHR 0x86, CHR 0x92]"

definition change_line :: "path_change_summary \<Rightarrow> string" where
  "change_line ch =
     ''path changed '' @ render_active_kinds (before_active ch) @ arrow
       @ render_active_kinds (after_active ch)
       @ '' (now active: '' @ render_active_transports (after_active ch) @ '')''"

definition has_active :: "transport_observation list \<Rightarrow> bool" where
  "has_active ts \<longleftrightarrow> list_ex tr_active ts"

definition poller_step ::
    "transport_observation list \<Rightarrow> transport_observation list \<Rightarrow> string option \<times> transport_observation list" where
  "poller_step base snapshot =
     (if \<not> has_active base then (None, snapshot)
      else if \<not> has_active snapshot then (None, base)
      else (case diff_transports base snapshot of
              Some change \<Rightarrow> (Some (change_line change), snapshot)
            | None \<Rightarrow> (None, snapshot)))"

text \<open>The poller's loop: the lines it logs over a sequence of snapshots.\<close>

fun poller_run :: "transport_observation list \<Rightarrow> transport_observation list list \<Rightarrow> string list" where
  "poller_run base [] = []"
| "poller_run base (s # ss) =
     (case poller_step base s of
        (line, base') \<Rightarrow> (case line of None \<Rightarrow> [] | Some l \<Rightarrow> [l]) @ poller_run base' ss)"

text \<open>
  What the poller promises: among the snapshots that show a live path, one line for each
  pair of neighbours whose live paths differ, naming the kinds before and after.
\<close>

definition spec_line :: "transport_observation list \<Rightarrow> transport_observation list \<Rightarrow> string" where
  "spec_line a b =
     ''path changed '' @ render_active_kinds a @ arrow @ render_active_kinds b
       @ '' (now active: '' @ render_active_transports b @ '')''"

fun spec_lines :: "transport_observation list list \<Rightarrow> string list" where
  "spec_lines (a # b # ss) =
     (if live_paths a = live_paths b then [] else [spec_line a b]) @ spec_lines (b # ss)"
| "spec_lines _ = []"

lemma diff_line:
  "(case diff_transports a b of None \<Rightarrow> [] | Some ch \<Rightarrow> [change_line ch]) =
     (if live_paths a = live_paths b then [] else [spec_line a b])"
  by (simp add: diff_transports_def Let_def change_line_def spec_line_def render_active_kinds_def
      render_active_transports_def)

lemma poller_run_spec: "poller_run base ss = spec_lines (filter has_active (base # ss))"
proof (induction ss arbitrary: base)
  case (Cons s ss)
  show ?case
  proof (cases "has_active base \<and> has_active s")
    case True
    then have "poller_run base (s # ss) =
        (case diff_transports base s of None \<Rightarrow> [] | Some ch \<Rightarrow> [change_line ch]) @ poller_run s ss"
      by (simp add: poller_step_def split: option.split)
    with True Cons.IH [of s] show ?thesis
      by (simp only: diff_line) simp
  next
    case False
    then have "poller_run base (s # ss) = poller_run (if has_active base then base else s) ss"
      by (auto simp: poller_step_def)
    with False Cons.IH show ?thesis by auto
  qed
qed simp

text \<open>The path-change poller is quiet exactly when it should be. Over any run of snapshots it
logs one line per change of the live paths between consecutive snapshots that have a live path:
reordering, duplicates and changes among inactive candidates log nothing, a snapshot without live
paths (a connection tearing down, or one not yet resolved) is skipped and never shows as a change.\<close>

theorem poller_refines_changes:
  "poller_run base ss = spec_lines (filter (\<lambda>ts. live_paths ts \<noteq> {}) (base # ss))"
proof -
  have "has_active = (\<lambda>ts. live_paths ts \<noteq> {})"
    by (auto simp: fun_eq_iff has_active_def active_set_def list_ex_iff filter_empty_conv)
  with poller_run_spec show ?thesis by (simp only:)
qed

section \<open>Short peer identifiers\<close>

text \<open>\<open>str::chars\<close>: a character is a byte followed by its continuation bytes.\<close>

definition continuation :: "char \<Rightarrow> bool" where
  "continuation c \<longleftrightarrow> of_char c div 64 = (2 :: nat)"

function utf8_chars :: "string \<Rightarrow> string list" where
  "utf8_chars [] = []"
| "utf8_chars (c # cs) = (c # takeWhile continuation cs) # utf8_chars (dropWhile continuation cs)"
  by pat_completeness auto

termination
  by (relation "measure length") (auto simp: le_imp_less_Suc length_dropWhile_le)

definition short_peer_id :: "string \<Rightarrow> string" where
  "short_peer_id peer = concat (take 8 (utf8_chars peer)) @ [CHR 0xE2, CHR 0x80, CHR 0xA6]"

lemma utf8_chars_ascii: "list_all (\<lambda>c. \<not> continuation c) s \<Longrightarrow> utf8_chars s = map (\<lambda>c. [c]) s"
proof (induction s rule: utf8_chars.induct)
  case (2 c cs)
  then have "takeWhile continuation cs = [] \<and> dropWhile continuation cs = cs"
    by (cases cs) auto
  with 2 show ?case by simp
qed simp

lemma concat_utf8_chars: "concat (utf8_chars s) = s"
  by (induction s rule: utf8_chars.induct) auto

lemma short_peer_id_ascii:
  "list_all (\<lambda>c. \<not> continuation c) s \<Longrightarrow>
     short_peer_id s = take 8 s @ [CHR 0xE2, CHR 0x80, CHR 0xA6]"
  by (simp add: short_peer_id_def utf8_chars_ascii take_map concat_map_singleton)

end
