(* ===== verification/Shutdown.thy ===== *)
theory Shutdown
  imports Prelude "HOL-Library.Multiset"
begin

text \<open>
  Stopping a role (\<open>crates/engine/src/shutdown.rs\<close>, \<open>runtime/run_context.rs\<close> and \<open>stop_flush\<close>
  of \<open>runtime/support.rs\<close>). A stop channel and a run context are \<open>watch\<close> channels of an
  optional deadline. A join set is the list of its tasks; what a task does by itself is when it
  finishes (\<open>None\<close> for never) and whether it panics. An aborted leaf task ends at once.
\<close>

section \<open>Deadlines\<close>

definition DRAIN_GRACE :: duration where
  "DRAIN_GRACE = from_secs 3"

type_synonym watch = "instant option"

definition channel :: watch where
  "channel = None"

text \<open>\<open>RunContext::publish\<close>: the first deadline stays.\<close>

definition publish :: "instant \<Rightarrow> watch \<Rightarrow> watch" where
  "publish at ctx = (case ctx of None \<Rightarrow> Some at | Some _ \<Rightarrow> ctx)"

definition begin_drain :: "instant \<Rightarrow> watch \<times> watch \<Rightarrow> watch \<times> watch" where
  "begin_drain now sc =
     (let (stop, ctx) = sc in
      case stop of
        Some _ \<Rightarrow> (stop, ctx)
      | None \<Rightarrow> (let at = now + DRAIN_GRACE in (Some at, publish at ctx)))"

text \<open>
  One poll of \<open>stopped\<close> at time \<open>now\<close>: the deadline, or the present when every sender is gone,
  or still pending. \<open>RunContext::drain_deadline\<close> is the same wait on the context.
\<close>

fun stopped :: "watch \<Rightarrow> bool \<Rightarrow> instant \<Rightarrow> instant option" where
  "stopped (Some deadline) sender_alive now = Some deadline"
| "stopped None sender_alive now = (if sender_alive then None else Some now)"

abbreviation drain_deadline :: "watch \<Rightarrow> bool \<Rightarrow> instant \<Rightarrow> instant option" where
  "drain_deadline \<equiv> stopped"

text \<open>One run context shared by any number of stop channels: \<open>begin\<close> called on channel \<open>i\<close> at
time \<open>t\<close>.\<close>

definition begin_on :: "nat \<times> instant \<Rightarrow> (nat \<Rightarrow> watch) \<times> watch \<Rightarrow> (nat \<Rightarrow> watch) \<times> watch" where
  "begin_on it sc =
     (let (i, t) = it; (stops, ctx) = sc; (stop', ctx') = begin_drain t (stops i, ctx)
      in (stops(i := stop'), ctx'))"

definition first_begin :: "(nat \<times> instant) list \<Rightarrow> nat \<Rightarrow> instant option" where
  "first_begin its i = map_option (\<lambda>(_, t). t + DRAIN_GRACE) (List.find (\<lambda>(j, _). j = i) its)"

lemma begin_on_stop:
  "fst (begin_on (j, t) sc) i =
     (case fst sc i of Some d \<Rightarrow> Some d | None \<Rightarrow> if i = j then Some (t + DRAIN_GRACE) else None)"
  by (cases sc) (auto simp: begin_on_def begin_drain_def Let_def split: option.splits)

lemma begin_on_ctx:
  "snd (begin_on (j, t) sc) =
     (if fst sc j = None then publish (t + DRAIN_GRACE) (snd sc) else snd sc)"
  by (cases sc) (auto simp: begin_on_def begin_drain_def Let_def split: option.splits)

lemma begin_run:
  assumes "snd sc = None \<Longrightarrow> \<forall>i. fst sc i = None"
  shows "fst (fold begin_on its sc) i = (case fst sc i of Some d \<Rightarrow> Some d | None \<Rightarrow> first_begin its i)
    \<and> snd (fold begin_on its sc) =
        (case snd sc of Some d \<Rightarrow> Some d
         | None \<Rightarrow> (case its of [] \<Rightarrow> None | (_, t) # _ \<Rightarrow> Some (t + DRAIN_GRACE)))"
  using assms
proof (induction its arbitrary: sc)
  case Nil
  then show ?case by (auto simp: first_begin_def split: option.splits)
next
  case (Cons jt its)
  obtain j t where jt: "jt = (j, t)" by (cases jt)
  let ?sc = "begin_on jt sc"
  have "snd ?sc \<noteq> None"
    using Cons.prems by (auto simp: jt begin_on_ctx publish_def split: option.splits)
  with Cons.IH [of ?sc]
  have IH: "fst (fold begin_on its ?sc) i = (case fst ?sc i of Some d \<Rightarrow> Some d | None \<Rightarrow> first_begin its i)"
    "snd (fold begin_on its ?sc) = snd ?sc"
    by (auto split: option.splits)
  have "fst (fold begin_on its ?sc) i = (case fst sc i of Some d \<Rightarrow> Some d | None \<Rightarrow> first_begin (jt # its) i)"
    unfolding IH by (auto simp: jt begin_on_stop first_begin_def split: option.splits)
  moreover have "snd ?sc = (case snd sc of Some d \<Rightarrow> Some d | None \<Rightarrow> Some (t + DRAIN_GRACE))"
    using Cons.prems by (auto simp: jt begin_on_ctx publish_def split: option.splits)
  ultimately show ?case
    using IH(2) by (simp add: jt split: option.splits)
qed

text \<open>The first stop fixes the drain deadline for good. Whatever the sequence of stop requests
on whatever channels of a run, each channel carries the deadline of its own first request and the
run context that of the very first request: a repeated stop never extends the grace.\<close>

theorem first_stop_wins:
  "fst (fold begin_on its (\<lambda>_. channel, channel)) i = first_begin its i
   \<and> snd (fold begin_on its (\<lambda>_. channel, channel)) =
       (case its of [] \<Rightarrow> None | (_, t) # _ \<Rightarrow> Some (t + DRAIN_GRACE))"
  using begin_run [of "(\<lambda>_. channel, channel)" its i] by (simp add: channel_def)

section \<open>Join sets\<close>

record task =
  finishes :: "instant option"
  panics :: bool

datatype task_end = Completed | Panicked | Cancelled

text \<open>\<open>observe\<close> logs a panic and nothing else.\<close>

fun observe :: "task_end \<Rightarrow> bool" where
  "observe Completed = False"
| "observe Panicked = True"
| "observe Cancelled = False"

definition finished_by :: "instant \<Rightarrow> task \<Rightarrow> bool" where
  "finished_by now t \<longleftrightarrow> (case finishes t of None \<Rightarrow> False | Some f \<Rightarrow> f \<le> now)"

definition own_end :: "task \<Rightarrow> task_end" where
  "own_end t = (if panics t then Panicked else Completed)"

text \<open>
  \<open>drain\<close>: the time it returns and how each task ended. \<open>timeout_at\<close> polls the tasks before its
  timer, so tasks finished when it is called are joined even after the deadline.
\<close>

definition join_time :: "instant \<Rightarrow> task list \<Rightarrow> instant" where
  "join_time now ts = fold max (map (\<lambda>t. case finishes t of None \<Rightarrow> now | Some f \<Rightarrow> f) ts) now"

definition drain :: "instant \<Rightarrow> instant \<Rightarrow> task list \<Rightarrow> instant \<times> task_end list" where
  "drain now deadline ts =
     (let limit = max now deadline in
      if list_all (finished_by limit) ts then (join_time now ts, map own_end ts)
      else (limit, map (\<lambda>t. if finished_by limit t then own_end t else Cancelled) ts))"

lemma join_time_le: "list_all (finished_by l) ts \<Longrightarrow> now \<le> l \<Longrightarrow> join_time now ts \<le> l"
proof -
  have "list_all (finished_by l) ts \<Longrightarrow> a \<le> l \<Longrightarrow>
      fold max (map (\<lambda>t. case finishes t of None \<Rightarrow> now | Some f \<Rightarrow> f) ts) a \<le> l" if "now \<le> l" for a
    by (induction ts arbitrary: a) (use that in \<open>auto simp: finished_by_def split: option.splits\<close>)
  then show "list_all (finished_by l) ts \<Longrightarrow> now \<le> l \<Longrightarrow> join_time now ts \<le> l"
    by (simp add: join_time_def)
qed

lemma drain_bounded_time: "fst (drain now deadline ts) \<le> max now deadline"
  using join_time_le [of "max now deadline" ts now] by (auto simp: drain_def Let_def)

lemma join_time_mono: "now \<le> join_time now ts"
proof -
  have "a \<le> fold max xs a" for a and xs :: "nat list"
    by (induction xs arbitrary: a) (auto intro: order_trans [OF max.cobounded2])
  then show ?thesis by (simp add: join_time_def)
qed

lemma drain_mono: "now \<le> fst (drain now deadline ts)"
  by (auto simp: drain_def Let_def join_time_mono)

text \<open>Draining is bounded and fair. It returns by the deadline (at once when that has passed),
every task has ended then, a task that ends by itself in time is never cut off, and only tasks
still running at the deadline are aborted.\<close>

theorem drain_bounded:
  "fst (drain now deadline ts) \<le> max now deadline
   \<and> snd (drain now deadline ts) =
       map (\<lambda>t. if finished_by (max now deadline) t then own_end t else Cancelled) ts"
  using drain_bounded_time [of now deadline ts] by (auto simp: drain_def Let_def list_all_iff)

section \<open>Quarantine sinks\<close>

text \<open>
  The sinks of one role run. The trace of finished ones is kept to state that none is lost:
  \<open>qs_joined\<close> holds the tasks whose end was observed.
\<close>

record quarantine_sinks =
  qs_tasks :: "task list"
  qs_joined :: "task list"

definition sinks_reap :: "instant \<Rightarrow> quarantine_sinks \<Rightarrow> quarantine_sinks" where
  "sinks_reap now q =
     q\<lparr>qs_tasks := filter (\<lambda>t. \<not> finished_by now t) (qs_tasks q),
       qs_joined := qs_joined q @ filter (finished_by now) (qs_tasks q)\<rparr>"

definition sinks_spawn :: "instant \<Rightarrow> task \<Rightarrow> quarantine_sinks \<Rightarrow> quarantine_sinks" where
  "sinks_spawn now sink q = (let q' = sinks_reap now q in q'\<lparr>qs_tasks := qs_tasks q' @ [sink]\<rparr>)"

definition sinks_shutdown :: "instant \<Rightarrow> instant \<Rightarrow> quarantine_sinks \<Rightarrow> instant \<times> quarantine_sinks" where
  "sinks_shutdown now deadline q =
     (fst (drain now deadline (qs_tasks q)), q\<lparr>qs_tasks := [], qs_joined := qs_joined q @ qs_tasks q\<rparr>)"

text \<open>\<open>sinks_trace\<close>: what the role does with its sinks up to the stop.\<close>

fun sinks_trace :: "(instant \<times> task option) list \<Rightarrow> quarantine_sinks \<Rightarrow> quarantine_sinks" where
  "sinks_trace [] q = q"
| "sinks_trace ((now, None) # es) q = sinks_trace es (sinks_reap now q)"
| "sinks_trace ((now, Some sink) # es) q = sinks_trace es (sinks_spawn now sink q)"

lemma mset_reap:
  "mset (qs_joined (sinks_reap now q)) + mset (qs_tasks (sinks_reap now q)) =
     mset (qs_joined q) + mset (qs_tasks q)"
  by (simp add: sinks_reap_def multiset_partition [symmetric] add.assoc)

lemma mset_trace:
  "mset (qs_joined (sinks_trace es q)) + mset (qs_tasks (sinks_trace es q)) =
     mset (qs_joined q) + mset (qs_tasks q) + mset (List.map_filter snd es)"
proof (induction es q rule: sinks_trace.induct)
  case (1 q)
  then show ?case by (simp add: List.map_filter_simps)
next
  case (2 now es q)
  then show ?case by (simp add: List.map_filter_simps mset_reap)
next
  case (3 now sink es q)
  then show ?case
    using mset_reap [of now q] by (simp add: sinks_spawn_def Let_def List.map_filter_simps)
qed

text \<open>No quarantine sink escapes its role. After any sequence of spawns and reaps, the shutdown
returns by the drain deadline with no sink left, and the sinks joined over the whole run are
exactly the sinks that were spawned.\<close>

theorem sinks_all_joined:
  assumes "q = sinks_trace es \<lparr>qs_tasks = [], qs_joined = []\<rparr>"
    and "sinks_shutdown now deadline q = (t, q')"
  shows "t \<le> max now deadline \<and> qs_tasks q' = [] \<and> mset (qs_joined q') = mset (List.map_filter snd es)"
  using assms mset_trace [of es "\<lparr>qs_tasks = [], qs_joined = []\<rparr>"] drain_bounded_time [of now deadline]
  by (auto simp: sinks_shutdown_def)

definition demo_sink :: task where
  "demo_sink = \<lparr>finishes = Some 30, panics = False\<rparr>"

lemma sinks_all_joined_witness:
  "fst (sinks_shutdown 7 20 (sinks_trace [(5, Some demo_sink)] \<lparr>qs_tasks = [], qs_joined = []\<rparr>)) \<le> 20"
  using sinks_all_joined [OF refl surjective_pairing, of 7 20 "[(5, Some demo_sink)]"] by simp

section \<open>The status flush task\<close>

definition STATUS_FLUSH_JOIN_BOUND :: duration where
  "STATUS_FLUSH_JOIN_BOUND = from_secs 5"

text \<open>
  \<open>stop_flush\<close> sends the stop and waits for the task, which ends at some time by itself; whether
  the writer has quiesced, and when the call returns.
\<close>

definition stop_flush :: "instant \<Rightarrow> task \<Rightarrow> instant \<times> bool" where
  "stop_flush now flush =
     (if finished_by (now + STATUS_FLUSH_JOIN_BOUND) flush
      then (join_time now [flush], own_end flush = Completed)
      else (now + STATUS_FLUSH_JOIN_BOUND, False))"

definition ended_cleanly :: "instant \<Rightarrow> task \<Rightarrow> bool" where
  "ended_cleanly t f \<longleftrightarrow> finished_by t f \<and> \<not> panics f"

lemma stop_flush_iff: "snd (stop_flush now flush) \<longleftrightarrow> ended_cleanly (fst (stop_flush now flush)) flush"
  by (auto simp: ended_cleanly_def stop_flush_def join_time_def finished_by_def own_end_def split: if_splits option.splits)

end
