(* ===== verification/Dial.thy ===== *)
theory Dial
  imports Prelude
begin

text \<open>
  Dialling a Serve peer (\<open>connect_with_retry\<close>, \<open>next_backoff_ms\<close> and \<open>attempt_timeout\<close> of
  \<open>crates/engine/src/runtime/support.rs\<close>). What \<open>Endpoint::connect\<close> does is an input: for an
  attempt and its start, after how long it answers, and with what, or that it never answers.
  The retry loop has no bound of its own, so it is a partial function; that it returns, and
  when, is proved. Timers fire at their instant: scheduling delay is not modelled.
\<close>

definition INITIAL_BACKOFF_MS :: u64 where
  "INITIAL_BACKOFF_MS = 1000"

definition MAX_BACKOFF_MS :: u64 where
  "MAX_BACKOFF_MS = 30000"

definition DIAL_ATTEMPT_STEP :: duration where
  "DIAL_ATTEMPT_STEP = from_secs 5"

definition DIAL_ATTEMPT_MAX :: duration where
  "DIAL_ATTEMPT_MAX = from_secs 20"

definition saturating_mul :: "u64 \<Rightarrow> u64 \<Rightarrow> u64" where
  "saturating_mul a b = (if unat a * unat b < 2 ^ 64 then a * b else - 1)"

definition next_backoff_ms :: "u64 \<Rightarrow> u64" where
  "next_backoff_ms prev_ms = min (saturating_mul prev_ms 2) MAX_BACKOFF_MS"

definition attempt_timeout :: "nat \<Rightarrow> duration" where
  "attempt_timeout attempt = min (attempt * DIAL_ATTEMPT_STEP) DIAL_ATTEMPT_MAX"

lemma unat_saturating_mul: "unat (saturating_mul a b) = min (unat a * unat b) (2 ^ 64 - 1)"
  by (simp add: saturating_mul_def unat_mult_lem [THEN iffD1] unsigned_minus_1_eq_mask mask_eq_exp_minus_1)

lemma unat_next_backoff: "unat (next_backoff_ms b) = min (2 * unat b) 30000"
proof -
  have "unat (next_backoff_ms b) = min (unat (saturating_mul b 2)) (unat MAX_BACKOFF_MS)"
    by (simp add: next_backoff_ms_def min_def word_le_nat_alt)
  then show ?thesis
    by (simp add: unat_saturating_mul MAX_BACKOFF_MS_def min_def)
qed

text \<open>The schedule: the \<open>n\<close>-th backoff is \<open>2\<^sup>n\<close> seconds, capped at 30 seconds.\<close>

lemma backoff_schedule: "unat ((next_backoff_ms ^^ n) INITIAL_BACKOFF_MS) = min (1000 * 2 ^ n) 30000"
  by (induction n) (auto simp: unat_next_backoff INITIAL_BACKOFF_MS_def min_def)

section \<open>One attempt\<close>

text \<open>\<open>timeout_at(limit, ep.connect(..))\<close>: \<open>None\<close> when the limit comes first, else the answer and
its time.\<close>

type_synonym 'c dialer = "nat \<Rightarrow> instant \<Rightarrow> (duration \<times> (string + 'c)) option"

definition dial_once :: "'c dialer \<Rightarrow> nat \<Rightarrow> instant \<Rightarrow> instant \<Rightarrow> ((string + 'c) \<times> instant) option" where
  "dial_once connect attempt now limit =
     (case connect attempt now of
        None \<Rightarrow> None
      | Some (d, r) \<Rightarrow> if limit < now + d then None else Some (r, now + d))"

lemma dial_once_bounds: "dial_once connect attempt now limit = Some (r, t) \<Longrightarrow> now \<le> t \<and> t \<le> limit"
  by (auto simp: dial_once_def split: option.splits if_splits)

section \<open>The retry loop\<close>

datatype dial_error = DialDeadlineExpired

definition attempt_limit :: "nat \<Rightarrow> instant \<Rightarrow> instant \<Rightarrow> instant" where
  "attempt_limit attempt now deadline = min (now + attempt_timeout attempt) deadline"

definition sleep_end :: "instant \<Rightarrow> u64 \<Rightarrow> instant \<Rightarrow> instant" where
  "sleep_end t backoff_ms deadline = min (t + from_millis (unat backoff_ms)) deadline"

partial_function (option) dial_loop ::
    "'c dialer \<Rightarrow> instant \<Rightarrow> u64 \<Rightarrow> nat \<Rightarrow> instant \<Rightarrow> ((dial_error + 'c) \<times> instant \<times> nat) option" where
  "dial_loop connect deadline backoff_ms attempt now =
     (if deadline \<le> now then Some (Inl DialDeadlineExpired, now, attempt)
      else
        (case dial_once connect attempt now (attempt_limit attempt now deadline) of
           Some (r, t) \<Rightarrow>
             (case r of
                Inr conn \<Rightarrow> Some (Inr conn, t, attempt)
              | Inl e \<Rightarrow> dial_loop connect deadline (next_backoff_ms backoff_ms) (attempt + 1)
                           (sleep_end t backoff_ms deadline))
         | None \<Rightarrow>
             (if attempt_limit attempt now deadline = deadline
              then Some (Inl DialDeadlineExpired, deadline, attempt)
              else dial_loop connect deadline (next_backoff_ms backoff_ms) (attempt + 1)
                     (sleep_end (attempt_limit attempt now deadline) backoff_ms deadline))))"

definition connect_with_retry ::
    "'c dialer \<Rightarrow> instant \<Rightarrow> instant \<Rightarrow> ((dial_error + 'c) \<times> instant \<times> nat) option" where
  "connect_with_retry connect deadline now = dial_loop connect deadline INITIAL_BACKOFF_MS 1 now"

definition dial_ok ::
    "'c dialer \<Rightarrow> instant \<Rightarrow> nat \<Rightarrow> instant \<Rightarrow> (dial_error + 'c) \<times> instant \<times> nat \<Rightarrow> bool" where
  "dial_ok connect deadline attempt now res \<longleftrightarrow>
     (let (r, t, n) = res in
       now \<le> t \<and> t \<le> max now deadline
     \<and> n * from_secs 1 \<le> attempt * from_secs 1 + (if deadline \<le> now then 0 else from_secs 1 + (deadline - now))
     \<and> (case r of Inl _ \<Rightarrow> deadline \<le> t
        | Inr c \<Rightarrow> \<exists>start d. connect n start = Some (d, Inr c) \<and> t = start + d))"

lemma dial_ok_retry:
  assumes ok: "dial_ok connect deadline (Suc attempt) now' res"
    and now: "now < deadline" "min (now + from_secs 1) deadline \<le> now'" "now' \<le> deadline"
  shows "dial_ok connect deadline attempt now res"
proof -
  have "now \<le> now'" "now' = deadline \<or> now + from_secs 1 \<le> now'"
    using now by (auto simp: min_def split: if_splits)
  with ok now(1,3) show ?thesis
    unfolding dial_ok_def Let_def by (cases res) (auto split: sum.splits if_splits)
qed

lemma sleep_end_bounds:
  assumes "1000 \<le> unat b" and "t \<le> deadline"
  shows "min (t + from_secs 1) deadline \<le> sleep_end t b deadline" and "sleep_end t b deadline \<le> deadline"
proof -
  from assms(1) have "from_secs 1 \<le> from_millis (unat b)"
    by (simp add: from_secs_def from_millis_def)
  then show "min (t + from_secs 1) deadline \<le> sleep_end t b deadline"
    by (auto simp: sleep_end_def min_def)
  show "sleep_end t b deadline \<le> deadline"
    by (simp add: sleep_end_def)
qed

lemma dial_loop_ok:
  "1000 \<le> unat b \<Longrightarrow> \<exists>res. dial_loop connect deadline b attempt now = Some res \<and> dial_ok connect deadline attempt now res"
proof (induction "deadline - now" arbitrary: b attempt now rule: less_induct)
  case less
  let ?l = "attempt_limit attempt now deadline"
  have b: "1000 \<le> unat (next_backoff_ms b)"
    using less.prems by (simp add: unat_next_backoff)
  have retry: "\<exists>res. dial_loop connect deadline (next_backoff_ms b) (attempt + 1) (sleep_end t b deadline) = Some res
      \<and> dial_ok connect deadline attempt now res"
    if now: "now < deadline" and t: "now \<le> t" "t \<le> deadline" for t
  proof -
    note s = sleep_end_bounds [OF less.prems t(2)]
    have "0 < from_secs 1" by (simp add: from_secs_def)
    with s now t have "now < sleep_end t b deadline"
      by (auto simp: min_def split: if_splits)
    then have "deadline - sleep_end t b deadline < deadline - now"
      using now by simp
    from less.hyps [OF this b, of "attempt + 1"] obtain res where
      res: "dial_loop connect deadline (next_backoff_ms b) (attempt + 1) (sleep_end t b deadline) = Some res"
        "dial_ok connect deadline (Suc attempt) (sleep_end t b deadline) res"
      by auto
    have "min (now + from_secs 1) deadline \<le> sleep_end t b deadline"
      using s(1) t(1) by (auto simp: min_def split: if_splits)
    from dial_ok_retry [OF res(2) now this s(2)] res(1) show ?thesis by blast
  qed
  have l: "now \<le> ?l" "?l \<le> deadline" if "now < deadline"
    using that by (simp_all add: attempt_limit_def)
  consider "deadline \<le> now" | r t where "now < deadline" "dial_once connect attempt now ?l = Some (r, t)"
    | "now < deadline" "dial_once connect attempt now ?l = None"
    by (cases "dial_once connect attempt now ?l") force+
  then show ?case
  proof cases
    case 1
    then show ?thesis by (subst dial_loop.simps) (simp add: dial_ok_def)
  next
    case 2
    from dial_once_bounds [OF 2(2)] l [OF 2(1)] have t: "now \<le> t" "t \<le> deadline" by simp_all
    show ?thesis
    proof (cases r)
      case (Inl e)
      with 2 retry [OF 2(1) t] show ?thesis by (subst dial_loop.simps) simp
    next
      case (Inr c)
      from 2(2) obtain d where "connect attempt now = Some (d, Inr c)" "t = now + d"
        by (auto simp: dial_once_def Inr split: option.splits if_splits)
      then have "\<exists>start d. connect attempt start = Some (d, Inr c) \<and> t = start + d" by blast
      with 2 t Inr show ?thesis
        by (subst dial_loop.simps) (simp add: dial_ok_def)
    qed
  next
    case 3
    with retry [OF 3(1) l [OF 3(1)]] show ?thesis
      by (subst dial_loop.simps) (auto simp: dial_ok_def)
  qed
qed

text \<open>C11: dialling always returns, and at the right time. For every behaviour of the endpoint
\<open>connect_with_retry\<close> returns no later than the deadline (at once if that has passed). An error is
returned only when the deadline is reached, so it never gives up early; a connection is one that
the returned attempt's dial produced; and the number of attempts is at most one per second plus
two, so the attempt counter cannot overflow.\<close>

theorem dial_returns_by_deadline:
  "\<exists>r t n. connect_with_retry connect deadline now = Some (r, t, n)
     \<and> now \<le> t \<and> t \<le> max now deadline
     \<and> n * from_secs 1 \<le> 2 * from_secs 1 + (deadline - now)
     \<and> (case r of Inl _ \<Rightarrow> deadline \<le> t
        | Inr c \<Rightarrow> \<exists>start d. connect n start = Some (d, Inr c) \<and> t = start + d)"
proof -
  have "1000 \<le> unat INITIAL_BACKOFF_MS"
    by (simp add: INITIAL_BACKOFF_MS_def)
  from dial_loop_ok [OF this, of connect deadline 1 now] obtain r t n where
    res: "connect_with_retry connect deadline now = Some (r, t, n)"
    and ok: "dial_ok connect deadline 1 now (r, t, n)"
    unfolding connect_with_retry_def by (metis prod_cases3)
  from ok have "now \<le> t \<and> t \<le> max now deadline
     \<and> n * from_secs 1 \<le> 2 * from_secs 1 + (deadline - now)
     \<and> (case r of Inl _ \<Rightarrow> deadline \<le> t
        | Inr c \<Rightarrow> \<exists>start d. connect n start = Some (d, Inr c) \<and> t = start + d)"
    unfolding dial_ok_def Let_def prod.case by (auto split: if_splits)
  with res show ?thesis by blast
qed

end
