(* ===== verification/Tcp.thy ===== *)
theory Tcp
  imports Shutdown
begin

text \<open>
  The byte pipe between two streams (\<open>crates/engine/src/tcp.rs\<close>). One direction copies a read
  side to a write side. The read side shows chunks (what each \<open>fill_buf\<close> returns) and then an
  end of file or an error; an empty chunk is an end of file. The write side takes any number
  of bytes, or fails after some. Both directions run under \<open>tokio::join!\<close>: a schedule says whose
  turn it is.
\<close>

section \<open>One direction\<close>

record half =
  h_input :: "u8 list list"
  h_read_error :: "string option"
  h_room :: "(nat \<times> string) option"
  h_flush_error :: "string option"
  h_written :: "u8 list"
  h_fin :: bool
  h_result :: "(string + unit) option"

text \<open>After the copy, \<open>shutdown\<close> of the write side is attempted whatever the copy's result.\<close>

definition finish_copy :: "string + unit \<Rightarrow> half \<Rightarrow> half" where
  "finish_copy res h = h\<lparr>h_fin := True, h_result := Some res\<rparr>"

definition copy_end :: "half \<Rightarrow> half" where
  "copy_end h = finish_copy (case h_flush_error h of None \<Rightarrow> Inr () | Some e \<Rightarrow> Inl e) h"

text \<open>One turn of \<open>copy_buf\<close>: read a chunk, write it.\<close>

definition copy_chunk :: "u8 list \<Rightarrow> u8 list list \<Rightarrow> half \<Rightarrow> half" where
  "copy_chunk bytes rest h =
     (case h_room h of
        None \<Rightarrow> h\<lparr>h_input := rest, h_written := h_written h @ bytes\<rparr>
      | Some (k, e) \<Rightarrow>
          (if length bytes \<le> k
           then h\<lparr>h_input := rest, h_written := h_written h @ bytes, h_room := Some (k - length bytes, e)\<rparr>
           else finish_copy (Inl e) (h\<lparr>h_written := h_written h @ take k bytes\<rparr>)))"

definition dir_step :: "half \<Rightarrow> half" where
  "dir_step h =
     (case h_result h of
        Some _ \<Rightarrow> h
      | None \<Rightarrow>
          (case h_input h of
             [] \<Rightarrow> (case h_read_error h of None \<Rightarrow> copy_end h | Some e \<Rightarrow> finish_copy (Inl e) h)
           | bytes # rest \<Rightarrow> if bytes = [] then copy_end h else copy_chunk bytes rest h))"

section \<open>Both directions\<close>

definition pipe_step :: "bool \<Rightarrow> half \<times> half \<Rightarrow> half \<times> half" where
  "pipe_step a p = (if a then (dir_step (fst p), snd p) else (fst p, dir_step (snd p)))"

text \<open>\<open>join!\<close> answers when both directions have; then the first error wins.\<close>

definition pipe_result :: "half \<times> half \<Rightarrow> (string + unit) option" where
  "pipe_result p =
     (case (h_result (fst p), h_result (snd p)) of
        (Some (Inl e), Some _) \<Rightarrow> Some (Inl e)
      | (Some (Inr _), Some r) \<Rightarrow> Some r
      | _ \<Rightarrow> None)"

definition pipe_start :: "half \<Rightarrow> bool" where
  "pipe_start h \<longleftrightarrow> h_written h = [] \<and> \<not> h_fin h \<and> h_result h = None"

text \<open>What a direction is given to carry, and what it can.\<close>

definition offered :: "half \<Rightarrow> u8 list" where
  "offered h = concat (takeWhile (\<lambda>c. c \<noteq> []) (h_input h))"

definition carried :: "half \<Rightarrow> u8 list" where
  "carried h = (case h_room h of None \<Rightarrow> offered h | Some (k, _) \<Rightarrow> take k (offered h))"

definition clean :: "half \<Rightarrow> bool" where
  "clean h \<longleftrightarrow> (case h_room h of None \<Rightarrow> True | Some (k, _) \<Rightarrow> length (offered h) \<le> k)
     \<and> (h_read_error h = None \<or> [] \<in> set (h_input h)) \<and> h_flush_error h = None"

lemma dir_done: "h_result h \<noteq> None \<Longrightarrow> (dir_step ^^ n) h = h"
  by (induction n) (auto simp: dir_step_def)

lemma dir_run:
  "h_result h = None \<Longrightarrow> length (h_input h) < n \<Longrightarrow> h' = (dir_step ^^ n) h \<Longrightarrow>
     h_written h' = h_written h @ carried h \<and> h_fin h' \<and> (\<exists>r. h_result h' = Some r \<and> (isl r \<longleftrightarrow> \<not> clean h))"
proof (induction "h_input h" arbitrary: h n)
  case Nil
  then obtain m where n: "n = Suc m" by (cases n) auto
  have "h_result (dir_step h) \<noteq> None"
    using Nil by (simp add: dir_step_def copy_end_def finish_copy_def split: option.splits)
  from dir_done [OF this, of m] have h': "h' = dir_step h"
    using Nil.prems(3) by (simp add: n funpow_Suc_right del: funpow.simps)
  show ?case
    unfolding h' using Nil.hyps [symmetric] Nil.prems(1)
    by (auto simp: dir_step_def copy_end_def finish_copy_def carried_def offered_def clean_def split: option.splits)
next
  case (Cons bytes rest)
  then obtain m where n: "n = Suc m" by (cases n) auto
  have h': "h' = (dir_step ^^ m) (dir_step h)"
    using Cons.prems(3) by (simp add: n funpow_Suc_right del: funpow.simps)
  note input = Cons.hyps(2) [symmetric]
  show ?case
  proof (cases "h_result (dir_step h) = None")
    case True
    then have ne: "bytes \<noteq> []"
      using Cons.prems(1) input by (auto simp: dir_step_def copy_end_def finish_copy_def)
    have step: "dir_step h = copy_chunk bytes rest h"
      using Cons.prems(1) input ne by (simp add: dir_step_def)
    then have "h_input (dir_step h) = rest" and room: "\<forall>k e. h_room h = Some (k, e) \<longrightarrow> length bytes \<le> k"
      using True by (auto simp: copy_chunk_def finish_copy_def split: option.splits if_splits)
    with Cons.hyps(1) [of "dir_step h" m] True Cons.prems n h' input
    have IH: "h_written h' = h_written (dir_step h) @ carried (dir_step h) \<and> h_fin h'
        \<and> (\<exists>r. h_result h' = Some r \<and> (isl r \<longleftrightarrow> \<not> clean (dir_step h)))"
      by auto
    have "h_written (dir_step h) @ carried (dir_step h) = h_written h @ carried h"
      and "clean (dir_step h) \<longleftrightarrow> clean h"
      using room ne unfolding step
      by (auto simp: copy_chunk_def carried_def offered_def clean_def input split: option.splits)
    with IH show ?thesis by simp
  next
    case False
    then have h'': "h' = dir_step h"
      using h' dir_done by simp
    from False Cons.prems(1) input show ?thesis
      unfolding h''
      by (auto simp: dir_step_def copy_end_def copy_chunk_def finish_copy_def carried_def offered_def clean_def
          split: option.splits if_splits)
  qed
qed

lemma pipe_run:
  "fold pipe_step sched (a, b) =
     ((dir_step ^^ count_list sched True) a, (dir_step ^^ count_list sched False) b)"
proof (induction sched arbitrary: a b)
  case (Cons x sched)
  then show ?case
    by (cases x) (simp_all add: pipe_step_def funpow_Suc_right del: funpow.simps)
qed simp

text \<open>C12: the pipe is transparent and half-closes. Under any schedule that gives each direction
its turns, the pipe ends; each write side got exactly the bytes its read side offered (those it
could take, if it fails) and its FIN, also when the copy failed; one direction's end never cuts
the other; and the pipe reports success exactly when both directions were clean.\<close>

theorem pipe_transparent:
  assumes "pipe_start a" and "pipe_start b"
    and "length (h_input a) < count_list sched True" and "length (h_input b) < count_list sched False"
    and "fold pipe_step sched (a, b) = (a', b')"
  shows "h_written a' = carried a \<and> h_written b' = carried b \<and> h_fin a' \<and> h_fin b'
    \<and> pipe_result (a', b') \<noteq> None
    \<and> (pipe_result (a', b') = Some (Inr ()) \<longleftrightarrow> clean a \<and> clean b)"
proof -
  from assms(5) have a': "a' = (dir_step ^^ count_list sched True) a"
    and b': "b' = (dir_step ^^ count_list sched False) b"
    by (simp_all add: pipe_run)
  have na: "h_result a = None" and wa: "h_written a = []" and nb: "h_result b = None" and wb: "h_written b = []"
    using assms(1,2) by (simp_all add: pipe_start_def)
  from dir_run [OF na assms(3) a'] obtain ra where
    ra: "h_written a' = carried a" "h_fin a'" "h_result a' = Some ra" "isl ra \<longleftrightarrow> \<not> clean a"
    using wa by auto
  from dir_run [OF nb assms(4) b'] obtain rb where
    rb: "h_written b' = carried b" "h_fin b'" "h_result b' = Some rb" "isl rb \<longleftrightarrow> \<not> clean b"
    using wb by auto
  from ra(4) rb(4) show ?thesis
    by (cases ra; cases rb) (simp_all add: ra(1-3) rb(1-3) pipe_result_def)
qed

definition demo_half :: "u8 list list \<Rightarrow> half" where
  "demo_half cs = \<lparr>h_input = cs, h_read_error = None, h_room = None, h_flush_error = None,
     h_written = [], h_fin = False, h_result = None\<rparr>"

lemma pipe_transparent_witness:
  "h_written (fst (fold pipe_step [True, False, False, True, True] (demo_half [[1, 2], [3]], demo_half [[9]]))) = [1, 2, 3]"
proof -
  have "pipe_start (demo_half [[1, 2], [3]])" "pipe_start (demo_half [[9]])"
    by (simp_all add: pipe_start_def demo_half_def)
  from pipe_transparent [OF this, of "[True, False, False, True, True]", OF _ _ surjective_pairing]
  show ?thesis
    by (simp add: demo_half_def carried_def offered_def)
qed

section \<open>Delivery of the final bytes\<close>

definition DELIVERY_ACK_GRACE :: duration where
  "DELIVERY_ACK_GRACE = from_secs 2"

text \<open>The compile-time assertion of the source.\<close>

lemma ack_grace_fits_drain: "DELIVERY_ACK_GRACE < DRAIN_GRACE"
  by (simp add: DELIVERY_ACK_GRACE_def DRAIN_GRACE_def)

datatype 'e delivery = Acknowledged | PeerStopped nat | Unconfirmed | Lost 'e

text \<open>What \<open>stopped()\<close> of the stream answers, and after how long; \<open>None\<close> is never.\<close>

definition await_delivery :: "(duration \<times> ('e + nat option)) option \<Rightarrow> duration \<Rightarrow> 'e delivery" where
  "await_delivery delivered grace =
     (case delivered of
        None \<Rightarrow> Unconfirmed
      | Some (d, r) \<Rightarrow>
          (if grace < d then Unconfirmed
           else case r of Inr None \<Rightarrow> Acknowledged | Inr (Some code) \<Rightarrow> PeerStopped code | Inl e \<Rightarrow> Lost e))"

lemma acknowledged_iff:
  "await_delivery delivered grace = Acknowledged \<longleftrightarrow> (\<exists>d. delivered = Some (d, Inr None) \<and> d \<le> grace)"
  by (auto simp: await_delivery_def split: option.splits sum.splits)

end
