(* ===== verification/PeerTracker.thy ===== *)
theory PeerTracker
  imports Prelude "HOL-Library.Multiset"
begin

text \<open>
  The registry of connected peers (\<open>PeerTracker\<close> in \<open>crates/engine/src/serve/run_serve.rs\<close>): per
  peer, per service, how many connections. It is what the status file's \<open>connections\<close> array is
  rendered from. Its specification is the multiset of tracked \<open>(peer, service)\<close> connections;
  \<open>track\<close> and \<open>untrack\<close> refine adding to it and removing from it. An endpoint identifier is its
  text.
\<close>

section \<open>Reference counts\<close>

text \<open>The contract of a reference count per key, and what any run of it counts.\<close>

locale refcounts =
  fixes count_of :: "'m \<Rightarrow> 'k \<Rightarrow> nat"
    and incr :: "'k \<Rightarrow> 'm \<Rightarrow> 'm"
    and decr :: "'k \<Rightarrow> 'm \<Rightarrow> 'm"
    and wf :: "'m \<Rightarrow> bool"
  assumes wf_incr: "wf m \<Longrightarrow> wf (incr k m)"
    and wf_decr: "wf m \<Longrightarrow> wf (decr k m)"
    and count_incr: "wf m \<Longrightarrow> count_of (incr k m) k' = (if k' = k then Suc (count_of m k) else count_of m k')"
    and count_decr: "wf m \<Longrightarrow> count_of (decr k m) k' = (if k' = k then count_of m k - 1 else count_of m k')"
begin

definition represents :: "'m \<Rightarrow> 'k multiset \<Rightarrow> bool" where
  "represents m M \<longleftrightarrow> wf m \<and> count_of m = count M"

lemma represents_incr: "represents m M \<Longrightarrow> represents (incr k m) (add_mset k M)"
  by (auto simp: represents_def wf_incr count_incr fun_eq_iff)

lemma represents_decr: "represents m M \<Longrightarrow> represents (decr k m) (M - {#k#})"
  by (auto simp: represents_def wf_decr count_decr fun_eq_iff)

lemma represents_mem: "represents m M \<Longrightarrow> k \<in># M \<longleftrightarrow> 0 < count_of m k"
  by (simp add: represents_def)

lemma represents_unique: "represents m M \<Longrightarrow> represents m M' \<Longrightarrow> M = M'"
  by (auto simp: represents_def multiset_eq_iff)

end

section \<open>The registry\<close>

type_synonym endpoint_id = string

type_synonym tracker = "(endpoint_id, (string, nat) hmap) hmap"

text \<open>\<open>entry(peer).or_default().entry(service).and_modify(+1).or_insert(1)\<close>.\<close>

definition or_default :: "'v \<Rightarrow> 'v option \<Rightarrow> 'v" where
  "or_default d o_v = (case o_v of None \<Rightarrow> d | Some v \<Rightarrow> v)"

definition track :: "endpoint_id \<Rightarrow> string \<Rightarrow> tracker \<Rightarrow> tracker" where
  "track peer service m =
     (let services = or_default [] (hm_get m peer)
      in hm_insert peer
           (hm_insert service (case hm_get services service of None \<Rightarrow> 1 | Some n \<Rightarrow> n + 1) services) m)"

definition untrack :: "endpoint_id \<Rightarrow> string \<Rightarrow> tracker \<Rightarrow> tracker" where
  "untrack peer service m =
     (case hm_get m peer of
        None \<Rightarrow> m
      | Some services \<Rightarrow>
          (case hm_get services service of
             None \<Rightarrow> m
           | Some n \<Rightarrow>
               (if n - 1 = 0
                then (let services' = hm_remove service services
                      in if services' = [] then hm_remove peer m else hm_insert peer services' m)
                else hm_insert peer (hm_insert service (n - 1) services) m)))"

definition tracker_snapshot :: "tracker \<Rightarrow> (endpoint_id \<times> string list) list" where
  "tracker_snapshot m = sort_key fst (map (\<lambda>(peer, services). (peer, sort (hm_keys services))) m)"

definition tracked :: "tracker \<Rightarrow> endpoint_id \<times> string \<Rightarrow> nat" where
  "tracked m k = or_default 0 (hm_get (or_default [] (hm_get m (fst k))) (snd k))"

definition tracker_wf :: "tracker \<Rightarrow> bool" where
  "tracker_wf m \<longleftrightarrow> hm_wf m \<and>
     (\<forall>p ss. hm_get m p = Some ss \<longrightarrow> ss \<noteq> [] \<and> hm_wf ss \<and> (\<forall>s n. hm_get ss s = Some n \<longrightarrow> 0 < n))"

lemma tracker_wfD:
  assumes "tracker_wf m" and "hm_get m p = Some ss"
  shows "ss \<noteq> []" and "hm_wf ss" and "hm_get ss s = Some n \<Longrightarrow> 0 < n"
  using assms by (auto simp: tracker_wf_def)

lemma hm_insert_ne [simp]: "hm_insert k v m \<noteq> []"
  by (cases m) auto

lemma tracker_wf_insert:
  "tracker_wf m \<Longrightarrow> ss \<noteq> [] \<Longrightarrow> hm_wf ss \<Longrightarrow> \<forall>s n. hm_get ss s = Some n \<longrightarrow> 0 < n \<Longrightarrow> tracker_wf (hm_insert p ss m)"
  by (simp add: tracker_wf_def hm.wf_insert)

lemma tracker_wf_remove: "tracker_wf m \<Longrightarrow> tracker_wf (hm_remove p m)"
  by (auto simp: tracker_wf_def hm.wf_remove split: if_splits)

lemma tracker_wf_track: "tracker_wf m \<Longrightarrow> tracker_wf (track p s m)"
  unfolding track_def Let_def
  by (rule tracker_wf_insert)
    (auto simp: hm.wf_insert or_default_def hm_wf_def [of "[_]"] dest: tracker_wfD split: option.splits if_splits)

lemma tracker_wf_untrack:
  assumes m: "tracker_wf m"
  shows "tracker_wf (untrack p s m)"
proof (cases "hm_get m p")
  case (Some ss)
  note ss = tracker_wfD [OF m Some]
  show ?thesis
  proof (cases "hm_get ss s")
    case s: (Some n)
    have "tracker_wf (hm_insert p (hm_remove s ss) m)" if "hm_remove s ss \<noteq> []"
      using that ss by (intro tracker_wf_insert m) (auto simp: hm.wf_remove split: if_splits)
    moreover have "tracker_wf (hm_insert p (hm_insert s (n - 1) ss) m)" if "n - 1 \<noteq> 0"
      using that ss by (intro tracker_wf_insert m) (auto simp: hm.wf_insert split: if_splits)
    ultimately show ?thesis
      using m by (auto simp: untrack_def Some s Let_def tracker_wf_remove)
  qed (use m in \<open>simp add: untrack_def Some\<close>)
qed (use m in \<open>simp add: untrack_def\<close>)

lemma tracked_track:
  "tracked (track p s m) k = (if k = (p, s) then Suc (tracked m (p, s)) else tracked m k)"
  by (cases k) (auto simp: tracked_def track_def Let_def or_default_def split: option.splits)

lemma tracked_untrack:
  assumes "tracker_wf m"
  shows "tracked (untrack p s m) k = (if k = (p, s) then tracked m (p, s) - 1 else tracked m k)"
proof (cases "hm_get m p")
  case (Some ss)
  note ss = tracker_wfD [OF assms Some]
  have other: "hm_get ss s' = None" if "hm_remove s ss = []" "s' \<noteq> s" for s'
  proof -
    have "hm_get (hm_remove s ss) s' = None" by (simp add: that(1))
    with that(2) show ?thesis by simp
  qed
  then show ?thesis
    by (cases k; cases "hm_get ss s")
      (auto simp: tracked_def untrack_def Some Let_def or_default_def split: option.splits)
qed (cases k; auto simp: tracked_def untrack_def or_default_def)

interpretation conns: refcounts tracked "\<lambda>k. track (fst k) (snd k)" "\<lambda>k. untrack (fst k) (snd k)" tracker_wf
  by unfold_locales (auto simp: tracker_wf_track tracker_wf_untrack tracked_track tracked_untrack)

lemma conns_empty: "conns.represents [] {#}"
  by (simp add: conns.represents_def tracker_wf_def tracked_def or_default_def fun_eq_iff)

lemma tracked_pos:
  assumes "tracker_wf m"
  shows "0 < tracked m (p, s) \<longleftrightarrow> (\<exists>ss. hm_get m p = Some ss \<and> s \<in> fst ` set ss)"
proof (cases "hm_get m p")
  case (Some ss)
  note ss = tracker_wfD [OF assms Some]
  show ?thesis
  proof (cases "hm_get ss s")
    case None
    then show ?thesis by (simp add: Some tracked_def or_default_def) (simp add: map_of_eq_None_iff)
  next
    case (Some n)
    then have "s \<in> fst ` set ss" by (metis map_of_eq_None_iff option.distinct(1))
    with Some \<open>hm_get m p = Some ss\<close> ss(3) show ?thesis by (auto simp: tracked_def or_default_def)
  qed
qed (simp add: tracked_def or_default_def)

section \<open>Snapshots\<close>

text \<open>What a snapshot promises: the peers in order, each with its services in order.\<close>

definition spec_snapshot :: "(endpoint_id \<times> string) multiset \<Rightarrow> (endpoint_id \<times> string list) list" where
  "spec_snapshot M =
     map (\<lambda>p. (p, sorted_list_of_set {s. (p, s) \<in># M})) (sorted_list_of_set (fst ` set_mset M))"

lemma sort_distinct_set: "distinct xs \<Longrightarrow> sort xs = sorted_list_of_set (set (xs :: 'a::linorder list))"
  by (simp add: sorted_list_of_set_sort_remdups distinct_remdups_id)

lemma sort_pairs: "sort_key fst (map (\<lambda>x. (fst x, h (fst x))) m) = map (\<lambda>p. (p, h p)) (sort (map fst m))"
proof -
  have "insort_key fst (a, h a) (map (\<lambda>p. (p, h p)) ys) = map (\<lambda>p. (p, h p)) (insort a ys)" for a ys
    by (induction ys) auto
  then show ?thesis by (induction m) auto
qed

lemma snapshot_refines:
  assumes "conns.represents m M"
  shows "tracker_snapshot m = spec_snapshot M"
proof -
  from assms have wf: "tracker_wf m" by (simp add: conns.represents_def)
  have mem: "(p, s) \<in># M \<longleftrightarrow> (\<exists>ss. hm_get m p = Some ss \<and> s \<in> fst ` set ss)" for p s
    using conns.represents_mem [OF assms, of "(p, s)"] tracked_pos [OF wf] by simp
  have d: "distinct (map fst m)" using wf by (simp add: tracker_wf_def hm_wf_def)
  let ?f = "\<lambda>(peer, services). (peer, sort (hm_keys services))"
  have row: "?f x = (\<lambda>p. (p, sorted_list_of_set {s. (p, s) \<in># M})) (fst x)" if x: "x \<in> set m" for x
  proof -
    obtain p ss where x': "x = (p, ss)" by (cases x)
    with x d have g: "hm_get m p = Some ss" by simp
    then have "{s. (p, s) \<in># M} = set (hm_keys ss)" by (simp add: mem)
    moreover have "distinct (hm_keys ss)"
      using tracker_wfD(2) [OF wf g] by (simp add: hm_wf_def)
    ultimately show ?thesis by (simp add: x' sort_distinct_set)
  qed
  have "fst ` set m = fst ` set_mset M"
  proof
    show "fst ` set m \<subseteq> fst ` set_mset M"
    proof
      fix p assume "p \<in> fst ` set m"
      then obtain ss where g: "hm_get m p = Some ss"
        by (metis map_of_eq_None_iff not_Some_eq)
      with tracker_wfD(1) [OF wf g] obtain s where "s \<in> fst ` set ss" by (cases ss) auto
      with g have "(p, s) \<in># M" by (auto simp: mem)
      then show "p \<in> fst ` set_mset M" by force
    qed
    show "fst ` set_mset M \<subseteq> fst ` set m"
    proof
      fix p assume "p \<in> fst ` set_mset M"
      then obtain s where "(p, s) \<in># M" by auto
      then obtain ss where "hm_get m p = Some ss" by (auto simp: mem)
      then show "p \<in> fst ` set m" using map_of_SomeD [of m p ss] by (auto intro: rev_image_eqI)
    qed
  qed
  with d have "sort (map fst m) = sorted_list_of_set (fst ` set_mset M)"
    by (simp add: sort_distinct_set)
  moreover have "tracker_snapshot m = map (\<lambda>p. (p, sorted_list_of_set {s. (p, s) \<in># M})) (sort (map fst m))"
  proof -
    have "map ?f m = map (\<lambda>x. (fst x, (\<lambda>p. sorted_list_of_set {s. (p, s) \<in># M}) (fst x))) m"
      using row by (intro map_cong) auto
    then show ?thesis
      by (simp only: tracker_snapshot_def sort_pairs [where h = "\<lambda>p. sorted_list_of_set {s. (p, s) \<in># M}"])
  qed
  ultimately show ?thesis by (simp add: spec_snapshot_def)
qed

text \<open>Connections come and go in any order: each \<open>DropConn\<close> is the drop of one guard.\<close>

datatype tracker_op = TrackConn endpoint_id string | DropConn endpoint_id string

fun tracker_step :: "tracker_op \<Rightarrow> tracker \<Rightarrow> tracker" where
  "tracker_step (TrackConn p s) m = track p s m"
| "tracker_step (DropConn p s) m = untrack p s m"

fun conns_step :: "tracker_op \<Rightarrow> (endpoint_id \<times> string) multiset \<Rightarrow> (endpoint_id \<times> string) multiset" where
  "conns_step (TrackConn p s) M = add_mset (p, s) M"
| "conns_step (DropConn p s) M = M - {#(p, s)#}"

lemma tracker_run: "conns.represents m M \<Longrightarrow> conns.represents (fold tracker_step ops m) (fold conns_step ops M)"
proof (induction ops arbitrary: m M)
  case (Cons op ops)
  have "conns.represents (tracker_step op m) (conns_step op M)"
    using conns.represents_incr [OF Cons.prems] conns.represents_decr [OF Cons.prems] by (cases op) auto
  from Cons.IH [OF this] show ?case by simp
qed simp

text \<open>The registry refines the multiset of live connections. After any sequence of connections
opening and closing, several of them to one service included, the snapshot lists exactly the peers
with a live connection, each once, in order, with exactly the services it is connected to, in
order: no peer is forgotten while it has a connection and none lingers after its last.\<close>

theorem tracker_snapshot_exact:
  "tracker_snapshot (fold tracker_step ops []) = spec_snapshot (fold conns_step ops {#})"
  by (rule snapshot_refines [OF tracker_run [OF conns_empty]])

end
