(* ===== verification/StatusFlush.thy ===== *)
theory StatusFlush
  imports Prelude
begin

text \<open>
  Publishing status, as both roles do it (the initial save and \<open>status_flush_loop\<close> of
  \<open>serve/run_serve.rs\<close>, \<open>access_status_flush_loop\<close> of \<open>access/run_access.rs\<close>). The two loops
  differ in how they render an observation, which is a parameter here: a tick comes with the
  observation it renders and whether the host's save of it succeeds.
\<close>

definition STATUS_FLUSH_INTERVAL :: duration where
  "STATUS_FLUSH_INTERVAL = from_secs 5"

text \<open>\<open>last\<close> of the loop, and, as a trace, every observation that was saved.\<close>

record 'o publisher =
  pb_last :: "'o option"
  pb_saved :: "'o list"

definition initial_save :: "'o \<Rightarrow> bool \<Rightarrow> 'o publisher" where
  "initial_save obs save_ok =
     (if save_ok then \<lparr>pb_last = Some obs, pb_saved = [obs]\<rparr> else \<lparr>pb_last = None, pb_saved = []\<rparr>)"

definition flush_tick :: "'o \<Rightarrow> bool \<Rightarrow> 'o publisher \<Rightarrow> 'o publisher" where
  "flush_tick obs save_ok p =
     (if pb_last p = Some obs then p
      else if save_ok then p\<lparr>pb_last := Some obs, pb_saved := pb_saved p @ [obs]\<rparr>
      else p)"

datatype 'o flush_event = FlushTick 'o bool | FlushStop

fun flush_loop :: "'o flush_event list \<Rightarrow> 'o publisher \<Rightarrow> 'o publisher" where
  "flush_loop [] p = p"
| "flush_loop (FlushStop # es) p = p"
| "flush_loop (FlushTick obs save_ok # es) p = flush_loop es (flush_tick obs save_ok p)"

text \<open>The observations whose save works, up to the stop.\<close>

fun published :: "'o flush_event list \<Rightarrow> 'o list" where
  "published [] = []"
| "published (FlushStop # es) = []"
| "published (FlushTick obs save_ok # es) = (if save_ok then [obs] else []) @ published es"

definition last_opt :: "'a list \<Rightarrow> 'a option" where
  "last_opt xs = (if xs = [] then None else Some (last xs))"

lemma remdups_adj_snoc:
  "remdups_adj (xs @ [y]) = (if last_opt xs = Some y then remdups_adj xs else remdups_adj xs @ [y])"
  by (induction xs rule: remdups_adj.induct) (auto simp: last_opt_def)

lemma last_opt_remdups_adj [simp]: "last_opt (remdups_adj xs) = last_opt xs"
  by (simp add: last_opt_def last_remdups_adj)

lemma flush_run:
  "pb_last p = last_opt ys \<Longrightarrow> pb_saved p = remdups_adj ys \<Longrightarrow>
     pb_saved (flush_loop es p) = remdups_adj (ys @ published es)
   \<and> pb_last (flush_loop es p) = last_opt (ys @ published es)"
proof (induction es arbitrary: p ys rule: published.induct)
  case (3 obs save_ok es)
  show ?case
  proof (cases save_ok)
    case True
    have "pb_last (flush_tick obs save_ok p) = last_opt (ys @ [obs])"
      "pb_saved (flush_tick obs save_ok p) = remdups_adj (ys @ [obs])"
      using "3.prems" True by (auto simp: flush_tick_def remdups_adj_snoc) (auto simp: last_opt_def)
    from "3.IH" [OF this] True show ?thesis by simp
  next
    case False
    then have "flush_tick obs save_ok p = p" by (simp add: flush_tick_def)
    with "3.IH" [OF "3.prems"] False show ?thesis by simp
  qed
qed auto

text \<open>The status file follows the rendered state without idle writes. Whatever is rendered and
whichever saves fail, the saves that happen are the successful renderings with consecutive
duplicates removed, starting with the initial one: an unchanged observation is never rewritten, a
changed one is saved at the first tick whose save works, and nothing is saved after the stop.\<close>

theorem flush_writes_changes:
  "pb_saved (flush_loop es (initial_save obs ok)) = remdups_adj ((if ok then [obs] else []) @ published es)
   \<and> pb_last (flush_loop es (initial_save obs ok)) = last_opt ((if ok then [obs] else []) @ published es)"
  by (rule flush_run) (auto simp: initial_save_def last_opt_def)

end
