(* ===== verification/RoleRun.thy ===== *)
theory RoleRun
  imports Settings Shutdown StatusFlush
begin

text \<open>
  What the two roles share around their loops (\<open>crates/engine/src/runtime/types.rs\<close>,
  \<open>runtime/support.rs\<close>): the readiness report, the completion report, the text of an address,
  and the steps a run goes through, as events with their times.
\<close>

section \<open>Addresses\<close>

definition format_addr :: "string \<Rightarrow> u16 \<Rightarrow> string" where
  "format_addr host port = host @ '':'' @ nat_str (unat port)"

definition format_local_addr :: "string \<Rightarrow> u16 \<Rightarrow> string" where
  "format_local_addr host port =
     (if CHR '':'' \<in> set host then ''['' @ host @ '']:'' @ nat_str (unat port)
      else format_addr host port)"

lemma nat_str_digits: "c \<in> set (nat_str n) \<Longrightarrow> \<exists>d < 10. c = digit_char d"
proof (induction n rule: nat_str.induct)
  case (1 n)
  have "\<exists>d < 10. digit_char (n mod 10) = digit_char d"
    by (intro exI [of _ "n mod 10"]) simp
  with 1 show ?case
    by (cases "n < 10") (auto simp: nat_str.simps [of n])
qed

lemma colon_not_digit: "d < 10 \<Longrightarrow> digit_char d \<noteq> CHR '':''"
proof
  assume d: "d < 10" and "digit_char d = CHR '':''"
  then have "of_char (digit_char d) = (of_char (CHR '':'') :: nat)" by simp
  with d show False by (simp add: digit_char_def)
qed

lemma colon_notin_nat_str: "CHR '':'' \<notin> set (nat_str n)"
  using nat_str_digits colon_not_digit by metis

lemma last_colon_split:
  assumes "a @ CHR '':'' # p = b @ CHR '':'' # q" and "CHR '':'' \<notin> set p" and "CHR '':'' \<notin> set q"
  shows "a = b \<and> p = q"
proof -
  have "dropWhile (\<lambda>c. c \<noteq> CHR '':'') (rev r @ CHR '':'' # rev x) = CHR '':'' # rev x"
    "takeWhile (\<lambda>c. c \<noteq> CHR '':'') (rev r @ CHR '':'' # rev x) = rev r" if "CHR '':'' \<notin> set r" for r x
    using that by (auto simp: takeWhile_append dropWhile_append)
  from this(1) [OF assms(2), of a] this(1) [OF assms(3), of b] this(2) [OF assms(2), of a] this(2) [OF assms(3), of b]
  show ?thesis
    using arg_cong [OF assms(1), of rev] by simp
qed

text \<open>The status address names host and port without ambiguity. Two addresses are rendered
alike only if they are the same host and the same port, IPv6 literals included.\<close>

theorem format_local_addr_inj:
  "format_local_addr h p = format_local_addr h' p' \<longleftrightarrow> h = h' \<and> p = p'"
proof
  assume eq: "format_local_addr h p = format_local_addr h' p'"
  define wrap where "wrap x = (if CHR '':'' \<in> set x then ''['' @ x @ '']'' else x)" for x
  have "format_local_addr x q = wrap x @ CHR '':'' # nat_str (unat q)" for x q
    by (simp add: format_local_addr_def format_addr_def wrap_def)
  with eq have "wrap h @ CHR '':'' # nat_str (unat p) = wrap h' @ CHR '':'' # nat_str (unat p')"
    by simp
  from last_colon_split [OF this colon_notin_nat_str colon_notin_nat_str]
  have w: "wrap h = wrap h'" and "nat_str (unat p) = nat_str (unat p')" by auto
  then have "p = p'"
    by (metis nat_str_inj unsigned_word_eqI word_unat_eq_iff)
  moreover from w have "h = h'"
    by (auto simp: wrap_def split: if_splits)
  ultimately show "h = h' \<and> p = p'" by simp
qed simp

section \<open>Readiness and completion\<close>

record serve_ready =
  sy_name :: string
  sy_protocol :: protocol
  sy_local_addr :: string

record access_ready =
  ay_name :: string
  ay_listen_addr :: string
  ay_peer_display :: string
  ay_protocol :: protocol
  ay_relay_override_count :: nat

datatype ready_services = ServeServices "serve_ready list" | AccessServices "access_ready list"

record ready_report =
  rr_node_id :: string
  rr_home_relay :: "string option"
  rr_services :: ready_services

text \<open>\<open>status_quiesced\<close>: no save of the status file can still be in flight.\<close>

record 'e run_completion =
  rc_result :: "'e + unit"
  status_quiesced :: bool

section \<open>The steps of a run\<close>

datatype role_event =
    ReportedReady
  | SavedStatus bool
  | AdmissionOpened
  | DrainBegan instant
  | OwnersJoined
  | SinksJoined
  | AuxiliaryStopped
  | FlushStopped bool
  | EndpointClosed

text \<open>
  The stop of a role at time \<open>now\<close>. Its connection owners each drain their own tasks against the
  one deadline, and the supervisor joins the owners: it returns when the last of them has.
\<close>

definition join_owners :: "instant \<Rightarrow> instant \<Rightarrow> task list list \<Rightarrow> instant" where
  "join_owners now deadline owners = fold max (map (\<lambda>ts. fst (drain now deadline ts)) owners) now"

lemma join_owners_bounded: "now \<le> d \<Longrightarrow> join_owners now d owners \<le> d"
proof -
  assume now: "now \<le> d"
  have "a \<le> d \<Longrightarrow> fold max (map (\<lambda>ts. fst (drain now d ts)) owners) a \<le> d" for a
  proof (induction owners arbitrary: a)
    case (Cons ts owners)
    have "fst (drain now d ts) \<le> d"
      using drain_bounded_time [of now d ts] now by (simp add: max_absorb2)
    with Cons show ?case by simp
  qed simp
  with now show ?thesis by (simp add: join_owners_def)
qed

lemma join_owners_mono: "now \<le> join_owners now d owners"
proof -
  have "a \<le> fold max xs a" for a and xs :: "nat list"
    by (induction xs arbitrary: a) (auto intro: order_trans [OF max.cobounded2])
  then show ?thesis by (simp add: join_owners_def)
qed

lemma stop_flush_time: "now \<le> fst (stop_flush now f) \<and> fst (stop_flush now f) \<le> now + STATUS_FLUSH_JOIN_BOUND"
  by (auto simp: stop_flush_def join_time_def finished_by_def split: option.splits)

end
