(* ===== verification/ServeRun.thy ===== *)
theory ServeRun
  imports RoleRun Proto UdpStats Tcp PeerTracker ConnPath
begin

text \<open>
  The Serve role around its data paths (\<open>crates/engine/src/serve/run_serve.rs\<close>): targets and
  readiness, the status snapshot, admission and supervision of connections and TCP streams
  (\<open>accept_loop\<close>, \<open>handle_connection\<close>), and the run as a whole (\<open>run_serve\<close>). A UDP connection
  appears here as a supervised connection without streams; its flows are the theory ServeUdp.
\<close>

section \<open>Targets and observations\<close>

record service_target =
  st_local_addr :: string
  st_protocol :: protocol
  st_active_streams :: u64
  st_udp_limits :: udp_limits
  st_udp_stats :: udp_stats

definition service_target_new :: "string \<Rightarrow> protocol \<Rightarrow> udp_limits \<Rightarrow> service_target" where
  "service_target_new local_addr proto limits =
     \<lparr>st_local_addr = local_addr, st_protocol = proto, st_active_streams = 0, st_udp_limits = limits,
       st_udp_stats = udp_stats_default\<rparr>"

type_synonym targets = "(u8 list, service_target) hmap"

definition build_targets :: "serve_service_settings list \<Rightarrow> targets" where
  "build_targets svcs =
     fold (\<lambda>svc. hm_insert (alpn_for (ss_name svc))
             (service_target_new (format_addr (ss_host svc) (ss_port svc)) (ss_protocol svc) (ss_udp svc)))
       svcs []"

definition serve_ready_services :: "'sk serve_settings \<Rightarrow> ready_services" where
  "serve_ready_services s =
     ServeServices (map (\<lambda>svc. \<lparr>sy_name = ss_name svc, sy_protocol = ss_protocol svc,
                                 sy_local_addr = format_addr (ss_host svc) (ss_port svc)\<rparr>) (serve_services s))"

record service_observation =
  so_name :: string
  so_protocol :: string
  so_local_addr :: string
  so_active_connections :: u64
  so_udp :: "udp_observation option"

record peer_connection_observation =
  pc_path :: peer_path_observation
  pc_services :: "string list"

record serve_observation =
  sob_node_id :: string
  sob_home_relay :: "string option"
  sob_pid :: nat
  sob_started_at :: nat
  sob_services :: "service_observation list"
  sob_connections :: "peer_connection_observation list"

text \<open>A row of the status template refers to its target's live counters by the target's ALPN.\<close>

record status_service_row =
  row_name :: string
  row_protocol :: string
  row_local_addr :: string
  row_target :: "u8 list"
  row_udp :: bool

record status_template =
  tm_node_id :: string
  tm_pid :: nat
  tm_started_at :: nat
  tm_services :: "status_service_row list"

definition status_rows :: "serve_service_settings list \<Rightarrow> status_service_row list" where
  "status_rows svcs =
     map (\<lambda>s. \<lparr>row_name = ss_name s, row_protocol = protocol_as_str (ss_protocol s),
                row_local_addr = format_local_addr (ss_host s) (ss_port s),
                row_target = alpn_for (ss_name s), row_udp = (ss_protocol s = Udp)\<rparr>) svcs"

definition render_row :: "targets \<Rightarrow> status_service_row \<Rightarrow> service_observation" where
  "render_row ts r =
     \<lparr>so_name = row_name r, so_protocol = row_protocol r, so_local_addr = row_local_addr r,
       so_active_connections = (case hm_get ts (row_target r) of None \<Rightarrow> 0 | Some t \<Rightarrow> st_active_streams t),
       so_udp = (if row_udp r then map_option (\<lambda>t. snapshot (st_udp_stats t)) (hm_get ts (row_target r)) else None)\<rparr>"

definition render_status ::
    "status_template \<Rightarrow> targets \<Rightarrow> string option \<Rightarrow> peer_connection_observation list \<Rightarrow> serve_observation" where
  "render_status st ts home_relay conns =
     \<lparr>sob_node_id = tm_node_id st, sob_home_relay = home_relay, sob_pid = tm_pid st,
       sob_started_at = tm_started_at st, sob_services = map (render_row ts) (tm_services st),
       sob_connections = conns\<rparr>"

text \<open>Peers iroh no longer knows are skipped; \<open>report\<close> is \<open>peer_path_report\<close> on the endpoint.\<close>

definition render_connections ::
    "(endpoint_id \<Rightarrow> peer_path_observation option) \<Rightarrow> tracker \<Rightarrow> peer_connection_observation list" where
  "render_connections report peers =
     List.map_filter (\<lambda>(peer, services). map_option (\<lambda>r. \<lparr>pc_path = r, pc_services = services\<rparr>) (report peer))
       (tracker_snapshot peers)"

section \<open>One stream\<close>

definition LOCAL_CONNECT_TIMEOUT :: duration where
  "LOCAL_CONNECT_TIMEOUT = from_secs 10"

text \<open>\<open>connect_local\<close>: the local target answers after some time, or never.\<close>

definition connect_local :: "(duration \<times> (string + 't)) option \<Rightarrow> duration \<Rightarrow> 't option" where
  "connect_local connect limit =
     (case connect of
        None \<Rightarrow> None
      | Some (d, r) \<Rightarrow> if limit < d then None else (case r of Inl _ \<Rightarrow> None | Inr local \<Rightarrow> Some local))"

text \<open>
  A stream task is connecting its local target, then piping, then waiting for the
  acknowledgement of its final bytes; \<open>None\<close> ends it. A failed connect or a failed pipe ends it
  at once.
\<close>

datatype stream_phase = ConnectingLocal | Piping | AwaitingAck

datatype stream_event =
    LocalConnected "(duration \<times> (string + nat)) option"
  | PipeEnded "string + unit"
  | DeliveryEnded "string delivery"

fun stream_step :: "stream_event \<Rightarrow> stream_phase \<Rightarrow> stream_phase option" where
  "stream_step (LocalConnected r) ConnectingLocal =
     (case connect_local r LOCAL_CONNECT_TIMEOUT of None \<Rightarrow> None | Some _ \<Rightarrow> Some Piping)"
| "stream_step (PipeEnded (Inr _)) Piping = Some AwaitingAck"
| "stream_step (PipeEnded (Inl _)) Piping = None"
| "stream_step (DeliveryEnded _) AwaitingAck = None"
| "stream_step _ ph = Some ph"

section \<open>Admission and supervision\<close>

text \<open>
  A supervised connection: spawned but not yet polled, serving, draining up to a deadline, or
  ended. \<open>ln_streams\<close> are its live stream tasks.
\<close>

datatype link_phase = Spawned | Serving | Draining instant | LinkEnded

record link =
  ln_peer :: endpoint_id
  ln_service :: string
  ln_alpn :: "u8 list"
  ln_phase :: link_phase
  ln_streams :: "stream_phase list"

record serve_role =
  sr_targets :: targets
  sr_tracker :: tracker
  sr_links :: "link list"
  sr_stop :: watch
  sr_ctx :: watch

definition serve_role_start :: "serve_service_settings list \<Rightarrow> serve_role" where
  "serve_role_start svcs =
     \<lparr>sr_targets = build_targets svcs, sr_tracker = [], sr_links = [], sr_stop = channel, sr_ctx = channel\<rparr>"

definition add_active :: "u8 list \<Rightarrow> u64 \<Rightarrow> targets \<Rightarrow> targets" where
  "add_active alpn n ts =
     (case hm_get ts alpn of
        None \<Rightarrow> ts
      | Some t \<Rightarrow> hm_insert alpn (t\<lparr>st_active_streams := st_active_streams t + n\<rparr>) ts)"

text \<open>\<open>{alpn:02x?}\<close> of an ALPN that names no service is only logged; here it is a parameter.\<close>

definition service_name :: "(u8 list \<Rightarrow> string) \<Rightarrow> u8 list \<Rightarrow> string" where
  "service_name hex alpn = (case name_from_alpn alpn of Some n \<Rightarrow> n | None \<Rightarrow> hex alpn)"

text \<open>The end of a connection's task: its streams are gone, its counters and its registry entry given back.\<close>

definition end_link :: "nat \<Rightarrow> serve_role \<Rightarrow> serve_role" where
  "end_link i s =
     (let l = sr_links s ! i in
      s\<lparr>sr_targets := add_active (ln_alpn l) (- word_of_nat (length (ln_streams l))) (sr_targets s),
        sr_tracker := untrack (ln_peer l) (ln_service l) (sr_tracker s),
        sr_links := (sr_links s)[i := l\<lparr>ln_phase := LinkEnded, ln_streams := []\<rparr>]\<rparr>)"

definition end_stream :: "nat \<Rightarrow> nat \<Rightarrow> serve_role \<Rightarrow> serve_role" where
  "end_stream i j s =
     (let l = sr_links s ! i in
      s\<lparr>sr_targets := add_active (ln_alpn l) (- 1) (sr_targets s),
        sr_links := (sr_links s)[i := l\<lparr>ln_streams := take j (ln_streams l) @ drop (Suc j) (ln_streams l)\<rparr>]\<rparr>)"

text \<open>
  The turns of a connection's own loop: a stream accepted on a TCP connection while no stop is
  seen, the stop seen, the peer lost (every stream is aborted), and the drain finished (the
  streams have ended, or the deadline has come and the rest is aborted).
\<close>

definition admit_stream :: "nat \<Rightarrow> serve_role \<Rightarrow> serve_role" where
  "admit_stream i s =
     (if i < length (sr_links s) \<and> ln_phase (sr_links s ! i) = Serving \<and> sr_stop s = None
         \<and> (case hm_get (sr_targets s) (ln_alpn (sr_links s ! i)) of
              Some t \<Rightarrow> st_protocol t = Tcp | None \<Rightarrow> False)
      then (let l = sr_links s ! i in
            s\<lparr>sr_targets := add_active (ln_alpn l) 1 (sr_targets s),
              sr_links := (sr_links s)[i := l\<lparr>ln_streams := ln_streams l @ [ConnectingLocal]\<rparr>]\<rparr>)
      else s)"

definition link_sees_stop :: "nat \<Rightarrow> serve_role \<Rightarrow> serve_role" where
  "link_sees_stop i s =
     (case sr_stop s of
        None \<Rightarrow> s
      | Some deadline \<Rightarrow>
          (if i < length (sr_links s) \<and> ln_phase (sr_links s ! i) = Serving
           then s\<lparr>sr_links := (sr_links s)[i := (sr_links s ! i)\<lparr>ln_phase := Draining deadline\<rparr>]\<rparr>
           else s))"

definition link_lost :: "nat \<Rightarrow> serve_role \<Rightarrow> serve_role" where
  "link_lost i s =
     (if i < length (sr_links s) \<and> ln_phase (sr_links s ! i) = Serving then end_link i s else s)"

definition link_drained :: "nat \<Rightarrow> instant \<Rightarrow> serve_role \<Rightarrow> serve_role" where
  "link_drained i now s =
     (if i < length (sr_links s)
      then (case ln_phase (sr_links s ! i) of
              Draining deadline \<Rightarrow>
                (if ln_streams (sr_links s ! i) = [] \<or> deadline \<le> now then end_link i s else s)
            | _ \<Rightarrow> s)
      else s)"

datatype serve_event =
    RoleStop instant
  | Handshake endpoint_id "u8 list"
  | HandshakeFailed
  | LinkStart nat
  | LinkStream nat
  | LinkStop nat
  | LinkLost nat
  | LinkDrained nat instant
  | OnStream nat nat stream_event

fun serve_step :: "(u8 list \<Rightarrow> string) \<Rightarrow> serve_event \<Rightarrow> serve_role \<Rightarrow> serve_role" where
  "serve_step hex (RoleStop now) s =
     (case begin_drain now (sr_stop s, sr_ctx s) of (stop, ctx) \<Rightarrow> s\<lparr>sr_stop := stop, sr_ctx := ctx\<rparr>)"
| "serve_step hex (Handshake peer alpn) s =
     (case sr_stop s of
        Some _ \<Rightarrow> s
      | None \<Rightarrow>
          (case hm_get (sr_targets s) alpn of
             None \<Rightarrow> s
           | Some _ \<Rightarrow>
               s\<lparr>sr_links := sr_links s @ [\<lparr>ln_peer = peer, ln_service = service_name hex alpn, ln_alpn = alpn,
                                            ln_phase = Spawned, ln_streams = []\<rparr>]\<rparr>))"
| "serve_step hex HandshakeFailed s = s"
| "serve_step hex (LinkStart i) s =
     (if i < length (sr_links s) \<and> ln_phase (sr_links s ! i) = Spawned
      then (let l = sr_links s ! i in
            s\<lparr>sr_tracker := track (ln_peer l) (ln_service l) (sr_tracker s),
              sr_links := (sr_links s)[i := l\<lparr>ln_phase := Serving\<rparr>]\<rparr>)
      else s)"
| "serve_step hex (LinkStream i) s = admit_stream i s"
| "serve_step hex (LinkStop i) s = link_sees_stop i s"
| "serve_step hex (LinkLost i) s = link_lost i s"
| "serve_step hex (LinkDrained i now) s = link_drained i now s"
| "serve_step hex (OnStream i j ev) s =
     (if i < length (sr_links s) \<and> j < length (ln_streams (sr_links s ! i))
      then (case stream_step ev (ln_streams (sr_links s ! i) ! j) of
              None \<Rightarrow> end_stream i j s
            | Some ph \<Rightarrow>
                s\<lparr>sr_links := (sr_links s)[i := (sr_links s ! i)\<lparr>ln_streams := (ln_streams (sr_links s ! i))[j := ph]\<rparr>]\<rparr>)
      else s)"

section \<open>The accounting is exact\<close>

lemma sum_list_update_add:
  "i < length xs \<Longrightarrow> sum_list (map f (xs[i := x])) + f (xs ! i) = sum_list (map f xs) + (f x :: 'b::comm_monoid_add)"
  by (induction xs arbitrary: i) (auto split: nat.splits simp: ac_simps)

definition stream_weight :: "u8 list \<Rightarrow> link \<Rightarrow> nat" where
  "stream_weight alpn l = (if ln_alpn l = alpn then length (ln_streams l) else 0)"

definition conn_weight :: "link \<Rightarrow> (endpoint_id \<times> string) multiset" where
  "conn_weight l =
     (case ln_phase l of Serving \<Rightarrow> {#(ln_peer l, ln_service l)#} | Draining _ \<Rightarrow> {#(ln_peer l, ln_service l)#}
      | _ \<Rightarrow> {#})"

definition live_streams :: "u8 list \<Rightarrow> link list \<Rightarrow> nat" where
  "live_streams alpn ls = sum_list (map (stream_weight alpn) ls)"

definition live_conns :: "link list \<Rightarrow> (endpoint_id \<times> string) multiset" where
  "live_conns ls = sum_list (map conn_weight ls)"

lemma live_streams_update:
  "i < length ls \<Longrightarrow> live_streams a (ls[i := l]) + stream_weight a (ls ! i) = live_streams a ls + stream_weight a l"
  by (simp add: live_streams_def sum_list_update_add)

lemma live_conns_update:
  "i < length ls \<Longrightarrow> live_conns (ls[i := l]) + conn_weight (ls ! i) = live_conns ls + conn_weight l"
  by (simp add: live_conns_def sum_list_update_add)

lemma live_append [simp]:
  "live_streams a (ls @ [l]) = live_streams a ls + stream_weight a l"
  "live_conns (ls @ [l]) = live_conns ls + conn_weight l"
  by (simp_all add: live_streams_def live_conns_def)

definition counters_exact :: "targets \<Rightarrow> link list \<Rightarrow> bool" where
  "counters_exact ts ls \<longleftrightarrow>
     (\<forall>a t. hm_get ts a = Some t \<longrightarrow> st_active_streams t = word_of_nat (live_streams a ls))"

definition link_ok :: "link \<Rightarrow> bool" where
  "link_ok l \<longleftrightarrow> (ln_phase l = Spawned \<or> ln_phase l = LinkEnded \<longrightarrow> ln_streams l = [])"

definition serve_inv :: "serve_role \<Rightarrow> bool" where
  "serve_inv s \<longleftrightarrow> counters_exact (sr_targets s) (sr_links s)
     \<and> conns.represents (sr_tracker s) (live_conns (sr_links s)) \<and> list_all link_ok (sr_links s)"

lemma add_active_get:
  "hm_get (add_active a n ts) b =
     (if b = a then map_option (\<lambda>t. t\<lparr>st_active_streams := st_active_streams t + n\<rparr>) (hm_get ts a) else hm_get ts b)"
  by (auto simp: add_active_def split: option.splits)

lemma conn_weight_streams [simp]: "conn_weight (l\<lparr>ln_streams := ss\<rparr>) = conn_weight l"
  by (simp add: conn_weight_def split: link_phase.split)

lemma word_shift:
  fixes x :: u64
  assumes "x + a = y + b" and "b = a + n"
  shows "x = y + n"
proof -
  have "x + a = (y + n) + a" using assms by (simp add: ac_simps)
  then show ?thesis by simp
qed

lemma counters_update:
  assumes "counters_exact ts ls" and i: "i < length ls" and a: "ln_alpn l = ln_alpn (ls ! i)"
    and n: "n = word_of_nat (length (ln_streams l)) - word_of_nat (length (ln_streams (ls ! i)))"
  shows "counters_exact (add_active (ln_alpn (ls ! i)) n ts) (ls[i := l])"
proof -
  have "(word_of_nat (live_streams b (ls[i := l])) :: u64) =
      word_of_nat (live_streams b ls) + (if b = ln_alpn (ls ! i) then n else 0)" for b
  proof -
    have "(word_of_nat (live_streams b (ls[i := l]) + stream_weight b (ls ! i)) :: u64) =
        word_of_nat (live_streams b ls + stream_weight b l)"
      using live_streams_update [OF i, of b l] by simp
    then have eq: "word_of_nat (live_streams b (ls[i := l])) + (word_of_nat (stream_weight b (ls ! i)) :: u64) =
        word_of_nat (live_streams b ls) + word_of_nat (stream_weight b l)"
      by simp
    have "(word_of_nat (stream_weight b l) :: u64) - word_of_nat (stream_weight b (ls ! i)) =
        (if b = ln_alpn (ls ! i) then n else 0)"
      by (simp add: a n stream_weight_def)
    then have w: "(word_of_nat (stream_weight b l) :: u64) =
        word_of_nat (stream_weight b (ls ! i)) + (if b = ln_alpn (ls ! i) then n else 0)"
      by (simp add: diff_eq_eq add.commute)
    from word_shift [OF eq w] show ?thesis .
  qed
  with assms(1) show ?thesis
    by (auto simp: counters_exact_def add_active_get split: if_splits)
qed

lemma counters_keep:
  assumes "counters_exact ts ls" and "i < length ls" and "ln_alpn l = ln_alpn (ls ! i)"
    and "length (ln_streams l) = length (ln_streams (ls ! i))"
  shows "counters_exact ts (ls[i := l])"
proof -
  have "live_streams b (ls[i := l]) = live_streams b ls" for b
    using live_streams_update [OF assms(2), of b l] assms(3,4) by (auto simp: stream_weight_def split: if_splits)
  with assms(1) show ?thesis by (simp add: counters_exact_def)
qed

lemma conns_keep:
  "i < length ls \<Longrightarrow> conn_weight l = conn_weight (ls ! i) \<Longrightarrow> live_conns (ls[i := l]) = live_conns ls"
  using live_conns_update [of i ls l] by simp

lemma list_all_update: "list_all P xs \<Longrightarrow> P x \<Longrightarrow> list_all P (xs[i := x])"
  by (metis list_all_length nth_list_update length_list_update nth_list_update_neq)

lemma list_all_nth: "list_all P xs \<Longrightarrow> i < length xs \<Longrightarrow> P (xs ! i)"
  by (simp add: list_all_length)

lemma end_link_inv:
  assumes inv: "serve_inv s" and i: "i < length (sr_links s)"
    and ph: "conn_weight (sr_links s ! i) = {#(ln_peer (sr_links s ! i), ln_service (sr_links s ! i))#}"
  shows "serve_inv (end_link i s)"
proof -
  let ?l = "sr_links s ! i"
  let ?l' = "?l\<lparr>ln_phase := LinkEnded, ln_streams := []\<rparr>"
  have "counters_exact (add_active (ln_alpn ?l) (- word_of_nat (length (ln_streams ?l))) (sr_targets s))
      ((sr_links s)[i := ?l'])"
    using inv i by (intro counters_update) (auto simp: serve_inv_def)
  moreover have "live_conns ((sr_links s)[i := ?l']) = live_conns (sr_links s) - {#(ln_peer ?l, ln_service ?l)#}"
  proof -
    have "live_conns ((sr_links s)[i := ?l']) + {#(ln_peer ?l, ln_service ?l)#} = live_conns (sr_links s)"
      using live_conns_update [OF i, of ?l'] ph
      by (simp add: conn_weight_def [of "(sr_links s ! i)\<lparr>ln_phase := LinkEnded\<rparr>"])
    then show ?thesis by (metis add_diff_cancel_right')
  qed
  moreover have "conns.represents (untrack (ln_peer ?l) (ln_service ?l) (sr_tracker s))
      (live_conns (sr_links s) - {#(ln_peer ?l, ln_service ?l)#})"
    using conns.represents_decr [of "sr_tracker s" "live_conns (sr_links s)" "(ln_peer ?l, ln_service ?l)"] inv
    by (simp add: serve_inv_def)
  moreover have "list_all link_ok ((sr_links s)[i := ?l'])"
    using inv by (intro list_all_update) (auto simp: serve_inv_def link_ok_def)
  ultimately show ?thesis
    by (simp add: end_link_def Let_def serve_inv_def)
qed

lemma relink_inv:
  assumes inv: "serve_inv s" and i: "i < length (sr_links s)"
    and l: "ln_alpn l = ln_alpn (sr_links s ! i)" "conn_weight l = conn_weight (sr_links s ! i)" "link_ok l"
    and n: "n = word_of_nat (length (ln_streams l)) - word_of_nat (length (ln_streams (sr_links s ! i)))"
  shows "serve_inv (s\<lparr>sr_targets := add_active (ln_alpn (sr_links s ! i)) n (sr_targets s),
                      sr_links := (sr_links s)[i := l]\<rparr>)"
  using inv i l counters_update [OF _ i l(1) n, of "sr_targets s"] conns_keep [OF i l(2)]
  by (simp add: serve_inv_def list_all_update)

lemma relink_keep_inv:
  assumes inv: "serve_inv s" and i: "i < length (sr_links s)"
    and l: "ln_alpn l = ln_alpn (sr_links s ! i)" "conn_weight l = conn_weight (sr_links s ! i)" "link_ok l"
    and n: "length (ln_streams l) = length (ln_streams (sr_links s ! i))"
  shows "serve_inv (s\<lparr>sr_links := (sr_links s)[i := l]\<rparr>)"
  using inv i l counters_keep [OF _ i l(1) n, of "sr_targets s"] conns_keep [OF i l(2)]
  by (simp add: serve_inv_def list_all_update)

lemma serving_weight:
  "ln_phase l = Serving \<Longrightarrow> conn_weight l = {#(ln_peer l, ln_service l)#}"
  "ln_phase l = Draining d \<Longrightarrow> conn_weight l = {#(ln_peer l, ln_service l)#}"
  by (simp_all add: conn_weight_def)

lemma link_ok_streams: "link_ok l \<Longrightarrow> ln_streams l \<noteq> [] \<Longrightarrow> ln_phase l \<noteq> Spawned \<and> ln_phase l \<noteq> LinkEnded"
  by (auto simp: link_ok_def)

lemma serve_step_inv:
  assumes inv: "serve_inv s"
  shows "serve_inv (serve_step hex ev s)"
proof (cases ev)
  case (RoleStop now)
  then show ?thesis using inv by (simp add: serve_inv_def split: prod.splits)
next
  case (Handshake peer alpn)
  then show ?thesis
    using inv by (auto simp: serve_inv_def counters_exact_def stream_weight_def conn_weight_def link_ok_def split: option.splits)
next
  case HandshakeFailed
  then show ?thesis using inv by simp
next
  case (LinkStart i)
  show ?thesis
  proof (cases "i < length (sr_links s) \<and> ln_phase (sr_links s ! i) = Spawned")
    case True
    let ?l = "sr_links s ! i" and ?ls = "(sr_links s)[i := (sr_links s ! i)\<lparr>ln_phase := Serving\<rparr>]"
    have i: "i < length (sr_links s)" using True ..
    have "live_conns ?ls = add_mset (ln_peer ?l, ln_service ?l) (live_conns (sr_links s))"
      using live_conns_update [OF i, of "?l\<lparr>ln_phase := Serving\<rparr>"] True by (simp add: conn_weight_def)
    moreover have "counters_exact (sr_targets s) ?ls"
      using inv i by (intro counters_keep) (auto simp: serve_inv_def)
    moreover have "conns.represents (track (ln_peer ?l) (ln_service ?l) (sr_tracker s))
        (add_mset (ln_peer ?l, ln_service ?l) (live_conns (sr_links s)))"
      using conns.represents_incr [of "sr_tracker s" "live_conns (sr_links s)" "(ln_peer ?l, ln_service ?l)"] inv
      by (simp add: serve_inv_def)
    moreover have "list_all link_ok ?ls"
      using inv by (intro list_all_update) (auto simp: serve_inv_def link_ok_def)
    ultimately show ?thesis using True by (simp add: LinkStart Let_def serve_inv_def)
  next
    case False
    then show ?thesis using inv unfolding LinkStart serve_step.simps by (simp only: if_False)
  qed
next
  case (LinkStream i)
  show ?thesis
    unfolding LinkStream serve_step.simps admit_stream_def Let_def using inv
    by (simp add: relink_inv link_ok_def)
next
  case (LinkStop i)
  show ?thesis
    unfolding LinkStop serve_step.simps link_sees_stop_def Let_def using inv
    by (simp add: relink_keep_inv conn_weight_def link_ok_def split: option.splits)
next
  case (LinkLost i)
  show ?thesis
    unfolding LinkLost serve_step.simps link_lost_def using inv by (simp add: end_link_inv serving_weight)
next
  case (LinkDrained i now)
  show ?thesis
    unfolding LinkDrained serve_step.simps link_drained_def using inv
    by (simp add: end_link_inv serving_weight split: link_phase.splits)
next
  case (OnStream i j sev)
  show ?thesis
  proof (cases "i < length (sr_links s) \<and> j < length (ln_streams (sr_links s ! i))")
    case True
    then have i: "i < length (sr_links s)" and j: "j < length (ln_streams (sr_links s ! i))" by auto
    have ok: "link_ok (sr_links s ! i)" using inv i by (simp add: serve_inv_def list_all_nth)
    from j have "ln_streams (sr_links s ! i) \<noteq> []" by auto
    from link_ok_streams [OF ok this]
    have ph: "ln_phase (sr_links s ! i) \<noteq> Spawned" "ln_phase (sr_links s ! i) \<noteq> LinkEnded" by auto
    have del: "serve_inv (end_stream i j s)"
      unfolding end_stream_def Let_def using j ph
      by (intro relink_inv inv i) (auto simp: link_ok_def of_nat_diff)
    show ?thesis
      unfolding OnStream serve_step.simps using True inv del ph
      by (auto intro!: relink_keep_inv simp: link_ok_def split: option.splits)
  next
    case False
    then show ?thesis using inv unfolding OnStream serve_step.simps by (simp only: if_False)
  qed
qed

lemma serve_run_inv: "serve_inv s \<Longrightarrow> serve_inv (fold (serve_step hex) evs s)"
  by (induction evs arbitrary: s) (simp_all add: serve_step_inv)

lemma build_targets_zero:
  "(\<forall>a t. hm_get ts a = Some t \<longrightarrow> st_active_streams t = 0) \<Longrightarrow>
   hm_get (fold (\<lambda>svc. hm_insert (alpn_for (ss_name svc))
             (service_target_new (format_addr (ss_host svc) (ss_port svc)) (ss_protocol svc) (ss_udp svc))) svcs ts) a
     = Some t \<Longrightarrow> st_active_streams t = 0"
proof (induction svcs arbitrary: ts)
  case (Cons svc svcs)
  show ?case
    by (rule Cons.IH [OF _ Cons.prems(2) [unfolded fold_Cons comp_apply]])
      (use Cons.prems(1) in \<open>auto simp: service_target_new_def split: if_splits\<close>)
qed auto

lemma build_targets_dom:
  "svc \<in> set svcs \<or> hm_get ts (alpn_for (ss_name svc)) \<noteq> None \<Longrightarrow>
   hm_get (fold (\<lambda>svc. hm_insert (alpn_for (ss_name svc))
             (service_target_new (format_addr (ss_host svc) (ss_port svc)) (ss_protocol svc) (ss_udp svc))) svcs ts)
     (alpn_for (ss_name svc)) \<noteq> None"
  by (induction svcs arbitrary: ts) auto

lemma serve_start_inv: "serve_inv (serve_role_start svcs)"
  using build_targets_zero [of "[]" svcs] conns_empty
  by (simp add: serve_inv_def serve_role_start_def counters_exact_def live_streams_def live_conns_def build_targets_def)

lemma end_link_dom: "hm_get (sr_targets (end_link i s)) a = None \<longleftrightarrow> hm_get (sr_targets s) a = None"
  by (simp add: end_link_def Let_def add_active_get)

lemma end_stream_dom: "hm_get (sr_targets (end_stream i j s)) a = None \<longleftrightarrow> hm_get (sr_targets s) a = None"
  by (simp add: end_stream_def Let_def add_active_get)

lemma serve_step_dom: "hm_get (sr_targets (serve_step hex ev s)) a = None \<longleftrightarrow> hm_get (sr_targets s) a = None"
proof (cases ev)
  case (LinkStart i)
  show ?thesis unfolding LinkStart serve_step.simps by (simp add: Let_def)
next
  case (LinkStream i)
  show ?thesis unfolding LinkStream serve_step.simps admit_stream_def Let_def by (simp add: add_active_get)
next
  case (LinkLost i)
  show ?thesis unfolding LinkLost serve_step.simps link_lost_def by (simp add: end_link_dom)
next
  case (LinkDrained i now)
  show ?thesis unfolding LinkDrained serve_step.simps link_drained_def by (simp add: end_link_dom split: link_phase.split)
next
  case (OnStream i j sev)
  show ?thesis unfolding OnStream serve_step.simps by (simp add: end_stream_dom split: option.split)
qed (simp_all add: link_sees_stop_def split: option.split prod.split)

lemma serve_run_dom:
  "hm_get (sr_targets (fold (serve_step hex) evs s)) a = None \<longleftrightarrow> hm_get (sr_targets s) a = None"
  by (induction evs arbitrary: s) (simp_all add: serve_step_dom)

text \<open>C7: what Serve reports is exact. After any interleaving of handshakes, connection starts,
streams, losses, stops and drains, the \<open>active_connections\<close> of every configured service is the
number of its live stream tasks (modulo the counter's width), and the connections listed are
exactly those of the live connection tasks: aborts, failures and drains leak neither.\<close>

theorem serve_accounting:
  fixes svcs evs hex
  defines "s \<equiv> fold (serve_step hex) evs (serve_role_start svcs)"
  shows "map so_active_connections (map (render_row (sr_targets s)) (status_rows svcs))
      = map (\<lambda>svc. word_of_nat (live_streams (alpn_for (ss_name svc)) (sr_links s))) svcs
    \<and> tracker_snapshot (sr_tracker s) = spec_snapshot (live_conns (sr_links s))"
proof -
  have inv: "serve_inv s"
    using serve_run_inv [OF serve_start_inv] by (simp add: s_def)
  have "hm_get (sr_targets s) (alpn_for (ss_name svc)) \<noteq> None" if "svc \<in> set svcs" for svc
    using build_targets_dom [of svc svcs "[]"] that
    by (simp add: s_def serve_run_dom serve_role_start_def build_targets_def)
  then have "(case hm_get (sr_targets s) (alpn_for (ss_name svc)) of None \<Rightarrow> 0 | Some t \<Rightarrow> st_active_streams t)
      = word_of_nat (live_streams (alpn_for (ss_name svc)) (sr_links s))" if "svc \<in> set svcs" for svc
    using that inv by (fastforce simp: serve_inv_def counters_exact_def)
  with inv show ?thesis
    by (simp add: render_row_def status_rows_def serve_inv_def snapshot_refines)
qed

section \<open>Stopping\<close>

lemma stop_stays: "sr_stop s = Some d \<Longrightarrow> sr_stop (serve_step hex ev s) = Some d"
  by (cases ev)
    (auto simp: begin_drain_def end_link_def end_stream_def Let_def admit_stream_def link_sees_stop_def link_lost_def link_drained_def
      split: option.splits link_phase.splits)

lemma live_streams_le:
  "i < length ls \<Longrightarrow> ln_alpn l = ln_alpn (ls ! i) \<Longrightarrow> length (ln_streams l) \<le> length (ln_streams (ls ! i)) \<Longrightarrow>
     live_streams a (ls[i := l]) \<le> live_streams a ls"
  using live_streams_update [of i ls a l] by (auto simp: stream_weight_def split: if_splits)

lemma sealed_step:
  assumes "sr_stop s = Some d"
  shows "length (sr_links (serve_step hex ev s)) = length (sr_links s)
    \<and> live_streams a (sr_links (serve_step hex ev s)) \<le> live_streams a (sr_links s)"
proof -
  have end_link: "length (sr_links (end_link i s)) = length (sr_links s)
      \<and> live_streams a (sr_links (end_link i s)) \<le> live_streams a (sr_links s)"
    if "i < length (sr_links s)" for i
    using that by (simp add: end_link_def Let_def live_streams_le)
  have end_stream: "length (sr_links (end_stream i j s)) = length (sr_links s)
      \<and> live_streams a (sr_links (end_stream i j s)) \<le> live_streams a (sr_links s)"
    if "i < length (sr_links s)" for i j
    using that by (simp add: end_stream_def Let_def live_streams_le)
  show ?thesis
  proof (cases ev)
    case (LinkStart i)
    show ?thesis unfolding LinkStart serve_step.simps Let_def by (simp add: live_streams_le)
  next
    case (LinkStream i)
    show ?thesis unfolding LinkStream serve_step.simps admit_stream_def Let_def by (simp add: assms)
  next
    case (LinkStop i)
    show ?thesis unfolding LinkStop serve_step.simps link_sees_stop_def by (simp add: assms live_streams_le)
  next
    case (LinkLost i)
    show ?thesis unfolding LinkLost serve_step.simps link_lost_def by (simp add: end_link)
  next
    case (LinkDrained i now)
    show ?thesis unfolding LinkDrained serve_step.simps link_drained_def by (simp add: end_link split: link_phase.split)
  next
    case (OnStream i j sev)
    show ?thesis unfolding OnStream serve_step.simps by (simp add: end_stream live_streams_le split: option.split)
  qed (use assms in \<open>simp_all split: option.split prod.split\<close>)
qed

lemma sealed_run:
  "sr_stop s = Some d \<Longrightarrow>
     sr_stop (fold (serve_step hex) evs s) = Some d
   \<and> length (sr_links (fold (serve_step hex) evs s)) = length (sr_links s)
   \<and> live_streams a (sr_links (fold (serve_step hex) evs s)) \<le> live_streams a (sr_links s)"
proof (induction evs arbitrary: s)
  case (Cons ev evs)
  from Cons.IH [OF stop_stays [OF Cons.prems, of hex ev]] sealed_step [OF Cons.prems, of hex ev a]
  show ?case by (auto intro: order_trans)
qed simp

text \<open>A stop seals admission. From the stop on, whatever happens, no connection is admitted, no
service gains a stream, and the drain deadline is the one of the first stop.\<close>

theorem stop_seals_admission:
  "sr_stop (fold (serve_step hex) (RoleStop now # evs) s) = (case sr_stop s of Some d \<Rightarrow> Some d | None \<Rightarrow> Some (now + DRAIN_GRACE))
   \<and> length (sr_links (fold (serve_step hex) (RoleStop now # evs) s)) = length (sr_links s)
   \<and> live_streams a (sr_links (fold (serve_step hex) (RoleStop now # evs) s)) \<le> live_streams a (sr_links s)"
proof (cases "sr_stop s")
  case None
  then have "sr_stop (serve_step hex (RoleStop now) s) = Some (now + DRAIN_GRACE)"
    and l: "sr_links (serve_step hex (RoleStop now) s) = sr_links s"
    by (simp_all add: begin_drain_def Let_def)
  from sealed_run [OF this(1), of hex evs a] show ?thesis by (simp add: None l del: serve_step.simps)
next
  case (Some d)
  then have "sr_stop (serve_step hex (RoleStop now) s) = Some d"
    and l: "sr_links (serve_step hex (RoleStop now) s) = sr_links s"
    by (simp_all add: begin_drain_def)
  from sealed_run [OF this(1), of hex evs a] show ?thesis by (simp add: Some l del: serve_step.simps)
qed

text \<open>A connection that drains does so against the one deadline of the role.\<close>

definition drains_at_stop :: "serve_role \<Rightarrow> bool" where
  "drains_at_stop s \<longleftrightarrow> (\<forall>l \<in> set (sr_links s). \<forall>d. ln_phase l = Draining d \<longrightarrow> sr_stop s = Some d)"

lemma drains_update:
  "drains_at_stop s \<Longrightarrow> (\<And>d. ln_phase l = Draining d \<Longrightarrow> sr_stop s = Some d) \<Longrightarrow>
     sr_links s' = (sr_links s)[i := l] \<Longrightarrow> sr_stop s' = sr_stop s \<Longrightarrow> drains_at_stop s'"
  unfolding drains_at_stop_def using set_update_subset_insert [of "sr_links s" i l] by auto

lemma drains_keep:
  "drains_at_stop s \<Longrightarrow> i < length (sr_links s) \<Longrightarrow> ln_phase l = ln_phase (sr_links s ! i) \<Longrightarrow>
     sr_links s' = (sr_links s)[i := l] \<Longrightarrow> sr_stop s' = sr_stop s \<Longrightarrow> drains_at_stop s'"
proof -
  assume a: "drains_at_stop s" "i < length (sr_links s)" "ln_phase l = ln_phase (sr_links s ! i)"
    "sr_links s' = (sr_links s)[i := l]" "sr_stop s' = sr_stop s"
  have "sr_stop s = Some d" if "ln_phase l = Draining d" for d
    using a(1-3) that by (metis drains_at_stop_def nth_mem)
  from drains_update [OF a(1) this a(4,5)] show ?thesis .
qed

lemma drains_step:
  assumes "drains_at_stop s"
  shows "drains_at_stop (serve_step hex ev s)"
proof -
  have end_link: "drains_at_stop (end_link i s)" for i
    by (rule drains_update [OF assms, of "(sr_links s ! i)\<lparr>ln_phase := LinkEnded, ln_streams := []\<rparr>" _ i])
      (auto simp: end_link_def Let_def)
  show ?thesis
  proof (cases ev)
    case (RoleStop now)
    with assms show ?thesis
      by (auto simp: drains_at_stop_def begin_drain_def Let_def split: option.splits prod.splits)
  next
    case (Handshake peer alpn)
    with assms show ?thesis by (auto simp: drains_at_stop_def split: option.splits)
  next
    case (LinkStart i)
    with assms show ?thesis
      by (auto simp: Let_def intro: drains_update [OF assms, of "(sr_links s ! i)\<lparr>ln_phase := Serving\<rparr>" _ i])
  next
    case (LinkStream i)
    with assms show ?thesis
      by (auto simp: Let_def admit_stream_def intro!: drains_keep [OF assms, of i "(sr_links s ! i)\<lparr>ln_streams := ln_streams (sr_links s ! i) @ [ConnectingLocal]\<rparr>"]
          split: option.splits)
  next
    case (LinkStop i)
    with assms show ?thesis
      by (auto simp: link_sees_stop_def split: option.splits
          intro: drains_update [OF assms, of "(sr_links s ! i)\<lparr>ln_phase := Draining (the (sr_stop s))\<rparr>" _ i])
  next
    case (LinkLost i)
    with assms show ?thesis by (simp add: end_link link_lost_def)
  next
    case (LinkDrained i now)
    with assms show ?thesis by (simp add: end_link link_drained_def split: link_phase.split)
  next
    case (OnStream i j sev)
    have "drains_at_stop (end_stream i j s)" if "i < length (sr_links s)"
      by (rule drains_keep [OF assms that]) (auto simp: end_stream_def Let_def)
    moreover have "drains_at_stop (s\<lparr>sr_links := (sr_links s)[i := (sr_links s ! i)\<lparr>ln_streams := x\<rparr>]\<rparr>)"
      if "i < length (sr_links s)" for x
      by (rule drains_keep [OF assms that]) auto
    ultimately show ?thesis using assms by (simp add: OnStream split: option.split)
  qed (use assms in simp_all)
qed

lemma drains_run: "drains_at_stop s \<Longrightarrow> drains_at_stop (fold (serve_step hex) evs s)"
  by (induction evs arbitrary: s) (simp_all add: drains_step del: serve_step.simps)

text \<open>Every supervisor can end by the deadline, whatever its streams do: its own three steps are enough.\<close>

definition finish_link :: "instant \<Rightarrow> nat \<Rightarrow> serve_event list" where
  "finish_link d i = [LinkStart i, LinkStop i, LinkDrained i d]"

lemma finish_link_ends:
  assumes "sr_stop s = Some d" and "i < length (sr_links s)" and "drains_at_stop s"
  shows "ln_phase (sr_links (fold (serve_step hex) (finish_link d i) s) ! i) = LinkEnded
    \<and> (\<forall>j. j \<noteq> i \<longrightarrow> sr_links (fold (serve_step hex) (finish_link d i) s) ! j = sr_links s ! j)"
proof -
  have "ln_phase (sr_links s ! i) = Draining d' \<Longrightarrow> d' = d" for d'
    using assms by (auto simp: drains_at_stop_def)
  with assms(1,2) show ?thesis
    by (cases "ln_phase (sr_links s ! i)") (auto simp: finish_link_def end_link_def Let_def admit_stream_def link_sees_stop_def link_lost_def link_drained_def)
qed

lemma finish_all_ends:
  assumes "sr_stop s = Some d" and "drains_at_stop s" and "n \<le> length (sr_links s)"
  shows "\<forall>i < n. ln_phase (sr_links (fold (serve_step hex) (concat (map (finish_link d) [0..<n])) s) ! i) = LinkEnded"
  using assms(3)
proof (induction n)
  case (Suc n)
  let ?s = "fold (serve_step hex) (concat (map (finish_link d) [0..<n])) s"
  have s: "sr_stop ?s = Some d" "length (sr_links ?s) = length (sr_links s)"
    using sealed_run [OF assms(1)] by simp_all
  from finish_link_ends [OF s(1) _ drains_run [OF assms(2)], of n hex] s(2) Suc.prems
  have "ln_phase (sr_links (fold (serve_step hex) (finish_link d n) ?s) ! n) = LinkEnded"
    "\<forall>j. j \<noteq> n \<longrightarrow> sr_links (fold (serve_step hex) (finish_link d n) ?s) ! j = sr_links ?s ! j"
    by auto
  with Suc.IH Suc.prems show ?case
    by (auto simp: less_Suc_eq)
qed simp

lemma sum_list_zero: "(\<And>x. x \<in> set xs \<Longrightarrow> f x = 0) \<Longrightarrow> sum_list (map f xs) = (0 :: 'b::monoid_add)"
  by (induction xs) auto

text \<open>C8: Serve always can stop cleanly, and then nothing is left. From every reachable state with
the stop begun, the supervisors' own steps end every connection at the drain deadline, whatever its
streams are doing; then no connection is listed and every service's counter is back at zero.\<close>

theorem serve_drains:
  assumes "s = fold (serve_step hex) evs (serve_role_start svcs)" and "sr_stop s = Some d"
    and "s' = fold (serve_step hex) (concat (map (finish_link d) [0..<length (sr_links s)])) s"
  shows "list_all (\<lambda>l. ln_phase l = LinkEnded) (sr_links s') \<and> tracker_snapshot (sr_tracker s') = []
    \<and> (hm_get (sr_targets s') a = Some t \<longrightarrow> st_active_streams t = 0)"
proof -
  have "drains_at_stop (serve_role_start svcs)"
    by (simp add: drains_at_stop_def serve_role_start_def)
  then have "drains_at_stop s" using drains_run by (simp add: assms(1))
  from finish_all_ends [OF assms(2) this le_refl, of hex] sealed_run [OF assms(2)]
  have ended: "list_all (\<lambda>l. ln_phase l = LinkEnded) (sr_links s')"
    by (simp add: assms(3) list_all_length)
  have inv: "serve_inv s'"
    unfolding assms(3,1) by (intro serve_run_inv serve_start_inv)
  have "live_conns (sr_links s') = {#}"
    using ended unfolding live_conns_def
    by (simp add: list_all_iff conn_weight_def sum_list_zero)
  moreover have "live_streams a (sr_links s') = 0"
    unfolding live_streams_def
    by (rule sum_list_zero) (use ended inv in \<open>auto simp: list_all_iff serve_inv_def link_ok_def stream_weight_def\<close>)
  ultimately show ?thesis
    using inv ended by (auto simp: serve_inv_def counters_exact_def snapshot_refines spec_snapshot_def)
qed

definition demo_service :: serve_service_settings where
  "demo_service = \<lparr>ss_name = ''web'', ss_protocol = Tcp, ss_host = ''127.0.0.1'', ss_port = 80,
     ss_udp = \<lparr>idle_timeout = 10, max_flows = 2, max_flows_per_peer = 1, queue_depth = 1\<rparr>\<rparr>"

definition demo_serve_events :: "serve_event list" where
  "demo_serve_events = [Handshake ''peer'' (alpn_for ''web''), LinkStart 0, LinkStream 0, RoleStop 7]"

lemma serve_drains_witness:
  fixes hex :: "u8 list \<Rightarrow> string"
  defines "hex \<equiv> \<lambda>_. ''?''"
  defines "s \<equiv> fold (serve_step hex) demo_serve_events (serve_role_start [demo_service])"
  shows "length (sr_links s) = 1 \<and> live_streams (alpn_for ''web'') (sr_links s) = 1
    \<and> tracker_snapshot (sr_tracker (fold (serve_step hex) (concat (map (finish_link (7 + DRAIN_GRACE)) [0..<1])) s)) = []"
proof -
  have s: "sr_stop s = Some (7 + DRAIN_GRACE) \<and> length (sr_links s) = 1 \<and> live_streams (alpn_for ''web'') (sr_links s) = 1"
    by (simp add: s_def demo_serve_events_def serve_role_start_def build_targets_def demo_service_def
        service_target_new_def channel_def begin_drain_def publish_def Let_def live_streams_def stream_weight_def admit_stream_def)
  with serve_drains [OF s_def [THEN meta_eq_to_obj_eq] _ refl, of "7 + DRAIN_GRACE"] show ?thesis
    by simp
qed

section \<open>The run as a whole\<close>

text \<open>
  What a run meets: what the endpoint says of itself, the host's readiness hook, whether there is
  a status sink and how its initial save goes, when the shutdown resolves, and what the tasks
  still running then do: the stream tasks of each connection, the quarantine sinks, the flush task.
\<close>

record serve_env =
  se_node_id :: string
  se_home_relay :: "string option"
  se_on_ready :: "ready_report \<Rightarrow> string + unit"
  se_sink :: "bool option"
  se_stop_at :: instant
  se_owners :: "task list list"
  se_sinks :: "task list"
  se_flush :: task

definition serve_report :: "serve_env \<Rightarrow> 'sk serve_settings \<Rightarrow> ready_report" where
  "serve_report e s =
     \<lparr>rr_node_id = se_node_id e, rr_home_relay = se_home_relay e, rr_services = serve_ready_services s\<rparr>"

definition run_serve :: "serve_env \<Rightarrow> 'sk serve_settings \<Rightarrow> role_event list \<times> string run_completion \<times> instant" where
  "run_serve e s =
     (case se_on_ready e (serve_report e s) of
        Inl err \<Rightarrow> ([EndpointClosed], \<lparr>rc_result = Inl err, status_quiesced = True\<rparr>, 0)
      | Inr _ \<Rightarrow>
          (let saved = (case se_sink e of None \<Rightarrow> [] | Some ok \<Rightarrow> [SavedStatus ok]);
               (stop, ctx) = begin_drain (se_stop_at e) (channel, channel);
               joined = join_owners (se_stop_at e) (se_stop_at e + DRAIN_GRACE) (se_owners e);
               deadline = (case stop of None \<Rightarrow> joined | Some d \<Rightarrow> d);
               sunk = fst (drain joined deadline (se_sinks e));
               (flushed, quiesced) = (case se_sink e of None \<Rightarrow> (sunk, True) | Some _ \<Rightarrow> stop_flush sunk (se_flush e))
           in (ReportedReady # saved @ [AdmissionOpened, DrainBegan deadline, OwnersJoined, SinksJoined]
                 @ (case se_sink e of None \<Rightarrow> [] | Some _ \<Rightarrow> [FlushStopped quiesced]) @ [EndpointClosed],
               \<lparr>rc_result = Inr (), status_quiesced = quiesced\<rparr>, flushed)))"


end
