(* ===== verification/AccessUdp.thy ===== *)
theory AccessUdp
  imports UdpFlows
begin

text \<open>
  Access's UDP data path (\<open>udp_listen_loop\<close> and \<open>relay_peer_replies\<close> in
  \<open>crates/engine/src/access/run_access.rs\<close>). One service has one local socket, one flow table
  and one cached connection to its peer; a connection is named by its stable identifier, and a
  successful dial yields a fresh one. The receive loop handles one client datagram at a time;
  the reader of the current connection runs beside it, so \<open>access_step\<close> interleaves the turns of
  the two. What the dial, the connection and the peer answer are inputs.

  \<open>au_sent\<close> and \<open>au_replies\<close> trace the calls of \<open>send_datagram\<close> (with the client the payload came
  from) and of \<open>send_to\<close> (with the flow the reply came in on).
\<close>

section \<open>State\<close>

datatype send_result = SendOk | SendConnectionLost | SendFailed

record 'c access_udp =
  au_cached :: "nat option"
  au_next_conn :: nat
  au_current :: "nat option"
  au_reader :: "nat option"
  au_flows :: "'c client_flows"
  au_stats :: udp_stats
  au_sent :: "(nat \<times> flow_id \<times> 'c \<times> u8 list) list"
  au_replies :: "(nat \<times> flow_id \<times> 'c \<times> u8 list) list"
  au_ended :: bool

definition access_udp_start :: "'c access_udp" where
  "access_udp_start =
     \<lparr>au_cached = None, au_next_conn = 0, au_current = None, au_reader = None,
       au_flows = client_flows_default, au_stats = udp_stats_default, au_sent = [], au_replies = [],
       au_ended = False\<rparr>"

section \<open>The receive loop\<close>

text \<open>\<open>get_or_dial\<close> as this loop sees it: the cached connection, or a fresh one, or an error.\<close>

definition udp_get_or_dial :: "bool \<Rightarrow> 'c access_udp \<Rightarrow> nat option \<times> 'c access_udp" where
  "udp_get_or_dial dial_ok s =
     (case au_cached s of
        Some k \<Rightarrow> (Some k, s)
      | None \<Rightarrow>
          (if dial_ok
           then (Some (au_next_conn s), s\<lparr>au_cached := Some (au_next_conn s), au_next_conn := au_next_conn s + 1\<rparr>)
           else (None, s)))"

definition udp_invalidate :: "nat \<Rightarrow> 'c access_udp \<Rightarrow> 'c access_udp" where
  "udp_invalidate failed s = (if au_cached s = Some failed then s\<lparr>au_cached := None\<rparr> else s)"

text \<open>A new connection is a new incarnation: the old reader is gone, no flow survives.\<close>

definition new_incarnation :: "nat \<Rightarrow> 'c access_udp \<Rightarrow> 'c access_udp" where
  "new_incarnation k s =
     (if au_current s \<noteq> Some k
      then s\<lparr>au_flows := client_flows_default, au_stats := set_active_flows 0 (au_stats s),
             au_reader := Some k, au_current := Some k\<rparr>
      else s)"

definition forward_datagram ::
    "udp_limits \<Rightarrow> 'c \<Rightarrow> u8 list \<Rightarrow> instant \<Rightarrow> nat \<Rightarrow> send_result \<Rightarrow> 'c access_udp \<Rightarrow> 'c access_udp" where
  "forward_datagram limits client payload now k send s =
     (let (r, flows) = touch client now (max_flows limits) (au_flows s); s1 = s\<lparr>au_flows := flows\<rparr>
      in case r of
        Inl RefusedCap \<Rightarrow> s1\<lparr>au_stats := record_drop Cap (au_stats s1)\<rparr>
      | Inl RefusedExhausted \<Rightarrow> udp_invalidate k (s1\<lparr>au_stats := record_drop Cap (au_stats s1)\<rparr>)
      | Inr flow \<Rightarrow>
          (let s2 = s1\<lparr>au_stats := set_active_flows (client_flows_len flows) (au_stats s1),
                       au_sent := au_sent s1 @ [(k, flow, client, payload)]\<rparr>
           in case send of
                SendOk \<Rightarrow> s2
              | SendConnectionLost \<Rightarrow> udp_invalidate k s2
              | SendFailed \<Rightarrow> s2))"

definition client_datagram ::
    "udp_limits \<Rightarrow> 'c \<Rightarrow> u8 list \<Rightarrow> instant \<Rightarrow> bool \<Rightarrow> nat option \<Rightarrow> send_result \<Rightarrow> 'c access_udp \<Rightarrow> 'c access_udp" where
  "client_datagram limits client payload now dial_ok mds send s =
     (let (dialed, s0) = udp_get_or_dial dial_ok s in
      case dialed of
        None \<Rightarrow> s0
      | Some k \<Rightarrow>
          (let s1 = new_incarnation k s0;
               limit = payload_limit mds;
               s2 = s1\<lparr>au_stats := set_datagram_limit limit (au_stats s1)\<rparr>
           in case limit of
                None \<Rightarrow> s2\<lparr>au_stats := record_drop LimitShrink (au_stats s2)\<rparr>
              | Some l \<Rightarrow>
                  (if l < length payload then s2\<lparr>au_stats := record_drop Oversize (au_stats s2)\<rparr>
                   else forward_datagram limits client payload now k send s2)))"

definition access_sweep :: "udp_limits \<Rightarrow> instant \<Rightarrow> 'c access_udp \<Rightarrow> 'c access_udp" where
  "access_sweep limits now s =
     (let flows = snd (client_expire now (idle_timeout limits) (au_flows s))
      in s\<lparr>au_flows := flows, au_stats := set_active_flows (client_flows_len flows) (au_stats s)\<rparr>)"

section \<open>The reader\<close>

definition relay_peer_reply :: "u8 list \<Rightarrow> instant \<Rightarrow> nat \<Rightarrow> 'c access_udp \<Rightarrow> 'c access_udp" where
  "relay_peer_reply datagram now k s =
     (case decode datagram of
        Inl _ \<Rightarrow> s\<lparr>au_stats := record_drop drop_reason.Malformed (au_stats s)\<rparr>
      | Inr (flow, payload) \<Rightarrow>
          (let (client, flows) = client_of flow now (au_flows s); s1 = s\<lparr>au_flows := flows\<rparr>
           in case client of
                Some c \<Rightarrow> s1\<lparr>au_replies := au_replies s1 @ [(k, flow, c, payload)]\<rparr>
              | None \<Rightarrow> s1\<lparr>au_stats := record_drop UnknownFlow (au_stats s1)\<rparr>))"

section \<open>The service\<close>

datatype 'c access_event =
    AccessStopped
  | AccessSweep instant
  | ClientDatagram 'c "u8 list" instant bool "nat option" send_result
  | ClientRecvError io_error_kind
  | PeerDatagram "u8 list" instant
  | PeerClosed

fun access_step :: "udp_limits \<Rightarrow> 'c access_event \<Rightarrow> 'c access_udp \<Rightarrow> 'c access_udp" where
  "access_step limits AccessStopped s = s\<lparr>au_ended := True, au_reader := None\<rparr>"
| "access_step limits (AccessSweep now) s = (if au_ended s then s else access_sweep limits now s)"
| "access_step limits (ClientDatagram c payload now dial_ok mds send) s =
     (if au_ended s then s else client_datagram limits c payload now dial_ok mds send s)"
| "access_step limits (ClientRecvError k) s = s"
| "access_step limits (PeerDatagram d now) s =
     (case au_reader s of None \<Rightarrow> s | Some k \<Rightarrow> relay_peer_reply d now k s)"
| "access_step limits PeerClosed s = s\<lparr>au_reader := None\<rparr>"

section \<open>Replies reach the client that owns the flow\<close>

text \<open>
  \<open>g k f\<close> is the client flow \<open>f\<close> of connection \<open>k\<close> was issued to. Nothing sent or delivered
  contradicts it, the table of the current incarnation agrees with it, and connections not
  dialled yet have sent nothing.
\<close>

definition sent_ok :: "(nat \<Rightarrow> flow_id \<Rightarrow> 'c) \<Rightarrow> nat \<Rightarrow> (nat \<times> flow_id \<times> 'c \<times> u8 list) list \<Rightarrow> bool" where
  "sent_ok g n sent \<longleftrightarrow> (\<forall>k f c p. (k, f, c, p) \<in> set sent \<longrightarrow> g k f = c \<and> k < n)"

definition replies_ok ::
    "(nat \<Rightarrow> flow_id \<Rightarrow> 'c) \<Rightarrow> (nat \<times> flow_id \<times> 'c \<times> u8 list) list \<Rightarrow> (nat \<times> flow_id \<times> 'c \<times> u8 list) list \<Rightarrow> bool" where
  "replies_ok g sent reps \<longleftrightarrow>
     (\<forall>k f c p. (k, f, c, p) \<in> set reps \<longrightarrow> g k f = c \<and> (\<exists>p'. (k, f, c, p') \<in> set sent))"

definition table_ok ::
    "(nat \<Rightarrow> flow_id \<Rightarrow> 'c) \<Rightarrow> nat \<Rightarrow> 'c client_flows \<Rightarrow> (nat \<times> flow_id \<times> 'c \<times> u8 list) list \<Rightarrow> bool" where
  "table_ok g k fl sent \<longleftrightarrow> owns (g k) fl
     \<and> (\<forall>f c p. (k, f, c, p) \<in> set sent \<longrightarrow> unat (flow_num f) < unat (next_flow fl))
     \<and> (\<forall>f c t. hm_get (by_flow fl) f = Some (c, t) \<longrightarrow> (\<exists>p. (k, f, c, p) \<in> set sent))"

definition table_inv :: "(nat \<Rightarrow> flow_id \<Rightarrow> 'c) \<Rightarrow> 'c access_udp \<Rightarrow> bool" where
  "table_inv g s \<longleftrightarrow>
     (case au_current s of
        None \<Rightarrow> by_flow (au_flows s) = []
      | Some k \<Rightarrow> table_ok g k (au_flows s) (au_sent s) \<and> k < au_next_conn s)"

definition access_inv_at :: "(nat \<Rightarrow> flow_id \<Rightarrow> 'c) \<Rightarrow> 'c access_udp \<Rightarrow> bool" where
  "access_inv_at g s \<longleftrightarrow> client_wf (au_flows s) \<and> table_inv g s
     \<and> (au_reader s = None \<or> au_reader s = au_current s)
     \<and> (au_cached s = None \<or> au_cached s = au_current s)
     \<and> sent_ok g (au_next_conn s) (au_sent s) \<and> replies_ok g (au_sent s) (au_replies s)"

definition access_inv :: "'c access_udp \<Rightarrow> bool" where
  "access_inv s \<longleftrightarrow> (\<exists>g. access_inv_at g s)"

lemma table_inv_cong:
  "au_current s' = au_current s \<Longrightarrow> au_flows s' = au_flows s \<Longrightarrow> au_sent s' = au_sent s \<Longrightarrow>
     au_next_conn s' = au_next_conn s \<Longrightarrow> table_inv g s' = table_inv g s"
  by (simp add: table_inv_def split: option.split)

lemma access_inv_stats [simp]: "access_inv (s\<lparr>au_stats := x\<rparr>) = access_inv s"
  by (simp add: access_inv_def access_inv_at_def table_inv_cong [of "s\<lparr>au_stats := x\<rparr>" s])

lemma access_start_inv: "access_inv access_udp_start"
  by (simp add: access_inv_def access_inv_at_def access_udp_start_def wf_intros table_inv_def sent_ok_def replies_ok_def)
    (simp add: client_flows_default_def)

lemma access_inv_wf: "access_inv s \<Longrightarrow> client_wf (au_flows s)"
  by (auto simp: access_inv_def access_inv_at_def)

lemma invalidate_inv: "access_inv s \<Longrightarrow> access_inv (udp_invalidate k s)"
  by (auto simp: access_inv_def access_inv_at_def udp_invalidate_def table_inv_cong [of "s\<lparr>au_cached := None\<rparr>" s])

lemma table_ok_fresh: "(\<And>f c p. (k, f, c, p) \<notin> set sent) \<Longrightarrow> table_ok g k client_flows_default sent"
  by (simp add: table_ok_def owns_def client_flows_default_def)

lemma dial_inv:
  assumes "access_inv s" and "udp_get_or_dial ok s = (Some k, s0)"
  shows "access_inv (new_incarnation k s0) \<and> au_current (new_incarnation k s0) = Some k"
proof (cases "au_cached s")
  case (Some k')
  with assms have k: "k' = k" "s0 = s" by (auto simp: udp_get_or_dial_def)
  with Some assms(1) have "au_current s = Some k"
    by (auto simp: access_inv_def access_inv_at_def)
  with assms(1) k show ?thesis by (simp add: new_incarnation_def)
next
  case None
  with assms(2) have k: "k = au_next_conn s" and s0: "s0 = s\<lparr>au_cached := Some k, au_next_conn := k + 1\<rparr>"
    by (auto simp: udp_get_or_dial_def split: if_splits)
  from assms(1) obtain g where g: "access_inv_at g s" by (auto simp: access_inv_def)
  then have cur: "au_current s \<noteq> Some k"
    by (auto simp: access_inv_at_def table_inv_def k)
  have sent: "sent_ok g k (au_sent s)" using g by (simp add: access_inv_at_def k)
  then have "table_ok g k client_flows_default (au_sent s)" and "sent_ok g (Suc k) (au_sent s)"
    by (auto simp: sent_ok_def intro!: table_ok_fresh less_SucI)
  with g have "access_inv_at g (new_incarnation k s0)"
    by (simp add: access_inv_at_def new_incarnation_def cur s0 wf_intros table_inv_def)
  then show ?thesis
    by (auto simp: access_inv_def new_incarnation_def cur s0)
qed

text \<open>A table operation that sends nothing and adds no flow keeps the invariant.\<close>

lemma table_shrinks_inv:
  assumes "access_inv_at g s" and "client_wf fl" and "next_flow fl = next_flow (au_flows s)"
    and sub: "\<And>f c t. hm_get (by_flow fl) f = Some (c, t) \<Longrightarrow> \<exists>t'. hm_get (by_flow (au_flows s)) f = Some (c, t')"
  shows "access_inv_at g (s\<lparr>au_flows := fl\<rparr>)"
proof -
  have "by_flow fl = []" if "by_flow (au_flows s) = []"
  proof -
    have "hm_get (by_flow fl) f = None" for f
      using sub [of f] that by (cases "hm_get (by_flow fl) f") auto
    then show ?thesis
      by (metis hm.len_zero [OF client_wfD(2) [OF assms(2)]] length_0_conv)
  qed
  moreover have "table_ok g k fl (au_sent s)" if "table_ok g k (au_flows s) (au_sent s)" for k
    using that sub unfolding table_ok_def owns_def assms(3) by metis
  ultimately have "table_inv g (s\<lparr>au_flows := fl\<rparr>)"
    using assms(1) by (simp add: access_inv_at_def table_inv_def split: option.splits)
  with assms(1,2) show ?thesis by (simp add: access_inv_at_def)
qed

lemma client_expire_next: "next_flow (snd (client_expire now idle fl)) = next_flow fl"
  by (simp add: client_expire_def Let_def)

lemma sweep_inv:
  assumes "access_inv s"
  shows "access_inv (access_sweep limits now s)"
proof -
  from assms obtain g where g: "access_inv_at g s" by (auto simp: access_inv_def)
  let ?fl = "snd (client_expire now (idle_timeout limits) (au_flows s))"
  have wf: "client_wf (au_flows s)" by (rule access_inv_wf [OF assms])
  have "access_inv_at g (s\<lparr>au_flows := ?fl\<rparr>)"
    by (rule table_shrinks_inv [OF g client_expire_wf [OF wf]])
      (auto simp: client_expire_lookup [OF wf] client_expire_next split: option.splits if_splits)
  then have "access_inv (s\<lparr>au_flows := ?fl\<rparr>)" by (auto simp: access_inv_def)
  then show ?thesis by (simp add: access_sweep_def Let_def)
qed

lemma touch_by_flow:
  assumes "client_wf s" and "touch c now mx s = (Inr f, s')" and "hm_get (by_flow s') f' = Some (c', t)"
  shows "f' = f \<and> c' = c \<or> (\<exists>t'. hm_get (by_flow s) f' = Some (c', t'))"
  using assms(2,3) by (rule_tac touch_cases [OF assms(1), of c now mx]) (auto split: if_splits)

lemma touch_refused_same: "client_wf s \<Longrightarrow> touch c now mx s = (Inl e, s') \<Longrightarrow> s' = s"
  by (rule touch_cases [of s c now mx]) auto

lemma send_inv:
  assumes inv: "access_inv s" and cur: "au_current s = Some k"
    and tch: "touch client now mx (au_flows s) = (Inr flow, fl)"
  shows "access_inv (s\<lparr>au_flows := fl, au_sent := au_sent s @ [(k, flow, client, payload)]\<rparr>)"
proof -
  from inv obtain g where g: "access_inv_at g s" by (auto simp: access_inv_def)
  have wf: "client_wf (au_flows s)" by (rule access_inv_wf [OF inv])
  have ok: "table_ok g k (au_flows s) (au_sent s)" and k: "k < au_next_conn s"
    using g cur by (auto simp: access_inv_at_def table_inv_def)
  have st: "client_step (Touch client now mx) (au_flows s) = ([(client, flow)], fl)"
    by (simp add: tch)
  have gk: "owns (g k) (au_flows s)" using ok by (simp add: table_ok_def)
  from owns_step [OF wf gk, of "Touch client now mx", unfolded st fst_conv snd_conv] obtain gk where
    old: "\<And>f. unat (flow_num f) < unat (next_flow (au_flows s)) \<Longrightarrow> gk f = g k f"
    and own: "owns gk fl" and new: "gk flow = client" "unat (flow_num flow) < unat (next_flow fl)"
    by auto
  let ?g = "g(k := gk)" and ?sent = "au_sent s @ [(k, flow, client, payload)]"
  have agree: "?g k' f = g k' f" if "(k', f, c, p) \<in> set (au_sent s)" for k' f c p
    using that ok old by (auto simp: table_ok_def)
  have le: "unat (next_flow (au_flows s)) \<le> unat (next_flow fl)"
    using client_step_next [OF wf, of "Touch client now mx"] st by simp
  have s1: "sent_ok ?g (au_next_conn s) ?sent"
    using g agree k new by (fastforce simp: access_inv_at_def sent_ok_def)
  have r1: "replies_ok ?g ?sent (au_replies s)"
    using g agree unfolding access_inv_at_def replies_ok_def by (metis Un_iff set_append)
  have "table_ok ?g k fl ?sent"
    unfolding table_ok_def
  proof (intro conjI allI impI)
    show "owns (?g k) fl" using own by simp
    show "unat (flow_num f) < unat (next_flow fl)" if "(k, f, c, p) \<in> set ?sent" for f c p
      using that ok le new by (auto simp: table_ok_def intro: less_le_trans)
    show "\<exists>p. (k, f, c, p) \<in> set ?sent" if "hm_get (by_flow fl) f = Some (c, t)" for f c t
      using touch_by_flow [OF wf tch that] ok by (fastforce simp: table_ok_def)
  qed
  then have "table_inv ?g (s\<lparr>au_flows := fl, au_sent := ?sent\<rparr>)"
    using k by (simp add: table_inv_def cur)
  moreover have "client_wf fl"
    using client_step_wf [OF wf, of "Touch client now mx"] st by simp
  ultimately have "access_inv_at ?g (s\<lparr>au_flows := fl, au_sent := ?sent\<rparr>)"
    using g s1 r1 by (simp add: access_inv_at_def)
  then show ?thesis by (auto simp: access_inv_def)
qed

lemma forward_inv:
  assumes inv: "access_inv s" and cur: "au_current s = Some k"
  shows "access_inv (forward_datagram limits client payload now k send s)"
proof (cases "touch client now (max_flows limits) (au_flows s)")
  case (Pair r fl)
  show ?thesis
  proof (cases r)
    case (Inl e)
    with Pair touch_refused_same [OF access_inv_wf [OF inv]] have "fl = au_flows s" by simp
    with inv Pair Inl show ?thesis
      by (auto simp: forward_datagram_def Let_def intro!: invalidate_inv split: refused.split)
  next
    case (Inr flow)
    note sent = send_inv [OF inv cur Pair [unfolded Inr], of payload]
    have "s\<lparr>au_flows := fl, au_stats := x, au_sent := y\<rparr> = s\<lparr>au_flows := fl, au_sent := y\<rparr>\<lparr>au_stats := x\<rparr>" for x y
      by (cases s) simp
    with sent have "access_inv (s\<lparr>au_flows := fl, au_stats := x, au_sent := au_sent s @ [(k, flow, client, payload)]\<rparr>)" for x
      by (simp only: access_inv_stats)
    with Pair Inr show ?thesis
      by (auto simp: forward_datagram_def Let_def intro!: invalidate_inv split: send_result.split)
  qed
qed

lemma datagram_inv:
  assumes inv: "access_inv s"
  shows "access_inv (client_datagram limits client payload now ok mds send s)"
proof (cases "udp_get_or_dial ok s")
  case (Pair r s0)
  show ?thesis
  proof (cases r)
    case None
    with Pair have "s0 = s" by (auto simp: udp_get_or_dial_def split: option.splits if_splits)
    with Pair None inv show ?thesis by (simp add: client_datagram_def)
  next
    case (Some k)
    from dial_inv [OF inv Pair [unfolded Some]] have s1: "access_inv (new_incarnation k s0)"
      "au_current (new_incarnation k s0) = Some k" by auto
    let ?s2 = "(new_incarnation k s0)\<lparr>au_stats := set_datagram_limit (payload_limit mds) (au_stats (new_incarnation k s0))\<rparr>"
    have "access_inv ?s2" "au_current ?s2 = Some k" using s1 by simp_all
    from forward_inv [OF this] \<open>access_inv ?s2\<close> s1 show ?thesis
      by (cases "payload_limit mds") (simp_all add: client_datagram_def Pair Some Let_def)
  qed
qed

lemma relay_inv:
  assumes inv: "access_inv s" and reader: "au_reader s = Some k"
  shows "access_inv (relay_peer_reply d now k s)"
proof (cases "decode d")
  case (Inl e)
  with inv show ?thesis by (simp add: relay_peer_reply_def)
next
  case (Inr fp)
  obtain flow payload where fp: "fp = (flow, payload)" by (cases fp)
  from inv obtain g where g: "access_inv_at g s" by (auto simp: access_inv_def)
  have wf: "client_wf (au_flows s)" by (rule access_inv_wf [OF inv])
  have ok: "table_ok g k (au_flows s) (au_sent s)"
    using g reader by (auto simp: access_inv_at_def table_inv_def split: option.splits)
  show ?thesis
  proof (cases "hm_get (by_flow (au_flows s)) flow")
    case None
    with inv Inr fp show ?thesis by (simp add: relay_peer_reply_def client_of_def)
  next
    case (Some ct)
    obtain c t where ct: "ct = (c, t)" by (cases ct)
    let ?fl = "snd (client_of flow now (au_flows s))"
    have fl: "client_of flow now (au_flows s) = (Some c, ?fl)"
      using Some ct by (simp add: client_of_def)
    have g1: "access_inv_at g (s\<lparr>au_flows := ?fl\<rparr>)"
      by (rule table_shrinks_inv [OF g client_of_wf [OF wf]])
        (use Some ct in \<open>auto simp: client_of_def split: if_splits\<close>)
    from ok Some ct have "g k flow = c" "\<exists>p. (k, flow, c, p) \<in> set (au_sent s)"
      by (auto simp: table_ok_def owns_def)
    with g1 have "access_inv_at g (s\<lparr>au_flows := ?fl, au_replies := au_replies s @ [(k, flow, c, payload)]\<rparr>)"
      by (auto simp: access_inv_at_def replies_ok_def table_inv_def split: option.splits)
    then show ?thesis
      using fl by (auto simp: relay_peer_reply_def Inr fp access_inv_def Let_def split: prod.splits)
  qed
qed

lemma access_step_inv: "access_inv s \<Longrightarrow> access_inv (access_step limits ev s)"
proof (cases ev)
  assume inv: "access_inv s"
  then have quiet: "access_inv (s\<lparr>au_ended := b, au_reader := None\<rparr>)" "access_inv (s\<lparr>au_reader := None\<rparr>)" for b
    by (auto simp: access_inv_def access_inv_at_def table_inv_cong [of "s\<lparr>au_ended := b, au_reader := None\<rparr>" s]
        table_inv_cong [of "s\<lparr>au_reader := None\<rparr>" s])
  { case AccessStopped then show ?thesis using quiet by simp }
  { case (AccessSweep now) then show ?thesis using inv by (simp add: sweep_inv) }
  { case (ClientDatagram c p now ok mds send) then show ?thesis using inv by (simp add: datagram_inv) }
  { case (ClientRecvError k) then show ?thesis using inv by simp }
  { case (PeerDatagram d now) then show ?thesis using inv by (simp add: relay_inv split: option.split) }
  { case PeerClosed then show ?thesis using quiet by simp }
qed

lemma access_run_inv: "access_inv s \<Longrightarrow> access_inv (fold (access_step limits) evs s)"
  by (induction evs arbitrary: s) (simp_all add: access_step_inv del: access_step.simps)

text \<open>C5: a reply reaches the client the flow belongs to and no other. Over any run of a service,
across reconnections, expiries and identifier exhaustion: whenever a datagram of flow \<open>f\<close> arriving on
connection \<open>k\<close> is delivered to a client, that client's datagrams were sent on \<open>k\<close> as flow \<open>f\<close>, and
no other client's ever were. So a late reply never reaches another client.\<close>

theorem access_reply_isolation:
  assumes "s = fold (access_step limits) evs access_udp_start"
    and "(k, f, c, p) \<in> set (au_replies s)"
  shows "{c'. \<exists>q. (k, f, c', q) \<in> set (au_sent s)} = {c}"
proof -
  obtain g where g: "access_inv_at g s"
    using access_run_inv [OF access_start_inv] by (auto simp: assms(1) access_inv_def)
  then have "replies_ok g (au_sent s) (au_replies s)" by (simp add: access_inv_at_def)
  with assms(2) have r: "g k f = c" "\<exists>q. (k, f, c, q) \<in> set (au_sent s)"
    unfolding replies_ok_def by blast+
  moreover have "c' = c" if "(k, f, c', q) \<in> set (au_sent s)" for c' q
    using g that r(1) by (auto simp: access_inv_at_def sent_ok_def)
  ultimately show ?thesis by blast
qed

definition demo_access_limits :: udp_limits where
  "demo_access_limits = \<lparr>idle_timeout = 10, max_flows = 2, max_flows_per_peer = 2, queue_depth = 1\<rparr>"

definition demo_access_events :: "nat access_event list" where
  "demo_access_events =
     [ClientDatagram 7 [1] 0 True (Some 100) SendOk, ClientDatagram 8 [2] 1 True (Some 100) SendOk,
      PeerDatagram (encode (FlowId 1) [9]) 2]"

lemma access_reply_isolation_witness:
  "{c'. \<exists>q. (0, FlowId 1, c', q) \<in> set (au_sent (fold (access_step demo_access_limits) demo_access_events access_udp_start))} = {8}"
proof (rule access_reply_isolation [OF refl])
  show "(0, FlowId 1, 8, [9]) \<in> set (au_replies (fold (access_step demo_access_limits) demo_access_events access_udp_start))"
    by (simp add: demo_access_events_def demo_access_limits_def access_udp_start_def client_datagram_def
        udp_get_or_dial_def new_incarnation_def Let_def forward_datagram_def touch_def client_flows_default_def
        checked_succ_def relay_peer_reply_def client_of_def HEADER_LEN_def)
qed

section \<open>The flow gauge\<close>

definition gauge_ok :: "udp_limits \<Rightarrow> 'c access_udp \<Rightarrow> bool" where
  "gauge_ok limits s \<longleftrightarrow> client_wf (au_flows s)
     \<and> held_flows (au_stats s) = word_of_nat (client_flows_len (au_flows s))
     \<and> client_flows_len (au_flows s) \<le> max_flows limits"

lemma set_active_held [simp]: "held_flows (set_active_flows n st) = word_of_nat n"
  by (simp add: set_active_flows_def)

lemma gauge_same_flows:
  "gauge_ok limits s \<Longrightarrow> au_flows s' = au_flows s \<Longrightarrow> held_flows (au_stats s') = held_flows (au_stats s) \<Longrightarrow>
     gauge_ok limits s'"
  by (simp add: gauge_ok_def)

lemma invalidate_same [simp]:
  "au_flows (udp_invalidate k s) = au_flows s" "au_stats (udp_invalidate k s) = au_stats s"
  by (simp_all add: udp_invalidate_def)

lemma gauge_invalidate: "gauge_ok limits s \<Longrightarrow> gauge_ok limits (udp_invalidate k s)"
  by (simp add: gauge_ok_def)

lemma gauge_set:
  "client_wf fl \<Longrightarrow> client_flows_len fl \<le> max_flows limits \<Longrightarrow> held_flows st = word_of_nat (client_flows_len fl) \<Longrightarrow>
     au_flows s = fl \<Longrightarrow> au_stats s = st \<Longrightarrow> gauge_ok limits s"
  by (simp add: gauge_ok_def)

lemma gauge_forward:
  assumes "gauge_ok limits s"
  shows "gauge_ok limits (forward_datagram limits client payload now k send s)"
proof (cases "touch client now (max_flows limits) (au_flows s)")
  case (Pair r fl)
  have wf: "client_wf (au_flows s)" and len: "client_flows_len (au_flows s) \<le> max_flows limits"
    using assms by (auto simp: gauge_ok_def)
  have "client_wf fl" "client_flows_len fl \<le> max_flows limits"
    using touch_wf [OF wf, of client now "max_flows limits"] touch_length [OF wf, of client now "max_flows limits"] len
    by (simp_all add: Pair client_flows_len_def)
  moreover have "fl = au_flows s" if "r = Inl e" for e
    using that Pair touch_refused_same [OF wf] by simp
  ultimately show ?thesis
    using assms unfolding forward_datagram_def Pair Let_def prod.case
    by (auto simp: gauge_ok_def split: sum.split refused.split send_result.split)
qed

lemma gauge_datagram:
  assumes "gauge_ok limits s"
  shows "gauge_ok limits (client_datagram limits client payload now ok mds send s)"
proof (cases "udp_get_or_dial ok s")
  case (Pair r s0)
  have s0: "gauge_ok limits s0"
    by (rule gauge_same_flows [OF assms]) (use Pair in \<open>auto simp: udp_get_or_dial_def split: option.splits if_splits\<close>)
  have s1: "gauge_ok limits (new_incarnation k s0)" for k
    using s0 by (simp add: new_incarnation_def gauge_ok_def wf_intros) (simp add: client_flows_len_def client_flows_default_def)
  have s2: "gauge_ok limits ((new_incarnation k s0)\<lparr>au_stats := set_datagram_limit l (au_stats (new_incarnation k s0))\<rparr>)" for k l
    by (rule gauge_same_flows [OF s1]) simp_all
  have s3: "gauge_ok limits ((new_incarnation k s0)\<lparr>au_stats := record_drop x (set_datagram_limit l (au_stats (new_incarnation k s0)))\<rparr>)"
    for k l x
    by (rule gauge_same_flows [OF s1]) simp_all
  show ?thesis
    by (cases r; cases "payload_limit mds") (simp_all add: client_datagram_def Pair Let_def s0 s2 s3 gauge_forward)
qed

lemma gauge_step: "gauge_ok limits s \<Longrightarrow> gauge_ok limits (access_step limits ev s)"
proof (cases ev)
  assume g: "gauge_ok limits s"
  then have wf: "client_wf (au_flows s)" and len: "length (by_flow (au_flows s)) \<le> max_flows limits"
    by (auto simp: gauge_ok_def client_flows_len_def)
  { case (AccessSweep now)
    then show ?thesis
      using g client_expire_length [OF wf, of now "idle_timeout limits"] len
      by (simp add: access_sweep_def Let_def gauge_ok_def client_expire_wf client_flows_len_def) }
  { case (ClientDatagram c p now ok mds send) then show ?thesis using g by (simp add: gauge_datagram) }
  { case (PeerDatagram d now)
    then show ?thesis
      using g client_of_wf [OF wf] client_of_length [OF wf]
      by (auto simp: relay_peer_reply_def Let_def gauge_ok_def client_flows_len_def
          dest!: arg_cong [of _ _ snd] split: option.split sum.split prod.split) }
qed (simp_all add: gauge_ok_def)

text \<open>Access's flow gauge is the truth and stays under its cap. After any run the reported number
of active flows is the number of flows in the table, which is at most the service's \<open>max_flows\<close>,
also across new incarnations, refusals and expiries.\<close>

theorem access_gauge_exact:
  "held_flows (au_stats (fold (access_step limits) evs access_udp_start)) =
      word_of_nat (client_flows_len (au_flows (fold (access_step limits) evs access_udp_start)))
   \<and> client_flows_len (au_flows (fold (access_step limits) evs access_udp_start)) \<le> max_flows limits"
proof -
  have "gauge_ok limits s \<Longrightarrow> gauge_ok limits (fold (access_step limits) evs s)" for s :: "'a access_udp"
    by (induction evs arbitrary: s) (simp_all add: gauge_step del: access_step.simps)
  moreover have "gauge_ok limits (access_udp_start :: 'a access_udp)"
    by (simp add: gauge_ok_def access_udp_start_def wf_intros udp_stats_default_def)
      (simp add: client_flows_len_def client_flows_default_def)
  ultimately show ?thesis unfolding gauge_ok_def by blast
qed

end
