(* ===== verification/Endpoint.thy ===== *)
theory Endpoint
  imports Settings Proto
begin

text \<open>
  Endpoint construction (\<open>crates/engine/src/endpoint/\<close>, \<open>access/bind_access.rs\<close>,
  \<open>serve/bind_serve.rs\<close>): which relays an endpoint uses for itself, which relays a dial attaches
  to the peer, and which ALPNs are registered. Parsing a relay URL (\<open>RelayUrl::from_str\<close>), the n0
  default relays and key generation belong to iroh: they are parameters.
\<close>

datatype endpoint_error = InvalidRelayUrl string

definition parse_relay :: "(string \<Rightarrow> 'url option) \<Rightarrow> string \<Rightarrow> endpoint_error + 'url" where
  "parse_relay parse s = (case parse s of None \<Rightarrow> Inl (InvalidRelayUrl s) | Some u \<Rightarrow> Inr u)"

section \<open>Relays of a dial\<close>

definition resolve_relay_urls ::
    "(string \<Rightarrow> 'url option) \<Rightarrow> 'url list \<Rightarrow> string list \<Rightarrow> endpoint_error + 'url list" where
  "resolve_relay_urls parse n0_default_relay_urls config_urls =
     (if config_urls = [] then Inr n0_default_relay_urls else try_map (parse_relay parse) config_urls)"

record ('id, 'url) endpoint_addr =
  ea_id :: 'id
  ea_relays :: "'url list"

text \<open>The addresses of an \<open>EndpointAddr\<close> are a set: attaching a URL twice is attaching it once.\<close>

definition with_relay_url :: "'url \<Rightarrow> ('id, 'url) endpoint_addr \<Rightarrow> ('id, 'url) endpoint_addr" where
  "with_relay_url url a = a\<lparr>ea_relays := (if url \<in> set (ea_relays a) then ea_relays a else ea_relays a @ [url])\<rparr>"

definition build_dial_addr :: "'id \<Rightarrow> 'url list \<Rightarrow> ('id, 'url) endpoint_addr" where
  "build_dial_addr node_id relay_urls = fold with_relay_url relay_urls \<lparr>ea_id = node_id, ea_relays = []\<rparr>"

section \<open>Relays of the endpoint\<close>

datatype 'url relay_mode = RelayDefault | RelayCustom "'url list" "string option"

definition relay_mode_from_urls ::
    "(string \<Rightarrow> 'url option) \<Rightarrow> string list \<Rightarrow> string option \<Rightarrow> endpoint_error + 'url relay_mode" where
  "relay_mode_from_urls parse relay_urls relay_token =
     (if relay_urls = [] then Inr RelayDefault
      else (case try_map (parse_relay parse) relay_urls of
              Inl e \<Rightarrow> Inl e
            | Inr urls \<Rightarrow> Inr (RelayCustom urls relay_token)))"

definition KEEP_ALIVE_INTERVAL :: duration where
  "KEEP_ALIVE_INTERVAL = from_secs 5"

text \<open>\<open>None\<close> keeps the transport's own stream budget.\<close>

record transport_config =
  tc_keep_alive :: duration
  tc_max_streams :: "u32 option"

definition transport_config_of :: "u32 option \<Rightarrow> transport_config" where
  "transport_config_of max_streams = \<lparr>tc_keep_alive = KEEP_ALIVE_INTERVAL, tc_max_streams = max_streams\<rparr>"

record ('sk, 'url) endpoint_config =
  ec_secret_key :: 'sk
  ec_transport :: transport_config
  ec_relay_mode :: "'url relay_mode"
  ec_alpns :: "u8 list list"

definition create_endpoint_with_key ::
    "(string \<Rightarrow> 'url option) \<Rightarrow> 'sk \<Rightarrow> 'sk node_settings \<Rightarrow> string list \<Rightarrow> u8 list list
      \<Rightarrow> endpoint_error + ('sk, 'url) endpoint_config" where
  "create_endpoint_with_key parse generated node relay_urls alpns =
     (case relay_mode_from_urls parse relay_urls (map_option expose (ns_relay_token node)) of
        Inl e \<Rightarrow> Inl e
      | Inr mode \<Rightarrow>
          Inr \<lparr>ec_secret_key = unwrap_or (ns_secret_key node) generated,
               ec_transport = transport_config_of (ns_max_concurrent_streams node),
               ec_relay_mode = mode, ec_alpns = alpns\<rparr>)"

section \<open>Binding the roles\<close>

definition push_new :: "string \<Rightarrow> string list \<Rightarrow> string list" where
  "push_new url relays = (if url \<in> set relays then relays else relays @ [url])"

definition access_relays :: "'sk access_settings \<Rightarrow> string list" where
  "access_relays s =
     fold (\<lambda>svc. fold push_new (as_relay_urls svc)) (access_services s) (ns_relay_urls (access_node s))"

definition bind_access ::
    "(string \<Rightarrow> 'url option) \<Rightarrow> 'sk \<Rightarrow> 'sk access_settings \<Rightarrow> endpoint_error + ('sk, 'url) endpoint_config" where
  "bind_access parse generated s = create_endpoint_with_key parse generated (access_node s) (access_relays s) []"

definition bind_serve ::
    "(string \<Rightarrow> 'url option) \<Rightarrow> 'sk \<Rightarrow> 'sk serve_settings \<Rightarrow> endpoint_error + ('sk, 'url) endpoint_config" where
  "bind_serve parse generated s =
     create_endpoint_with_key parse generated (serve_node s) (ns_relay_urls (serve_node s))
       (map (\<lambda>svc. alpn_for (ss_name svc)) (serve_services s))"

section \<open>Every dial has its relays\<close>

lemma set_push_new [simp]: "set (push_new u rs) = insert u (set rs)"
  by (auto simp: push_new_def)

lemma set_fold_push [simp]: "set (fold push_new us rs) = set rs \<union> set us"
  by (induction us arbitrary: rs) auto

lemma set_access_relays:
  "set (access_relays s) = set (ns_relay_urls (access_node s)) \<union> (\<Union>svc \<in> set (access_services s). set (as_relay_urls svc))"
proof -
  have "set (fold (\<lambda>svc. fold push_new (as_relay_urls svc)) svcs rs) = set rs \<union> (\<Union>svc \<in> set svcs. set (as_relay_urls svc))"
    for svcs and rs
    by (induction svcs arbitrary: rs) auto
  then show ?thesis by (simp add: access_relays_def)
qed

lemma access_relays_prefix: "\<exists>rest. access_relays s = ns_relay_urls (access_node s) @ rest"
proof -
  have push: "\<exists>rest. fold push_new us rs = rs @ rest" for us rs
  proof (induction us arbitrary: rs)
    case (Cons u us)
    from Cons.IH [of "push_new u rs"] show ?case by (auto simp: push_new_def split: if_splits)
  qed simp
  have "\<exists>rest. fold (\<lambda>svc. fold push_new (as_relay_urls svc)) svcs rs = rs @ rest" for svcs rs
  proof (induction svcs arbitrary: rs)
    case (Cons svc svcs)
    from Cons.IH [of "fold push_new (as_relay_urls svc) rs"] push [of "as_relay_urls svc" rs] show ?case by auto
  qed simp
  then show ?thesis by (simp add: access_relays_def)
qed

lemma ea_relays_fold: "set (ea_relays (fold with_relay_url us a)) = set (ea_relays a) \<union> set us"
  by (induction us arbitrary: a) (auto simp: with_relay_url_def)

lemma set_dial_relays: "set (ea_relays (build_dial_addr i us)) = set us"
  by (simp add: build_dial_addr_def ea_relays_fold)

lemma ea_id_fold: "ea_id (fold with_relay_url us a) = ea_id a"
  by (induction us arbitrary: a) (auto simp: with_relay_url_def)

lemma ea_id_dial [simp]: "ea_id (build_dial_addr i us) = i"
  by (simp add: build_dial_addr_def ea_id_fold)

text \<open>The relay list of one service's dial: its override when set, else the node's.\<close>

definition service_relays ::
    "(string \<Rightarrow> 'url option) \<Rightarrow> 'url list \<Rightarrow> string list \<Rightarrow> access_service_settings \<Rightarrow> endpoint_error + 'url list" where
  "service_relays parse defaults node_urls svc =
     resolve_relay_urls parse defaults (if as_relay_urls svc = [] then node_urls else as_relay_urls svc)"

lemma try_map_parse:
  "try_map (parse_relay parse) ss = Inr us \<Longrightarrow> set us = (\<lambda>s. the (parse s)) ` set ss \<and> (\<forall>s \<in> set ss. parse s \<noteq> None)"
proof (induction ss arbitrary: us)
  case (Cons s ss)
  then show ?case by (auto simp: parse_relay_def split: sum.splits option.splits)
qed simp

text \<open>With relays configured, a dial attaches only relays the endpoint is connected to. When the
endpoint was bound and a service's relays resolve, and that service has an override or the node has
relays, every relay of the service's dial address is one of the endpoint's own.\<close>

theorem dial_relays_covered:
  assumes "bind_access parse gen s = Inr cfg" and "svc \<in> set (access_services s)"
    and "as_relay_urls svc \<noteq> [] \<or> ns_relay_urls (access_node s) \<noteq> []"
    and "service_relays parse defaults (ns_relay_urls (access_node s)) svc = Inr urls"
  shows "\<exists>relays. ec_relay_mode cfg = RelayCustom relays (map_option expose (ns_relay_token (access_node s)))
    \<and> set (ea_relays (build_dial_addr i urls)) \<subseteq> set relays"
proof -
  let ?own = "if as_relay_urls svc = [] then ns_relay_urls (access_node s) else as_relay_urls svc"
  have ne: "?own \<noteq> []" using assms(3) by auto
  with assms(4) have own: "try_map (parse_relay parse) ?own = Inr urls"
    by (simp add: service_relays_def resolve_relay_urls_def split: if_splits)
  have sub: "set ?own \<subseteq> set (access_relays s)"
    using assms(2) by (auto simp: set_access_relays)
  with ne have "access_relays s \<noteq> []" by auto
  with assms(1) obtain relays where
    r: "try_map (parse_relay parse) (access_relays s) = Inr relays"
      "ec_relay_mode cfg = RelayCustom relays (map_option expose (ns_relay_token (access_node s)))"
    by (auto simp: bind_access_def create_endpoint_with_key_def relay_mode_from_urls_def split: sum.splits)
  have "set urls \<subseteq> set relays"
    using try_map_parse [OF own] try_map_parse [OF r(1)] sub by auto
  with r(2) show ?thesis by (auto simp: set_dial_relays)
qed

text \<open>Two services, one with an override and one without, on a node without relays of its own.\<close>

definition demo_access_service :: "string list \<Rightarrow> access_service_settings" where
  "demo_access_service urls =
     \<lparr>as_name = ''web'', as_node_id = ''peer'', as_protocol = Tcp, as_host = ''127.0.0.1'', as_port = 80,
       as_relay_urls = urls,
       as_udp = \<lparr>idle_timeout = 10, max_flows = 2, max_flows_per_peer = 1, queue_depth = 1\<rparr>\<rparr>"

definition demo_access_settings :: "unit access_settings" where
  "demo_access_settings =
     \<lparr>access_node = \<lparr>ns_secret_key = None, ns_relay_urls = [], ns_relay_token = None, ns_max_concurrent_streams = None\<rparr>,
       access_services = [demo_access_service [''https://r''], demo_access_service []]\<rparr>"

lemma demo_bind:
  "bind_access Some () demo_access_settings =
     Inr \<lparr>ec_secret_key = (), ec_transport = transport_config_of None, ec_relay_mode = RelayCustom [''https://r''] None,
          ec_alpns = []\<rparr>"
  by (simp add: bind_access_def access_relays_def demo_access_settings_def demo_access_service_def push_new_def
      create_endpoint_with_key_def relay_mode_from_urls_def parse_relay_def)

lemma dial_relays_covered_witness:
  "set (ea_relays (build_dial_addr (0 :: nat) [''https://r''])) \<subseteq> set [''https://r'']"
proof -
  have "demo_access_service [''https://r''] \<in> set (access_services demo_access_settings)"
    by (simp add: demo_access_settings_def)
  from dial_relays_covered [OF demo_bind this, of "[]" "[''https://r'']" "0 :: nat"] show ?thesis
    by (simp add: service_relays_def resolve_relay_urls_def parse_relay_def demo_access_service_def)
qed

text \<open>
  The remaining case is not covered: the service without an override dials through the n0
  defaults, while the endpoint, which has one custom relay, is not configured with them.
\<close>

lemma default_dial_not_covered:
  "service_relays Some [''https://n0''] (ns_relay_urls (access_node demo_access_settings)) (demo_access_service [])
      = Inr [''https://n0'']
   \<and> bind_access Some () demo_access_settings =
       Inr \<lparr>ec_secret_key = (), ec_transport = transport_config_of None,
            ec_relay_mode = RelayCustom [''https://r''] None, ec_alpns = []\<rparr>"
  using demo_bind
  by (simp add: service_relays_def resolve_relay_urls_def demo_access_service_def demo_access_settings_def)

end
