(* ===== verification/AccessDial.thy ===== *)
theory AccessDial
  imports Prelude Dial
begin

text \<open>
  The shared connection of a service (\<open>ServiceDialer\<close> and \<open>ConnState\<close> in
  \<open>crates/engine/src/access/run_access.rs\<close>). Any number of channels (local clients) use one
  cached connection. \<open>get_or_dial\<close> awaits in several places, so a channel is where it is in that
  function; the lock \<open>dial\<close> is held from taking it to the end of the function, the lock \<open>state\<close>
  only inside one step. Connections are named by their stable identifiers, which are fresh.
  A channel may be cancelled at every await (its deadline, a stop).
\<close>

section \<open>State\<close>

datatype aux_task = Watcher nat | Poller nat

datatype channel_at =
    ChIdle | ChWaiting | ChChecking | ChDialing | ChStoring nat | ChReporting nat | ChHas nat

text \<open>\<open>dl_stored\<close>, \<open>dl_evicted\<close> and \<open>dl_latest\<close> are traces: how many connections were ever cached and
evicted, and the one cached last.\<close>

record dialer_state =
  dl_conn :: "nat option"
  dl_tasks :: "aux_task list"
  dl_holder :: "nat option"
  dl_next :: nat
  dl_channel :: "nat \<Rightarrow> channel_at"
  dl_stored :: nat
  dl_evicted :: nat
  dl_latest :: "nat option"

definition dialer_start :: dialer_state where
  "dialer_start =
     \<lparr>dl_conn = None, dl_tasks = [], dl_holder = None, dl_next = 0, dl_channel = (\<lambda>_. ChIdle),
       dl_stored = 0, dl_evicted = 0, dl_latest = None\<rparr>"

definition is_current :: "nat \<Rightarrow> dialer_state \<Rightarrow> bool" where
  "is_current k s \<longleftrightarrow> dl_conn s = Some k"

definition invalidate :: "nat \<Rightarrow> dialer_state \<Rightarrow> dialer_state" where
  "invalidate failed s =
     (if is_current failed s then s\<lparr>dl_conn := None, dl_evicted := dl_evicted s + 1\<rparr> else s)"

definition stop_auxiliary_tasks :: "dialer_state \<Rightarrow> dialer_state" where
  "stop_auxiliary_tasks s = s\<lparr>dl_tasks := []\<rparr>"

abbreviation at :: "nat \<Rightarrow> channel_at \<Rightarrow> dialer_state \<Rightarrow> dialer_state" where
  "at t c s \<equiv> s\<lparr>dl_channel := (dl_channel s)(t := c)\<rparr>"

text \<open>Whether a channel at this place holds the \<open>dial\<close> lock.\<close>

fun holds_dial :: "channel_at \<Rightarrow> bool" where
  "holds_dial ChChecking = True"
| "holds_dial ChDialing = True"
| "holds_dial (ChStoring _) = True"
| "holds_dial (ChReporting _) = True"
| "holds_dial _ = False"

section \<open>Steps\<close>

datatype dial_event =
    ChArrive
  | ChLock
  | ChCheck
  | ChDialed bool
  | ChStore
  | ChReport
  | ChCancel
  | ChOpenFailed
  | ChDone
  | AuxEnded aux_task
  | AuxStop

text \<open>One step of channel \<open>t\<close>; a step that is not possible there changes nothing.\<close>

fun dialer_step :: "nat \<times> dial_event \<Rightarrow> dialer_state \<Rightarrow> dialer_state" where
  "dialer_step (t, ChArrive) s = (if dl_channel s t = ChIdle then at t ChWaiting s else s)"
| "dialer_step (t, ChLock) s =
     (if dl_channel s t = ChWaiting \<and> dl_holder s = None then at t ChChecking (s\<lparr>dl_holder := Some t\<rparr>) else s)"
| "dialer_step (t, ChCheck) s =
     (if dl_channel s t = ChChecking
      then (case dl_conn s of
              Some k \<Rightarrow> at t (ChHas k) (s\<lparr>dl_holder := None\<rparr>)
            | None \<Rightarrow> at t ChDialing s)
      else s)"
| "dialer_step (t, ChDialed ok) s =
     (if dl_channel s t = ChDialing
      then (if ok then at t (ChStoring (dl_next s)) (s\<lparr>dl_next := dl_next s + 1\<rparr>)
            else at t ChIdle (s\<lparr>dl_holder := None\<rparr>))
      else s)"
| "dialer_step (t, ChStore) s =
     (case dl_channel s t of
        ChStoring k \<Rightarrow>
          at t (ChReporting k)
            (s\<lparr>dl_tasks := [Watcher k], dl_conn := Some k, dl_stored := dl_stored s + 1, dl_latest := Some k\<rparr>)
      | _ \<Rightarrow> s)"
| "dialer_step (t, ChReport) s =
     (case dl_channel s t of
        ChReporting k \<Rightarrow>
          at t (ChHas k)
            (s\<lparr>dl_tasks := (if is_current k s then dl_tasks s @ [Poller k] else dl_tasks s), dl_holder := None\<rparr>)
      | _ \<Rightarrow> s)"
| "dialer_step (t, ChCancel) s =
     (if holds_dial (dl_channel s t) then at t ChIdle (s\<lparr>dl_holder := None\<rparr>) else at t ChIdle s)"
| "dialer_step (t, ChOpenFailed) s =
     (case dl_channel s t of ChHas k \<Rightarrow> at t ChWaiting (invalidate k s) | _ \<Rightarrow> s)"
| "dialer_step (t, ChDone) s = (case dl_channel s t of ChHas k \<Rightarrow> at t ChIdle s | _ \<Rightarrow> s)"
| "dialer_step (t, AuxEnded a) s = s\<lparr>dl_tasks := remove1 a (dl_tasks s)\<rparr>"
| "dialer_step (t, AuxStop) s = stop_auxiliary_tasks s"

section \<open>One connection and one poller\<close>

definition tasks_ok :: "dialer_state \<Rightarrow> bool" where
  "tasks_ok s \<longleftrightarrow> distinct (dl_tasks s)
     \<and> (case dl_latest s of None \<Rightarrow> dl_tasks s = [] | Some k \<Rightarrow> set (dl_tasks s) \<subseteq> {Watcher k, Poller k} \<and> k < dl_next s)"

definition channel_ok :: "dialer_state \<Rightarrow> channel_at \<Rightarrow> bool" where
  "channel_ok s c \<longleftrightarrow>
     (case c of
        ChDialing \<Rightarrow> dl_conn s = None
      | ChStoring k \<Rightarrow> dl_conn s = None \<and> k < dl_next s
      | ChReporting k \<Rightarrow> dl_latest s = Some k \<and> Poller k \<notin> set (dl_tasks s)
      | _ \<Rightarrow> True)"

definition dialer_inv :: "dialer_state \<Rightarrow> bool" where
  "dialer_inv s \<longleftrightarrow>
     (\<forall>t. holds_dial (dl_channel s t) \<longleftrightarrow> dl_holder s = Some t)
     \<and> dl_stored s = dl_evicted s + (if dl_conn s = None then 0 else 1)
     \<and> (dl_conn s \<noteq> None \<longrightarrow> dl_conn s = dl_latest s)
     \<and> tasks_ok s \<and> (\<forall>t. channel_ok s (dl_channel s t))"

lemma dialer_start_inv: "dialer_inv dialer_start"
  by (simp add: dialer_inv_def dialer_start_def tasks_ok_def channel_ok_def)

lemma dialer_invD:
  assumes "dialer_inv s"
  shows "holds_dial (dl_channel s t) \<longleftrightarrow> dl_holder s = Some t" "channel_ok s (dl_channel s t)" "tasks_ok s"
    "dl_stored s = dl_evicted s + (if dl_conn s = None then 0 else 1)" "dl_conn s \<noteq> None \<Longrightarrow> dl_conn s = dl_latest s"
  using assms by (auto simp: dialer_inv_def)

text \<open>Another channel is never where it holds the lock while \<open>t\<close> holds it.\<close>

lemma others_free:
  "dialer_inv s \<Longrightarrow> holds_dial (dl_channel s t) \<Longrightarrow> t' \<noteq> t \<Longrightarrow> \<not> holds_dial (dl_channel s t')"
  by (metis dialer_invD(1) option.inject)

lemma free_ok: "\<not> holds_dial c \<Longrightarrow> channel_ok s c"
  by (cases c) (auto simp: channel_ok_def)

lemma channel_ok_mono:
  "channel_ok s c \<Longrightarrow> dl_conn s' = dl_conn s \<or> dl_conn s' = None \<Longrightarrow> dl_next s \<le> dl_next s' \<Longrightarrow>
     dl_latest s' = dl_latest s \<Longrightarrow> set (dl_tasks s') \<subseteq> set (dl_tasks s) \<Longrightarrow> channel_ok s' c"
  by (cases c) (auto simp: channel_ok_def)

lemma tasks_ok_mono:
  "tasks_ok s \<Longrightarrow> dl_tasks s' = dl_tasks s \<Longrightarrow> dl_latest s' = dl_latest s \<Longrightarrow> dl_next s \<le> dl_next s' \<Longrightarrow> tasks_ok s'"
  by (auto simp: tasks_ok_def split: option.splits)

text \<open>Moving channel \<open>t\<close> while it holds the lock: the others hold nothing and need nothing.\<close>

lemma move_holding:
  assumes inv: "dialer_inv s" and t: "holds_dial (dl_channel s t)"
    and ch: "dl_channel s' = (dl_channel s)(t := c)"
    and lock: "dl_holder s' = (if holds_dial c then Some t else None)"
    and "dl_stored s' = dl_evicted s' + (if dl_conn s' = None then 0 else 1)"
    and "dl_conn s' \<noteq> None \<Longrightarrow> dl_conn s' = dl_latest s'" and "tasks_ok s'" and "channel_ok s' c"
  shows "dialer_inv s'"
proof -
  have free: "\<not> holds_dial (dl_channel s t')" if "t' \<noteq> t" for t'
    using others_free [OF inv t that] .
  then have "holds_dial (dl_channel s' t') \<longleftrightarrow> dl_holder s' = Some t'" for t'
    by (auto simp: ch lock)
  moreover have "channel_ok s' (dl_channel s' t')" for t'
    using free [of t'] free_ok assms(8) by (auto simp: ch)
  ultimately show ?thesis using assms(5-7) by (simp add: dialer_inv_def)
qed

text \<open>Moving a channel from and to places without the lock.\<close>

lemma move_free:
  assumes inv: "dialer_inv s" and t: "\<not> holds_dial (dl_channel s t)" and c: "\<not> holds_dial c"
    and ch: "dl_channel s' = (dl_channel s)(t := c)" and lock: "dl_holder s' = dl_holder s"
    and count: "dl_stored s' = dl_evicted s' + (if dl_conn s' = None then 0 else 1)"
    and conn: "dl_conn s' = dl_conn s \<or> dl_conn s' = None"
    and same: "dl_next s' = dl_next s" "dl_latest s' = dl_latest s" "dl_tasks s' = dl_tasks s"
  shows "dialer_inv s'"
proof -
  have "holds_dial (dl_channel s' t') \<longleftrightarrow> dl_holder s' = Some t'" for t'
    using dialer_invD(1) [OF inv, of t'] t c by (auto simp: ch lock)
  moreover have "channel_ok s' (dl_channel s' t')" for t'
    using channel_ok_mono [OF dialer_invD(2) [OF inv, of t'] conn] same free_ok [OF c] by (auto simp: ch)
  moreover have "tasks_ok s'" using tasks_ok_mono [OF dialer_invD(3) [OF inv]] same by simp
  ultimately show ?thesis
    using dialer_invD(5) [OF inv] conn count same by (auto simp: dialer_inv_def)
qed

lemma aux_inv:
  assumes inv: "dialer_inv s" and "distinct ts" "set ts \<subseteq> set (dl_tasks s)"
  shows "dialer_inv (s\<lparr>dl_tasks := ts\<rparr>)"
proof -
  have "channel_ok (s\<lparr>dl_tasks := ts\<rparr>) (dl_channel s t)" for t
    using channel_ok_mono [OF dialer_invD(2) [OF inv]] assms(3) by simp
  moreover have "tasks_ok (s\<lparr>dl_tasks := ts\<rparr>)"
    using dialer_invD(3) [OF inv] assms(2,3) by (auto simp: tasks_ok_def split: option.splits)
  ultimately show ?thesis using inv by (simp add: dialer_inv_def)
qed

lemma dialer_step_inv:
  assumes inv: "dialer_inv s"
  shows "dialer_inv (dialer_step ev s)"
proof (cases ev)
  case (Pair t e)
  have ok: "channel_ok s (dl_channel s t)" by (rule dialer_invD(2) [OF inv])
  have tasks: "tasks_ok s" by (rule dialer_invD(3) [OF inv])
  note count = dialer_invD(4) [OF inv]
  have latest: "dl_conn s = Some k \<Longrightarrow> dl_latest s = Some k" for k
    using dialer_invD(5) [OF inv] by auto
  show ?thesis
  proof (cases e)
    case ChArrive
    have "dialer_inv (at t ChWaiting s)" if "dl_channel s t = ChIdle"
      by (rule move_free [OF inv]) (use that count in simp_all)
    then show ?thesis using inv by (simp add: Pair ChArrive)
  next
    case ChLock
    have "dialer_inv (at t ChChecking (s\<lparr>dl_holder := Some t\<rparr>))"
      if "dl_channel s t = ChWaiting" "dl_holder s = None"
    proof -
      have "\<not> holds_dial (dl_channel s t')" for t'
        using dialer_invD(1) [OF inv, of t'] that(2) by simp
      moreover have "channel_ok (at t ChChecking (s\<lparr>dl_holder := Some t\<rparr>)) (dl_channel s t')" for t'
        using dialer_invD(2) [OF inv, of t'] channel_ok_mono by auto
      moreover have "channel_ok (at t ChChecking (s\<lparr>dl_holder := Some t\<rparr>)) ChChecking"
        by (simp add: channel_ok_def)
      ultimately show ?thesis
        using inv tasks_ok_mono [OF tasks] by (auto simp: dialer_inv_def)
    qed
    then show ?thesis using inv by (simp add: Pair ChLock)
  next
    case ChCheck
    have "dialer_inv (case dl_conn s of Some k \<Rightarrow> at t (ChHas k) (s\<lparr>dl_holder := None\<rparr>) | None \<Rightarrow> at t ChDialing s)"
      if c: "dl_channel s t = ChChecking"
    proof (cases "dl_conn s")
      case None
      then show ?thesis using that count tasks dialer_invD(1) [OF inv, of t]
        by (auto intro!: move_holding [OF inv, of t] simp: channel_ok_def intro: tasks_ok_mono)
    next
      case (Some k)
      then show ?thesis using that count tasks latest
        by (auto intro!: move_holding [OF inv, of t] simp: channel_ok_def intro: tasks_ok_mono)
    qed
    then show ?thesis using inv by (simp add: Pair ChCheck)
  next
    case (ChDialed b)
    have "dialer_inv (if b then at t (ChStoring (dl_next s)) (s\<lparr>dl_next := dl_next s + 1\<rparr>)
        else at t ChIdle (s\<lparr>dl_holder := None\<rparr>))" if c: "dl_channel s t = ChDialing"
      using that count tasks ok dialer_invD(1) [OF inv, of t]
      by (auto intro!: move_holding [OF inv, of t] simp: channel_ok_def intro: tasks_ok_mono)
    then show ?thesis using inv by (simp add: Pair ChDialed)
  next
    case ChStore
    show ?thesis
    proof (cases "dl_channel s t")
      case (ChStoring k)
      then have "dialer_inv (at t (ChReporting k)
          (s\<lparr>dl_tasks := [Watcher k], dl_conn := Some k, dl_stored := dl_stored s + 1, dl_latest := Some k\<rparr>))"
        using count ok dialer_invD(1) [OF inv, of t]
        by (intro move_holding [OF inv, of t]) (auto simp: channel_ok_def tasks_ok_def)
      with ChStoring show ?thesis by (simp add: Pair ChStore)
    qed (use inv in \<open>simp_all add: Pair ChStore\<close>)
  next
    case ChReport
    show ?thesis
    proof (cases "dl_channel s t")
      case (ChReporting k)
      then have "dialer_inv (at t (ChHas k)
          (s\<lparr>dl_tasks := (if is_current k s then dl_tasks s @ [Poller k] else dl_tasks s), dl_holder := None\<rparr>))"
      proof (intro move_holding [OF inv, of t])
        from ChReporting ok tasks
        have l: "dl_latest s = Some k" "Poller k \<notin> set (dl_tasks s)" "distinct (dl_tasks s)"
          "set (dl_tasks s) \<subseteq> {Watcher k, Poller k}" "k < dl_next s"
          by (simp_all add: channel_ok_def tasks_ok_def)
        let ?s = "at t (ChHas k)
          (s\<lparr>dl_tasks := (if is_current k s then dl_tasks s @ [Poller k] else dl_tasks s), dl_holder := None\<rparr>)"
        show "holds_dial (dl_channel s t)" using ChReporting by simp
        show "dl_stored ?s = dl_evicted ?s + (if dl_conn ?s = None then 0 else 1)" using count by simp
        show "dl_conn ?s = dl_latest ?s" if "dl_conn ?s \<noteq> None"
          using that dialer_invD(5) [OF inv] by simp
        show "tasks_ok ?s" using l by (simp add: tasks_ok_def)
        show "channel_ok ?s (ChHas k)" by (simp add: channel_ok_def)
      qed simp_all
      with ChReporting show ?thesis by (simp add: Pair ChReport)
    qed (use inv in \<open>simp_all add: Pair ChReport\<close>)
  next
    case ChCancel
    have "dialer_inv (at t ChIdle (s\<lparr>dl_holder := None\<rparr>))" if "holds_dial (dl_channel s t)"
      using that count tasks latest
      by (intro move_holding [OF inv, of t]) (auto simp: channel_ok_def intro: tasks_ok_mono)
    moreover have "dialer_inv (at t ChIdle s)" if "\<not> holds_dial (dl_channel s t)"
      by (rule move_free [OF inv that]) (use count in simp_all)
    ultimately show ?thesis by (simp add: Pair ChCancel)
  next
    case ChOpenFailed
    have "dialer_inv (at t ChWaiting (invalidate k s))" if "dl_channel s t = ChHas k" for k
      by (rule move_free [OF inv, of t ChWaiting]) (use that count in \<open>auto simp: invalidate_def is_current_def\<close>)
    then show ?thesis using inv by (simp add: Pair ChOpenFailed split: channel_at.split)
  next
    case ChDone
    have "dialer_inv (at t ChIdle s)" if "dl_channel s t = ChHas k" for k
      by (rule move_free [OF inv, of t ChIdle]) (use that count in simp_all)
    then show ?thesis using inv by (simp add: Pair ChDone split: channel_at.split)
  next
    case (AuxEnded a)
    have "distinct (remove1 a (dl_tasks s))"
      using tasks by (simp add: tasks_ok_def)
    then show ?thesis using aux_inv [OF inv _ set_remove1_subset] by (simp add: Pair AuxEnded)
  next
    case AuxStop
    then show ?thesis using aux_inv [OF inv, of "[]"] by (simp add: Pair stop_auxiliary_tasks_def)
  qed
qed

lemma dialer_run_inv: "dialer_inv s \<Longrightarrow> dialer_inv (fold dialer_step evs s)"
  by (induction evs arbitrary: s) (simp_all add: dialer_step_inv del: dialer_step.simps)

text \<open>C6: a service has one connection and one poller, however many channels want one. Under every
interleaving of channels arriving, dialling, failing, being cancelled and evicting: at most one
channel is dialling; the connections ever cached are the ones evicted plus the present one, so a
new one is dialled only after an eviction; and the owned background tasks belong to the latest
connection, at most one watcher and one poller.\<close>

theorem one_connection_per_service:
  fixes evs :: "(nat \<times> dial_event) list"
  defines "s \<equiv> fold dialer_step evs dialer_start"
  shows "dl_stored s = dl_evicted s + (case dl_conn s of None \<Rightarrow> 0 | Some _ \<Rightarrow> 1)
    \<and> {t. holds_dial (dl_channel s t)} = set_option (dl_holder s)
    \<and> distinct (dl_tasks s)
    \<and> (case dl_latest s of None \<Rightarrow> dl_tasks s = [] | Some k \<Rightarrow> set (dl_tasks s) \<subseteq> {Watcher k, Poller k})"
proof -
  have inv: "dialer_inv s" unfolding s_def by (rule dialer_run_inv [OF dialer_start_inv])
  from dialer_invD(1) [OF inv] have "{t. holds_dial (dl_channel s t)} = set_option (dl_holder s)"
    by auto
  with dialer_invD(3,4) [OF inv] show ?thesis
    by (auto simp: tasks_ok_def split: option.splits)
qed

text \<open>
  A dial that has succeeded is cached only once the \<open>state\<close> lock is taken, which is an await: a
  channel cancelled there loses the connection.
\<close>

lemma successful_dial_can_be_lost:
  "let s = fold dialer_step [(0, ChArrive), (0, ChLock), (0, ChCheck), (0, ChDialed True)] dialer_start
   in dl_channel s 0 = ChStoring 0 \<and> dl_conn (dialer_step (0, ChCancel) s) = None
     \<and> dl_channel (dialer_step (0, ChCancel) s) 0 = ChIdle"
  by (simp add: dialer_start_def)

end
