(* ===== verification/AccessRun.thy ===== *)
theory AccessRun
  imports RoleRun UdpStats Tcp ConnPath Endpoint AccessDial
begin

text \<open>
  The Access role around its data paths (\<open>crates/engine/src/access/run_access.rs\<close>): dialers and
  status rows from the settings, one local client's tunnel, the listen loop of a TCP service, the
  path poller's task, and the run as a whole (\<open>run_access\<close>). The shared connection of a service is
  the theory AccessDial, its UDP loop the theory AccessUdp. Parsing an endpoint identifier belongs
  to iroh and is a parameter.
\<close>

section \<open>Dialers and readiness\<close>

record ('id, 'url) service_dialer =
  sd_addr :: "('id, 'url) endpoint_addr"
  sd_alpn :: "u8 list"
  sd_name :: string
  sd_protocol :: protocol
  sd_udp_limits :: udp_limits
  sd_listen_addr :: string

definition service_dialer_new :: "'id \<Rightarrow> access_service_settings \<Rightarrow> 'url list \<Rightarrow> string \<Rightarrow> ('id, 'url) service_dialer" where
  "service_dialer_new node_id svc relay_urls listen_addr =
     \<lparr>sd_addr = build_dial_addr node_id relay_urls, sd_alpn = alpn_for (as_name svc), sd_name = as_name svc,
       sd_protocol = as_protocol svc, sd_udp_limits = as_udp svc, sd_listen_addr = listen_addr\<rparr>"

record access_status_row =
  ar_name :: string
  ar_listen_addr :: string
  ar_peer :: string

datatype access_error =
    NodeRelays endpoint_error
  | InvalidNodeId string
  | ServiceRelays string endpoint_error

definition build_dialer ::
    "(string \<Rightarrow> 'id option) \<Rightarrow> ('id \<Rightarrow> string) \<Rightarrow> (string \<Rightarrow> 'url option) \<Rightarrow> 'url list \<Rightarrow> 'url list
      \<Rightarrow> access_service_settings \<Rightarrow> access_error + ('id, 'url) service_dialer \<times> access_status_row" where
  "build_dialer parse_id id_text parse defaults node_relay_urls svc =
     (case parse_id (as_node_id svc) of
        None \<Rightarrow> Inl (InvalidNodeId (as_node_id svc))
      | Some node_id \<Rightarrow>
          (let bind_addr = format_addr (as_host svc) (as_port svc)
           in case (if as_relay_urls svc = [] then Inr node_relay_urls
                    else resolve_relay_urls parse defaults (as_relay_urls svc)) of
                Inl e \<Rightarrow> Inl (ServiceRelays (as_name svc) e)
              | Inr effective \<Rightarrow>
                  Inr (service_dialer_new node_id svc effective bind_addr,
                       \<lparr>ar_name = as_name svc, ar_listen_addr = format_local_addr (as_host svc) (as_port svc),
                         ar_peer = id_text node_id\<rparr>)))"

definition build_dialers ::
    "(string \<Rightarrow> 'id option) \<Rightarrow> ('id \<Rightarrow> string) \<Rightarrow> (string \<Rightarrow> 'url option) \<Rightarrow> 'url list
      \<Rightarrow> 'sk access_settings \<Rightarrow> access_error + (('id, 'url) service_dialer \<times> access_status_row) list" where
  "build_dialers parse_id id_text parse defaults cfg =
     (case resolve_relay_urls parse defaults (ns_relay_urls (access_node cfg)) of
        Inl e \<Rightarrow> Inl (NodeRelays e)
      | Inr node_relay_urls \<Rightarrow>
          try_map (build_dialer parse_id id_text parse defaults node_relay_urls) (access_services cfg))"

definition access_ready_services ::
    "(string \<Rightarrow> 'id option) \<Rightarrow> ('id \<Rightarrow> string) \<Rightarrow> 'sk access_settings \<Rightarrow> ready_services" where
  "access_ready_services parse_id id_text cfg =
     AccessServices
       (map (\<lambda>svc. \<lparr>ay_name = as_name svc, ay_listen_addr = format_addr (as_host svc) (as_port svc),
                     ay_peer_display = (case parse_id (as_node_id svc) of Some i \<Rightarrow> id_text i | None \<Rightarrow> as_node_id svc),
                     ay_protocol = as_protocol svc, ay_relay_override_count = length (as_relay_urls svc)\<rparr>)
         (access_services cfg))"

text \<open>A dialer carries only its own service's relays. When the dialers are built there is one per
service, in order, with that service's ALPN, protocol and limits, dialling the configured peer over
exactly the service's relay override, or the node's relays when it has none.\<close>

theorem build_dialers_faithful:
  assumes "build_dialers parse_id id_text parse defaults cfg = Inr ds"
  shows "list_all2 (\<lambda>svc (d, row).
       parse_id (as_node_id svc) = Some (ea_id (sd_addr d))
     \<and> (\<exists>urls. service_relays parse defaults (ns_relay_urls (access_node cfg)) svc = Inr urls
            \<and> set (ea_relays (sd_addr d)) = set urls)
     \<and> sd_alpn d = alpn_for (as_name svc) \<and> sd_protocol d = as_protocol svc \<and> sd_udp_limits d = as_udp svc
     \<and> ar_name row = as_name svc \<and> ar_peer row = id_text (ea_id (sd_addr d)))
    (access_services cfg) ds"
proof -
  from assms obtain node where node: "resolve_relay_urls parse defaults (ns_relay_urls (access_node cfg)) = Inr node"
    and ds: "list_all2 (\<lambda>svc d. build_dialer parse_id id_text parse defaults node svc = Inr d) (access_services cfg) ds"
    by (auto simp: build_dialers_def try_map_Inr split: sum.splits)
  show ?thesis
    by (rule list_all2_mono [OF ds])
      (auto simp: build_dialer_def service_relays_def service_dialer_new_def Let_def node set_dial_relays split: option.splits sum.splits if_splits)
qed

lemma build_dialers_faithful_witness:
  "\<exists>ds. build_dialers Some id Some [''https://n0''] demo_access_settings = Inr ds \<and> length ds = 2"
proof -
  obtain ds where ds: "build_dialers Some id Some [''https://n0''] demo_access_settings = Inr ds"
    by (simp add: build_dialers_def build_dialer_def demo_access_settings_def demo_access_service_def
        resolve_relay_urls_def parse_relay_def Let_def)
  from list_all2_lengthD [OF build_dialers_faithful [OF ds]] ds show ?thesis
    by (simp add: demo_access_settings_def)
qed

section \<open>Status\<close>

record access_service_observation =
  aso_name :: string
  aso_listen_addr :: string
  aso_peer :: string
  aso_transports :: "transport_observation list"
  aso_local_bound_addrs :: "string list"
  aso_udp :: "udp_observation option"

record access_observation =
  ao_node_id :: string
  ao_pid :: nat
  ao_started_at :: nat
  ao_services :: "access_service_observation list"

text \<open>
  \<open>path_report\<close> of a dialer: the report of the peer of its cached connection, if it has one.
  \<open>report\<close> is \<open>peer_path_report\<close> on the endpoint; all connections of a dialer are to one peer.
\<close>

definition path_report :: "(string \<Rightarrow> peer_path_observation option) \<Rightarrow> string \<Rightarrow> dialer_state \<Rightarrow> peer_path_observation option" where
  "path_report report peer s = (case dl_conn s of None \<Rightarrow> None | Some _ \<Rightarrow> report peer)"

definition render_access_row ::
    "(string \<Rightarrow> peer_path_observation option) \<Rightarrow> access_status_row \<Rightarrow> protocol \<Rightarrow> dialer_state \<Rightarrow> udp_stats
      \<Rightarrow> access_service_observation" where
  "render_access_row report row proto s stats =
     (let r = path_report report (ar_peer row) s in
      \<lparr>aso_name = ar_name row, aso_listen_addr = ar_listen_addr row, aso_peer = ar_peer row,
        aso_transports = (case r of Some p \<Rightarrow> pp_transports p | None \<Rightarrow> []),
        aso_local_bound_addrs = (case r of Some p \<Rightarrow> pp_local_bound_addrs p | None \<Rightarrow> []),
        aso_udp = (if proto = Udp then Some (snapshot stats) else None)\<rparr>)"

section \<open>One local client\<close>

definition CLIENT_CONNECT_DEADLINE :: duration where
  "CLIENT_CONNECT_DEADLINE = from_secs 30"

text \<open>What the two uses of \<open>get_or_dial\<close> and of \<open>open_bi\<close> answer; the second pair only after a failed
first open, when the failed connection has been evicted.\<close>

datatype open_stream_error = DialFailed string | OpenFailedAfterRedial string

definition open_client_stream ::
    "string + nat \<Rightarrow> string + nat \<Rightarrow> string + nat \<Rightarrow> string + nat \<Rightarrow> open_stream_error + nat" where
  "open_client_stream dial1 open1 dial2 open2 =
     (case dial1 of
        Inl e \<Rightarrow> Inl (DialFailed e)
      | Inr _ \<Rightarrow>
          (case open1 of
             Inr streams \<Rightarrow> Inr streams
           | Inl _ \<Rightarrow>
               (case dial2 of
                  Inl e \<Rightarrow> Inl (DialFailed e)
                | Inr _ \<Rightarrow> (case open2 of Inr streams \<Rightarrow> Inr streams | Inl e \<Rightarrow> Inl (OpenFailedAfterRedial e)))))"

datatype client_error =
    CancelledOnShutdown
  | ClientDeadlineExpired
  | OpenStreamFailed open_stream_error
  | PipeFailed string
  | PeerStoppedClient nat
  | PeerLost
  | DeliveryFailed string

text \<open>
  The wait for the streams, as the \<open>biased\<close> select decides it: when the stop resolves, and when
  and how \<open>open_client_stream\<close> answers.
\<close>

definition await_streams ::
    "instant option \<Rightarrow> (instant \<times> (open_stream_error + nat)) option \<Rightarrow> instant \<Rightarrow> client_error + nat" where
  "await_streams stop_at opened deadline =
     (let until = (case opened of None \<Rightarrow> deadline | Some (t, _) \<Rightarrow> min t deadline) in
      if (case stop_at of None \<Rightarrow> False | Some t \<Rightarrow> t \<le> until) then Inl CancelledOnShutdown
      else (case opened of
              None \<Rightarrow> Inl ClientDeadlineExpired
            | Some (t, r) \<Rightarrow>
                (if deadline < t then Inl ClientDeadlineExpired
                 else (case r of
                         Inr streams \<Rightarrow> Inr streams
                       | Inl e \<Rightarrow> if deadline \<le> t then Inl ClientDeadlineExpired else Inl (OpenStreamFailed e)))))"

definition handle_local_connection ::
    "instant option \<Rightarrow> (instant \<times> (open_stream_error + nat)) option \<Rightarrow> instant
      \<Rightarrow> (nat \<Rightarrow> string + unit) \<Rightarrow> (duration \<times> (string + nat option)) option \<Rightarrow> client_error + unit" where
  "handle_local_connection stop_at opened deadline pipe delivered =
     (case await_streams stop_at opened deadline of
        Inl e \<Rightarrow> Inl e
      | Inr streams \<Rightarrow>
          (case pipe streams of
             Inl e \<Rightarrow> Inl (PipeFailed e)
           | Inr _ \<Rightarrow>
               (case await_delivery delivered DELIVERY_ACK_GRACE of
                  Acknowledged \<Rightarrow> Inr ()
                | PeerStopped code \<Rightarrow> Inl (PeerStoppedClient code)
                | Unconfirmed \<Rightarrow> Inl PeerLost
                | Lost e \<Rightarrow> Inl (DeliveryFailed e))))"

text \<open>C13: success of a tunnel means delivery. A local client's tunnel is reported as closed normally
exactly when its streams were opened within the deadline and before any stop, both directions were
piped without error, and the peer acknowledged every byte within the grace; a missing
acknowledgement is never success.\<close>

theorem tunnel_success_iff:
  "handle_local_connection stop_at opened deadline pipe delivered = Inr () \<longleftrightarrow>
     (\<exists>t streams d. opened = Some (t, Inr streams) \<and> t \<le> deadline
        \<and> (case stop_at of None \<Rightarrow> True | Some s \<Rightarrow> t < s)
        \<and> pipe streams = Inr () \<and> delivered = Some (d, Inr None) \<and> d \<le> DELIVERY_ACK_GRACE)"
  by (auto simp: handle_local_connection_def await_streams_def await_delivery_def Let_def min_def
      split: option.splits sum.splits if_splits)

section \<open>The path poller's task\<close>

definition PATH_POLL_INTERVAL :: duration where
  "PATH_POLL_INTERVAL = from_secs 5"

text \<open>Ticks until the connection closes; a tick without a report changes nothing.\<close>

fun poller_task :: "transport_observation list \<Rightarrow> peer_path_observation option list \<Rightarrow> string list" where
  "poller_task base [] = []"
| "poller_task base (None # rs) = poller_task base rs"
| "poller_task base (Some r # rs) =
     (case poller_step base (pp_transports r) of
        (line, base') \<Rightarrow> (case line of None \<Rightarrow> [] | Some l \<Rightarrow> [l]) @ poller_task base' rs)"

lemma poller_task_run: "poller_task base rs = poller_run base (map pp_transports (List.map_filter id rs))"
  by (induction base rs rule: poller_task.induct) (auto simp: List.map_filter_simps split: prod.splits)

section \<open>The listen loop of a TCP service\<close>

datatype listen_phase = Binding | Accepting | AcceptBackoff | ListenDraining instant | ListenEnded

record listener =
  ls_phase :: listen_phase
  ls_clients :: "nat list"
  ls_accepted :: nat

definition listener_start :: listener where
  "listener_start = \<lparr>ls_phase = Binding, ls_clients = [], ls_accepted = 0\<rparr>"

datatype listen_event =
    ListenStop instant
  | Bound bool
  | ClientAccepted
  | AcceptFailed
  | BackoffOver
  | ClientEnded nat
  | ListenDrained instant

fun listen_step :: "listen_event \<Rightarrow> listener \<Rightarrow> listener" where
  "listen_step (ListenStop d) s =
     (case ls_phase s of
        Binding \<Rightarrow> s\<lparr>ls_phase := ListenEnded\<rparr>
      | Accepting \<Rightarrow> s\<lparr>ls_phase := ListenDraining d\<rparr>
      | AcceptBackoff \<Rightarrow> s\<lparr>ls_phase := ListenDraining d\<rparr>
      | _ \<Rightarrow> s)"
| "listen_step (Bound ok) s =
     (if ls_phase s = Binding then s\<lparr>ls_phase := (if ok then Accepting else ListenEnded)\<rparr> else s)"
| "listen_step ClientAccepted s =
     (if ls_phase s = Accepting
      then s\<lparr>ls_clients := ls_clients s @ [ls_accepted s], ls_accepted := ls_accepted s + 1\<rparr> else s)"
| "listen_step AcceptFailed s = (if ls_phase s = Accepting then s\<lparr>ls_phase := AcceptBackoff\<rparr> else s)"
| "listen_step BackoffOver s = (if ls_phase s = AcceptBackoff then s\<lparr>ls_phase := Accepting\<rparr> else s)"
| "listen_step (ClientEnded c) s = s\<lparr>ls_clients := remove1 c (ls_clients s)\<rparr>"
| "listen_step (ListenDrained now) s =
     (case ls_phase s of
        ListenDraining d \<Rightarrow>
          (if ls_clients s = [] \<or> d \<le> now then s\<lparr>ls_phase := ListenEnded, ls_clients := []\<rparr> else s)
      | _ \<Rightarrow> s)"

definition stops_in :: "listen_event list \<Rightarrow> bool" where
  "stops_in evs \<longleftrightarrow> list_ex (\<lambda>ev. case ev of ListenStop _ \<Rightarrow> True | Bound ok \<Rightarrow> \<not> ok | _ \<Rightarrow> False) evs"

definition listener_inv :: "listener \<Rightarrow> bool" where
  "listener_inv s \<longleftrightarrow> (ls_phase s = Binding \<or> ls_phase s = ListenEnded \<longrightarrow> ls_clients s = [])"

lemma listener_step_inv: "listener_inv s \<Longrightarrow> listener_inv (listen_step ev s)"
  by (cases ev) (auto simp: listener_inv_def split: listen_phase.splits)

lemma listener_running:
  "\<not> stops_in evs \<Longrightarrow> ls_phase s \<in> {Binding, Accepting, AcceptBackoff} \<Longrightarrow>
     ls_phase (fold listen_step evs s) \<in> {Binding, Accepting, AcceptBackoff}"
proof (induction evs arbitrary: s)
  case (Cons ev evs)
  have "ls_phase (listen_step ev s) \<in> {Binding, Accepting, AcceptBackoff}"
    using Cons.prems by (cases ev) (auto simp: stops_in_def)
  with Cons.IH Cons.prems(1) show ?case by (simp add: stops_in_def)
qed simp

text \<open>A listener ends only by a stop or a failed bind, and leaves no client behind. Accept errors,
failing clients and backoff never end it, and when it has ended every client task is gone.\<close>

theorem listener_ends_by_stop:
  assumes "ls_phase (fold listen_step evs listener_start) = ListenEnded"
  shows "stops_in evs \<and> ls_clients (fold listen_step evs listener_start) = []"
proof -
  have "listener_inv s \<Longrightarrow> listener_inv (fold listen_step evs s)" for s
    by (induction evs arbitrary: s) (simp_all add: listener_step_inv del: listen_step.simps)
  from this [of listener_start] have "listener_inv (fold listen_step evs listener_start)"
    by (simp add: listener_inv_def listener_start_def)
  with assms listener_running [of evs listener_start] show ?thesis
    by (auto simp: listener_inv_def listener_start_def)
qed

lemma listener_ends_by_stop_witness:
  "stops_in [Bound True, ClientAccepted, AcceptFailed, ListenStop 5, ListenDrained 5]
   \<and> ls_clients (fold listen_step [Bound True, ClientAccepted, AcceptFailed, ListenStop 5, ListenDrained 5] listener_start) = []"
  by (rule listener_ends_by_stop) (simp add: listener_start_def)

section \<open>The run as a whole\<close>

record access_env =
  ae_on_ready :: "ready_services \<Rightarrow> string + unit"
  ae_sink :: "bool option"
  ae_stop_at :: instant
  ae_owners :: "task list list"
  ae_flush :: task

datatype access_run_error = HookFailed string | BuildFailed access_error

definition run_access ::
    "(string \<Rightarrow> 'id option) \<Rightarrow> ('id \<Rightarrow> string) \<Rightarrow> (string \<Rightarrow> 'url option) \<Rightarrow> 'url list
      \<Rightarrow> access_env \<Rightarrow> 'sk access_settings \<Rightarrow> role_event list \<times> access_run_error run_completion \<times> instant" where
  "run_access parse_id id_text parse defaults e cfg =
     (case ae_on_ready e (access_ready_services parse_id id_text cfg) of
        Inl err \<Rightarrow> ([EndpointClosed], \<lparr>rc_result = Inl (HookFailed err), status_quiesced = True\<rparr>, 0)
      | Inr _ \<Rightarrow>
          (case build_dialers parse_id id_text parse defaults cfg of
             Inl err \<Rightarrow> ([ReportedReady], \<lparr>rc_result = Inl (BuildFailed err), status_quiesced = True\<rparr>, 0)
           | Inr _ \<Rightarrow>
               (let saved = (case ae_sink e of None \<Rightarrow> [] | Some ok \<Rightarrow> [SavedStatus ok]);
                    deadline = ae_stop_at e + DRAIN_GRACE;
                    joined = join_owners (ae_stop_at e) deadline (ae_owners e);
                    (flushed, quiesced) =
                      (case ae_sink e of None \<Rightarrow> (joined, True) | Some _ \<Rightarrow> stop_flush joined (ae_flush e))
                in (ReportedReady # saved @ [AdmissionOpened, DrainBegan deadline, OwnersJoined, AuxiliaryStopped]
                      @ (case ae_sink e of None \<Rightarrow> [] | Some _ \<Rightarrow> [FlushStopped quiesced]) @ [EndpointClosed],
                    \<lparr>rc_result = Inr (), status_quiesced = quiesced\<rparr>, flushed))))"


text \<open>The run that reports readiness and then fails to resolve its configuration does not close its
endpoint; the failing hook's does.\<close>

lemma build_failure_leaves_endpoint_open:
  "ae_on_ready e (access_ready_services parse_id id_text cfg) = Inr () \<Longrightarrow>
   build_dialers parse_id id_text parse defaults cfg = Inl err \<Longrightarrow>
     fst (run_access parse_id id_text parse defaults e cfg) = [ReportedReady]"
  by (simp add: run_access_def)

end
