(* ===== verification/ConfigDoc.thy ===== *)
theory ConfigDoc
  imports ConfigSchema RoleRun
begin

text \<open>
  The editable TOML document and the edits the \<open>config\<close> commands make on it
  (\<open>config/mutate.rs\<close>, \<open>set_service.rs\<close>, \<open>remove_service.rs\<close>, \<open>list_services.rs\<close>,
  and the document helpers of \<open>store.rs\<close>), with the deserialization of a document into the
  schema of theory ConfigSchema.

  A document is \<open>toml_edit\<close>'s tree: values and keys carry their surrounding white space and
  comments (\<open>decor\<close>), tables keep the order of their keys. What the decor says is opaque.
\<close>

section \<open>The document\<close>

type_synonym decor = string

datatype tvalue =
    VString string decor
  | VInteger int decor
  | VFloat string decor
  | VBool bool decor
  | VDatetime string decor
  | VArray "tvalue list" decor
  | VInline tbl decor
and titem =
    Val tvalue
  | Tab tbl
  | AoT "tbl list"
and tbl = Tbl decor "(string \<times> decor \<times> titem) list"

fun value_decor :: "tvalue \<Rightarrow> decor" where
  "value_decor (VString _ d) = d"
| "value_decor (VInteger _ d) = d"
| "value_decor (VFloat _ d) = d"
| "value_decor (VBool _ d) = d"
| "value_decor (VDatetime _ d) = d"
| "value_decor (VArray _ d) = d"
| "value_decor (VInline _ d) = d"

fun with_decor :: "tvalue \<Rightarrow> decor \<Rightarrow> tvalue" where
  "with_decor (VString x _) d = VString x d"
| "with_decor (VInteger x _) d = VInteger x d"
| "with_decor (VFloat x _) d = VFloat x d"
| "with_decor (VBool x _) d = VBool x d"
| "with_decor (VDatetime x _) d = VDatetime x d"
| "with_decor (VArray x _) d = VArray x d"
| "with_decor (VInline x _) d = VInline x d"

fun as_str :: "titem \<Rightarrow> string option" where
  "as_str (Val (VString s _)) = Some s"
| "as_str _ = None"

fun as_integer :: "titem \<Rightarrow> int option" where
  "as_integer (Val (VInteger n _)) = Some n"
| "as_integer _ = None"

fun as_value :: "titem \<Rightarrow> tvalue option" where
  "as_value (Val v) = Some v"
| "as_value _ = None"

fun as_aot :: "titem \<Rightarrow> tbl list option" where
  "as_aot (AoT ts) = Some ts"
| "as_aot _ = None"

fun as_table_like :: "titem \<Rightarrow> tbl option" where
  "as_table_like (Tab t) = Some t"
| "as_table_like (Val (VInline t _)) = Some t"
| "as_table_like _ = None"

fun with_table :: "titem \<Rightarrow> tbl \<Rightarrow> titem" where
  "with_table (Val (VInline _ d)) t = Val (VInline t d)"
| "with_table _ t = Tab t"

text \<open>Lookup by key, \<open>t[key] = item\<close> (which keeps the key and its decor, or appends) and \<open>remove\<close>.\<close>

fun entry_get :: "(string \<times> decor \<times> titem) list \<Rightarrow> string \<Rightarrow> titem option" where
  "entry_get [] k = None"
| "entry_get ((k', _, i) # es) k = (if k' = k then Some i else entry_get es k)"

fun entry_set :: "string \<Rightarrow> titem \<Rightarrow> (string \<times> decor \<times> titem) list \<Rightarrow> (string \<times> decor \<times> titem) list" where
  "entry_set k i [] = [(k, [], i)]"
| "entry_set k i ((k', d, j) # es) = (if k' = k then (k', d, i) # es else (k', d, j) # entry_set k i es)"

fun tget :: "tbl \<Rightarrow> string \<Rightarrow> titem option" where
  "tget (Tbl _ es) k = entry_get es k"

fun tset :: "string \<Rightarrow> titem \<Rightarrow> tbl \<Rightarrow> tbl" where
  "tset k i (Tbl d es) = Tbl d (entry_set k i es)"

fun tremove :: "string \<Rightarrow> tbl \<Rightarrow> tbl" where
  "tremove k (Tbl d es) = Tbl d (List.filter (\<lambda>(k', _). k' \<noteq> k) es)"

definition tbl_new :: tbl where
  "tbl_new = Tbl [] []"

lemma entry_get_set [simp]: "entry_get (entry_set k i es) k' = (if k' = k then Some i else entry_get es k')"
  by (induction es) auto

lemma entry_get_filter [simp]:
  "entry_get (List.filter (\<lambda>(k', _). k' \<noteq> k) es) k'' = (if k'' = k then None else entry_get es k'')"
  by (induction es) auto

lemma tget_tset [simp]: "tget (tset k i t) k' = (if k' = k then Some i else tget t k')"
  by (cases t) simp

lemma tget_tremove [simp]: "tget (tremove k t) k' = (if k' = k then None else tget t k')"
  by (cases t) simp

lemma tget_new [simp]: "tget tbl_new k = None"
  by (simp add: tbl_new_def)

text \<open>\<open>toml_edit::value\<close>: a value with the default decor, here the empty one.\<close>

definition str_value :: "string \<Rightarrow> titem" where
  "str_value s = Val (VString s [])"

definition int_value :: "int \<Rightarrow> titem" where
  "int_value n = Val (VInteger n [])"

lemma value_sel [simp]:
  "as_str (str_value s) = Some s" "as_integer (int_value n) = Some n"
  "as_str (int_value n) = None" "as_integer (str_value s) = None"
  by (simp_all add: str_value_def int_value_def)

section \<open>Requests and outcomes\<close>

datatype role = Serve | Access

fun role_name :: "role \<Rightarrow> string" where
  "role_name Serve = ''serve''"
| "role_name Access = ''access''"

fun status_file_name :: "role \<Rightarrow> string" where
  "status_file_name Serve = ''serve-status.json''"
| "status_file_name Access = ''access-status.json''"

record set_request =
  rq_name :: string
  rq_host :: "string option"
  rq_port :: "u16 option"
  rq_protocol :: "protocol option"
  rq_node_id :: "string option"

datatype service_field = Address | ProtocolField | NodeId

fun field_label :: "service_field \<Rightarrow> role \<Rightarrow> string" where
  "field_label Address Serve = ''target''"
| "field_label Address Access = ''listen''"
| "field_label ProtocolField _ = ''protocol''"
| "field_label NodeId _ = ''node_id''"

record field_change =
  fc_field :: service_field
  fc_old :: string
  fc_new :: string

datatype set_outcome = Created | Updated "field_change list" | Unchanged

text \<open>What a change decides, and why it fails.\<close>

datatype 'a edit = Apply 'a | Keep 'a

datatype doc_error =
    ServicesShape
  | NodeShape
  | NoValidPort string
  | MissingForCreate string "string list"
  | NoSuchService string
  | StoredKey

section \<open>Documents: helpers\<close>

text \<open>\<open>iter().position(..)\<close> of the entry with the given name.\<close>

fun name_position :: "string \<Rightarrow> tbl list \<Rightarrow> nat option" where
  "name_position name [] = None"
| "name_position name (t # ts) =
     (if Option.bind (tget t ''name'') as_str = Some name then Some 0
      else map_option Suc (name_position name ts))"

definition find_service_index :: "tbl \<Rightarrow> string \<Rightarrow> doc_error + nat option" where
  "find_service_index doc name =
     (case tget doc ''services'' of
        None \<Rightarrow> Inr None
      | Some item \<Rightarrow> (case as_aot item of
                       None \<Rightarrow> Inl ServicesShape
                     | Some services \<Rightarrow> Inr (name_position name services)))"

fun strip_value :: "tvalue \<Rightarrow> tvalue" where
  "strip_value (VInline t d) = VInline (tremove ''multiplex'' t) d"
| "strip_value v = v"

fun strip_services :: "titem \<Rightarrow> titem" where
  "strip_services (AoT ts) = AoT (map (tremove ''multiplex'') ts)"
| "strip_services (Val (VArray vs d)) = Val (VArray (map strip_value vs) d)"
| "strip_services i = i"

definition strip_retired_fields :: "tbl \<Rightarrow> tbl" where
  "strip_retired_fields doc =
     (case tget doc ''services'' of None \<Rightarrow> doc | Some i \<Rightarrow> tset ''services'' (strip_services i) doc)"

definition ensure_node_table :: "tbl \<Rightarrow> doc_error + tbl" where
  "ensure_node_table doc =
     (case tget doc ''node'' of
        None \<Rightarrow> Inr (tset ''node'' (Tab tbl_new) doc)
      | Some item \<Rightarrow> if as_table_like item \<noteq> None then Inr doc else Inl NodeShape)"

definition existing_secret_key :: "tbl \<Rightarrow> string option" where
  "existing_secret_key doc =
     (case Option.bind (Option.bind (Option.bind (tget doc ''node'') as_table_like)
             (\<lambda>n. tget n ''secret_key'')) as_str of
        Some k \<Rightarrow> if k = [] then None else Some k
      | None \<Rightarrow> None)"

text \<open>\<open>doc["node"]["secret_key"] = toml_edit::value(key)\<close> on a document with a node table.\<close>

definition set_node_key :: "string \<Rightarrow> tbl \<Rightarrow> tbl" where
  "set_node_key key doc =
     (case tget doc ''node'' of
        Some item \<Rightarrow> (case as_table_like item of
             Some n \<Rightarrow> tset ''node'' (with_table item (tset ''secret_key'' (str_value key) n)) doc
           | None \<Rightarrow> doc)
      | None \<Rightarrow> doc)"

definition REDACTED :: string where
  "REDACTED = ''<redacted>''"

definition redact_field :: "string \<Rightarrow> tbl \<Rightarrow> tbl" where
  "redact_field field node =
     (case Option.bind (tget node field) as_value of
        Some v \<Rightarrow> tset field (Val (VString REDACTED (value_decor v))) node
      | None \<Rightarrow> node)"

definition redact_secrets :: "tbl \<Rightarrow> tbl" where
  "redact_secrets doc =
     (case tget doc ''node'' of
        Some item \<Rightarrow> (case as_table_like item of
             Some n \<Rightarrow> tset ''node'' (with_table item (redact_field ''relay_token'' (redact_field ''secret_key'' n))) doc
           | None \<Rightarrow> doc)
      | None \<Rightarrow> doc)"

section \<open>Documents: the commands\<close>

definition DEFAULT_HOST :: string where
  "DEFAULT_HOST = ''127.0.0.1''"

definition DEFAULT_PROTOCOL :: string where
  "DEFAULT_PROTOCOL = ''tcp''"

text \<open>\<open>replace\<close>: the new value keeps the old value's decor.\<close>

definition replace_value :: "string \<Rightarrow> tvalue \<Rightarrow> tbl \<Rightarrow> tbl" where
  "replace_value key v entry =
     tset key (Val (case Option.bind (tget entry key) as_value of
                      Some old \<Rightarrow> with_decor v (value_decor old) | None \<Rightarrow> v)) entry"

definition str_of :: "tbl \<Rightarrow> string \<Rightarrow> string option" where
  "str_of entry key = Option.bind (tget entry key) as_str"

definition missing_flags :: "role \<Rightarrow> set_request \<Rightarrow> string list" where
  "missing_flags role req =
     (if rq_port req = None then [case role of Serve \<Rightarrow> ''--target'' | Access \<Rightarrow> ''--listen''] else []) @
     (if role = Access \<and> rq_node_id req = None then [''--node-id''] else [])"

definition new_entry :: "role \<Rightarrow> set_request \<Rightarrow> u16 \<Rightarrow> tbl" where
  "new_entry role req port =
     (let e1 = tset ''name'' (str_value (rq_name req)) tbl_new;
          e2 = tset ''protocol'' (str_value (case rq_protocol req of None \<Rightarrow> DEFAULT_PROTOCOL | Some p \<Rightarrow> protocol_as_str p)) e1;
          e3 = tset ''host'' (str_value (unwrap_or (rq_host req) DEFAULT_HOST)) e2;
          e4 = tset ''port'' (int_value (uint port)) e3
      in case (role, rq_node_id req) of
           (Access, Some node_id) \<Rightarrow> tset ''node_id'' (str_value node_id) e4
         | _ \<Rightarrow> e4)"

definition create_service :: "role \<Rightarrow> set_request \<Rightarrow> tbl \<Rightarrow> doc_error + tbl" where
  "create_service role req doc =
     (case (if missing_flags role req = [] then rq_port req else None) of
        None \<Rightarrow> Inl (MissingForCreate (rq_name req) (missing_flags role req))
      | Some port \<Rightarrow>
          (let entry = new_entry role req port
           in case tget doc ''services'' of
                None \<Rightarrow> Inr (tset ''services'' (AoT [entry]) doc)
              | Some item \<Rightarrow> (case as_aot item of
                     Some ts \<Rightarrow> Inr (tset ''services'' (AoT (ts @ [entry])) doc)
                   | None \<Rightarrow> Inr doc)))"

text \<open>The host's own copy of the engine's address text.\<close>

definition display_addr :: "string \<Rightarrow> u16 \<Rightarrow> string" where
  "display_addr host port =
     (if CHR '':'' \<in> set host then ''['' @ host @ '']:'' @ nat_str (unat port)
      else host @ '':'' @ nat_str (unat port))"

definition u16_try_from :: "int \<Rightarrow> u16 option" where
  "u16_try_from n = (if 0 \<le> n \<and> n < 65536 then Some (word_of_int n) else None)"

definition update_address :: "set_request \<Rightarrow> tbl \<Rightarrow> doc_error + tbl \<times> field_change list" where
  "update_address req entry =
     (case rq_port req of
        None \<Rightarrow> Inr (entry, [])
      | Some port \<Rightarrow>
          (let cur_host = unwrap_or (str_of entry ''host'') DEFAULT_HOST
           in case Option.bind (Option.bind (tget entry ''port'') as_integer) u16_try_from of
                None \<Rightarrow> Inl (NoValidPort (rq_name req))
              | Some cur_port \<Rightarrow>
                  (let new_host = unwrap_or (rq_host req) cur_host
                   in if new_host \<noteq> cur_host \<or> port \<noteq> cur_port then
                        (let e1 = (if new_host \<noteq> cur_host then replace_value ''host'' (VString new_host []) entry else entry);
                             e2 = (if port \<noteq> cur_port then replace_value ''port'' (VInteger (uint port) []) e1 else e1)
                         in Inr (e2, [\<lparr>fc_field = Address, fc_old = display_addr cur_host cur_port,
                                         fc_new = display_addr new_host port\<rparr>]))
                      else Inr (entry, []))))"

definition update_protocol :: "set_request \<Rightarrow> tbl \<Rightarrow> tbl \<times> field_change list" where
  "update_protocol req entry =
     (case rq_protocol req of
        None \<Rightarrow> (entry, [])
      | Some protocol \<Rightarrow>
          (let cur = unwrap_or (str_of entry ''protocol'') DEFAULT_PROTOCOL
           in if cur \<noteq> protocol_as_str protocol then
                (replace_value ''protocol'' (VString (protocol_as_str protocol) []) entry,
                 [\<lparr>fc_field = ProtocolField, fc_old = cur, fc_new = protocol_as_str protocol\<rparr>])
              else (entry, [])))"

definition update_node_id :: "set_request \<Rightarrow> tbl \<Rightarrow> tbl \<times> field_change list" where
  "update_node_id req entry =
     (case rq_node_id req of
        None \<Rightarrow> (entry, [])
      | Some node_id \<Rightarrow>
          (let cur = unwrap_or (str_of entry ''node_id'') []
           in if cur \<noteq> node_id then
                (replace_value ''node_id'' (VString node_id []) entry,
                 [\<lparr>fc_field = NodeId, fc_old = cur, fc_new = node_id\<rparr>])
              else (entry, [])))"

definition update_entry :: "set_request \<Rightarrow> tbl \<Rightarrow> doc_error + tbl \<times> field_change list" where
  "update_entry req entry =
     and_then (update_address req entry) (\<lambda>(e1, c1).
       (let (e2, c2) = update_protocol req e1;
            (e3, c3) = update_node_id req e2
        in Inr (e3, c1 @ c2 @ c3)))"

definition update_service :: "nat \<Rightarrow> set_request \<Rightarrow> tbl \<Rightarrow> doc_error + tbl \<times> field_change list" where
  "update_service index req doc =
     (case Option.bind (tget doc ''services'') as_aot of
        Some ts \<Rightarrow>
          if index < length ts then
            and_then (update_entry req (ts ! index)) (\<lambda>(entry, changes).
              Inr (tset ''services'' (AoT (ts[index := entry])) doc, changes))
          else Inl ServicesShape
      | None \<Rightarrow> Inl ServicesShape)"

definition set_change :: "role \<Rightarrow> set_request \<Rightarrow> tbl \<Rightarrow> doc_error + set_outcome edit \<times> tbl" where
  "set_change role req doc =
     and_then (find_service_index doc (rq_name req)) (\<lambda>found.
       case found of
         None \<Rightarrow> and_then (create_service role req doc) (\<lambda>doc'. Inr (Apply Created, doc'))
       | Some index \<Rightarrow>
           and_then (update_service index req doc) (\<lambda>(doc', changes).
             Inr (if changes = [] then Keep Unchanged else Apply (Updated changes), doc')))"

fun remove_nth :: "nat \<Rightarrow> 'a list \<Rightarrow> 'a list" where
  "remove_nth _ [] = []"
| "remove_nth 0 (x # xs) = xs"
| "remove_nth (Suc n) (x # xs) = x # remove_nth n xs"

definition remove_change :: "string \<Rightarrow> tbl \<Rightarrow> doc_error + unit edit \<times> tbl" where
  "remove_change name doc =
     (case Option.bind (tget doc ''services'') as_aot of
        None \<Rightarrow> Inl (NoSuchService name)
      | Some ts \<Rightarrow> (case name_position name ts of
                     None \<Rightarrow> Inl (NoSuchService name)
                   | Some idx \<Rightarrow> Inr (Apply (), tset ''services'' (AoT (remove_nth idx ts)) doc)))"

text \<open>The rows of \<open>config list\<close>.\<close>

record service_row =
  row_name :: "string option"
  row_node_id :: "string option"
  row_protocol :: "string option"
  row_host :: "string option"
  row_port :: "int option"

definition list_rows :: "tbl \<Rightarrow> service_row list option" where
  "list_rows doc =
     map_option (map (\<lambda>t. \<lparr>row_name = str_of t ''name'', row_node_id = str_of t ''node_id'',
                            row_protocol = str_of t ''protocol'', row_host = str_of t ''host'',
                            row_port = Option.bind (tget t ''port'') as_integer\<rparr>))
       (Option.bind (tget doc ''services'') as_aot)"

section \<open>Deserialization\<close>

text \<open>
  What \<open>toml::from_str\<close> gives for a document, as the derived deserializers with their
  attributes say: \<open>#[serde(default)]\<close>, the flattened UDP settings, unknown keys ignored, a
  value of another type or out of range an error (\<open>None\<close>). The node table and the services
  are tables; serde's positional form of a table is left out.
\<close>

fun opt_map :: "('a \<Rightarrow> 'b option) \<Rightarrow> 'a list \<Rightarrow> 'b list option" where
  "opt_map f [] = Some []"
| "opt_map f (x # xs) =
     (case f x of None \<Rightarrow> None | Some y \<Rightarrow> (case opt_map f xs of None \<Rightarrow> None | Some ys \<Rightarrow> Some (y # ys)))"

lemma opt_map_Cons:
  "opt_map f (x # xs) = Some zs \<longleftrightarrow> (\<exists>y ys. f x = Some y \<and> opt_map f xs = Some ys \<and> zs = y # ys)"
  by (auto split: option.splits)

lemma opt_map_append: "opt_map f (xs @ ys) =
    (case opt_map f xs of None \<Rightarrow> None | Some a \<Rightarrow> (case opt_map f ys of None \<Rightarrow> None | Some b \<Rightarrow> Some (a @ b)))"
  by (induction xs) (auto split: option.splits)

lemma opt_map_map_cong:
  "(\<And>x. x \<in> set xs \<Longrightarrow> f (g x) = f x) \<Longrightarrow> opt_map f (map g xs) = opt_map f xs"
  by (induction xs) (simp_all split: option.split)

fun string_value :: "tvalue \<Rightarrow> string option" where
  "string_value (VString s _) = Some s"
| "string_value _ = None"

fun strings_item :: "titem \<Rightarrow> string list option" where
  "strings_item (Val (VArray vs _)) = opt_map string_value vs"
| "strings_item _ = None"

definition required :: "(titem \<Rightarrow> 'a option) \<Rightarrow> tbl \<Rightarrow> string \<Rightarrow> 'a option" where
  "required f t key = Option.bind (tget t key) f"

definition defaulted :: "(titem \<Rightarrow> 'a option) \<Rightarrow> 'a \<Rightarrow> tbl \<Rightarrow> string \<Rightarrow> 'a option" where
  "defaulted f d t key = (case tget t key of None \<Rightarrow> Some d | Some i \<Rightarrow> f i)"

definition optional :: "(titem \<Rightarrow> 'a option) \<Rightarrow> tbl \<Rightarrow> string \<Rightarrow> 'a option option" where
  "optional f t key = (case tget t key of None \<Rightarrow> Some None | Some i \<Rightarrow> map_option Some (f i))"

definition uint_below :: "int \<Rightarrow> titem \<Rightarrow> int option" where
  "uint_below bound i = Option.bind (as_integer i) (\<lambda>n. if 0 \<le> n \<and> n < bound then Some n else None)"

definition u16_item :: "titem \<Rightarrow> u16 option" where
  "u16_item i = map_option word_of_int (uint_below (2 ^ 16) i)"

definition usize_item :: "titem \<Rightarrow> nat option" where
  "usize_item i = map_option nat (uint_below (2 ^ 64) i)"

definition protocol_item :: "titem \<Rightarrow> protocol option" where
  "protocol_item i =
     (case as_str i of
        None \<Rightarrow> None
      | Some s \<Rightarrow> if s = ''tcp'' then Some Tcp else if s = ''udp'' then Some Udp else None)"

definition decode_node :: "tbl \<Rightarrow> node_config option" where
  "decode_node t =
     Option.bind (defaulted as_str [] t ''secret_key'') (\<lambda>key.
     Option.bind (defaulted strings_item [] t ''relay_urls'') (\<lambda>urls.
     Option.bind (optional as_str t ''relay_token'') (\<lambda>token.
     Option.bind (optional (\<lambda>i. map_option word_of_int (uint_below (2 ^ 32) i)) t ''max_concurrent_streams'') (\<lambda>streams.
       Some \<lparr>nc_secret_key = key, nc_relay_urls = urls, nc_relay_token = token, nc_max_concurrent_streams = streams\<rparr>))))"

definition decode_udp :: "tbl \<Rightarrow> udp_settings option" where
  "decode_udp t =
     Option.bind (optional (\<lambda>i. map_option word_of_int (uint_below (2 ^ 64) i)) t ''idle_timeout'') (\<lambda>idle.
     Option.bind (optional usize_item t ''max_flows'') (\<lambda>flows.
     Option.bind (optional usize_item t ''max_flows_per_peer'') (\<lambda>per_peer.
     Option.bind (optional usize_item t ''queue_depth'') (\<lambda>depth.
       Some \<lparr>us_idle_timeout = idle, us_max_flows = flows, us_max_flows_per_peer = per_peer, us_queue_depth = depth\<rparr>))))"

definition decode_serve_service :: "tbl \<Rightarrow> serve_service option" where
  "decode_serve_service t =
     Option.bind (required as_str t ''name'') (\<lambda>name.
     Option.bind (required protocol_item t ''protocol'') (\<lambda>proto.
     Option.bind (defaulted as_str default_host t ''host'') (\<lambda>host.
     Option.bind (required u16_item t ''port'') (\<lambda>port.
     Option.bind (decode_udp t) (\<lambda>udp.
       Some \<lparr>sv_name = name, sv_protocol = proto, sv_host = host, sv_port = port, sv_udp = udp\<rparr>)))))"

definition decode_access_service :: "tbl \<Rightarrow> access_service option" where
  "decode_access_service t =
     Option.bind (required as_str t ''name'') (\<lambda>name.
     Option.bind (required as_str t ''node_id'') (\<lambda>node_id.
     Option.bind (required protocol_item t ''protocol'') (\<lambda>proto.
     Option.bind (defaulted as_str default_host t ''host'') (\<lambda>host.
     Option.bind (required u16_item t ''port'') (\<lambda>port.
     Option.bind (defaulted strings_item [] t ''relay_urls'') (\<lambda>urls.
     Option.bind (decode_udp t) (\<lambda>udp.
       Some \<lparr>av_name = name, av_node_id = node_id, av_protocol = proto, av_host = host, av_port = port,
              av_relay_urls = urls, av_udp = udp\<rparr>)))))))"

fun inline_table :: "tvalue \<Rightarrow> tbl option" where
  "inline_table (VInline t _) = Some t"
| "inline_table _ = None"

fun service_tables :: "titem \<Rightarrow> tbl list option" where
  "service_tables (AoT ts) = Some ts"
| "service_tables (Val (VArray vs _)) = opt_map inline_table vs"
| "service_tables _ = None"

definition decode_services :: "(tbl \<Rightarrow> 's option) \<Rightarrow> tbl \<Rightarrow> 's list option" where
  "decode_services f doc =
     defaulted (\<lambda>i. Option.bind (service_tables i) (opt_map f)) [] doc ''services''"

definition decode_node_table :: "tbl \<Rightarrow> node_config option" where
  "decode_node_table doc =
     defaulted (\<lambda>i. Option.bind (as_table_like i) decode_node) node_config_default doc ''node''"

definition decode_serve :: "tbl \<Rightarrow> serve_config option" where
  "decode_serve doc =
     Option.bind (decode_node_table doc) (\<lambda>node.
     Option.bind (decode_services decode_serve_service doc) (\<lambda>svcs.
       Some \<lparr>sc_node = node, sc_services = svcs\<rparr>))"

definition decode_access :: "tbl \<Rightarrow> access_config option" where
  "decode_access doc =
     Option.bind (decode_node_table doc) (\<lambda>node.
     Option.bind (decode_services decode_access_service doc) (\<lambda>svcs.
       Some \<lparr>ac_node = node, ac_services = svcs\<rparr>))"

end
