(* ===== verification/ConfigEdit.thy ===== *)
theory ConfigEdit
  imports ConfigDoc
begin

text \<open>
  The document edits of theory ConfigDoc refine operations on the decoded configuration:
  creating or updating a service, removing one, storing the node's key, dropping retired fields
  and redacting the secrets. Decoding the edited document is the operation on what was decoded.
\<close>

section \<open>The operations on a configuration\<close>

fun update_first :: "('a \<Rightarrow> bool) \<Rightarrow> ('a \<Rightarrow> 'a) \<Rightarrow> 'a list \<Rightarrow> 'a list option" where
  "update_first P f [] = None"
| "update_first P f (x # xs) =
     (if P x then Some (f x # xs) else map_option ((#) x) (update_first P f xs))"

fun remove_first :: "('a \<Rightarrow> bool) \<Rightarrow> 'a list \<Rightarrow> 'a list option" where
  "remove_first P [] = None"
| "remove_first P (x # xs) = (if P x then Some xs else map_option ((#) x) (remove_first P xs))"

definition serve_new :: "set_request \<Rightarrow> u16 \<Rightarrow> serve_service" where
  "serve_new req port =
     \<lparr>sv_name = rq_name req, sv_protocol = unwrap_or (rq_protocol req) Tcp,
       sv_host = unwrap_or (rq_host req) default_host, sv_port = port, sv_udp = udp_settings_default\<rparr>"

definition serve_apply :: "set_request \<Rightarrow> serve_service \<Rightarrow> serve_service" where
  "serve_apply req s =
     s\<lparr>sv_host := (if rq_port req = None then sv_host s else unwrap_or (rq_host req) (sv_host s)),
       sv_port := unwrap_or (rq_port req) (sv_port s),
       sv_protocol := unwrap_or (rq_protocol req) (sv_protocol s)\<rparr>"

definition serve_set :: "set_request \<Rightarrow> serve_service list \<Rightarrow> serve_service list option" where
  "serve_set req svcs =
     (case update_first (\<lambda>s. sv_name s = rq_name req) (serve_apply req) svcs of
        Some svcs' \<Rightarrow> Some svcs'
      | None \<Rightarrow> map_option (\<lambda>port. svcs @ [serve_new req port]) (rq_port req))"

definition access_new :: "set_request \<Rightarrow> u16 \<Rightarrow> string \<Rightarrow> access_service" where
  "access_new req port node_id =
     \<lparr>av_name = rq_name req, av_node_id = node_id, av_protocol = unwrap_or (rq_protocol req) Tcp,
       av_host = unwrap_or (rq_host req) default_host, av_port = port, av_relay_urls = [],
       av_udp = udp_settings_default\<rparr>"

definition access_apply :: "set_request \<Rightarrow> access_service \<Rightarrow> access_service" where
  "access_apply req s =
     s\<lparr>av_host := (if rq_port req = None then av_host s else unwrap_or (rq_host req) (av_host s)),
       av_port := unwrap_or (rq_port req) (av_port s),
       av_protocol := unwrap_or (rq_protocol req) (av_protocol s),
       av_node_id := unwrap_or (rq_node_id req) (av_node_id s)\<rparr>"

definition access_set :: "set_request \<Rightarrow> access_service list \<Rightarrow> access_service list option" where
  "access_set req svcs =
     (case update_first (\<lambda>s. av_name s = rq_name req) (access_apply req) svcs of
        Some svcs' \<Rightarrow> Some svcs'
      | None \<Rightarrow> (case (rq_port req, rq_node_id req) of
                   (Some port, Some node_id) \<Rightarrow> Some (svcs @ [access_new req port node_id])
                 | _ \<Rightarrow> None))"

section \<open>Fields after an edit\<close>

lemma field_tset [simp]:
  "required f (tset k i t) k' = (if k' = k then f i else required f t k')"
  "defaulted f d (tset k i t) k' = (if k' = k then f i else defaulted f d t k')"
  "optional f (tset k i t) k' = (if k' = k then map_option Some (f i) else optional f t k')"
  by (simp_all add: required_def defaulted_def optional_def)

lemma field_new [simp]:
  "required f tbl_new k = None" "defaulted f d tbl_new k = Some d" "optional f tbl_new k = Some None"
  by (simp_all add: required_def defaulted_def optional_def)

lemma field_tremove [simp]:
  "k' \<noteq> k \<Longrightarrow> required f (tremove k t) k' = required f t k'"
  "k' \<noteq> k \<Longrightarrow> defaulted f d (tremove k t) k' = defaulted f d t k'"
  "k' \<noteq> k \<Longrightarrow> optional f (tremove k t) k' = optional f t k'"
  by (simp_all add: required_def defaulted_def optional_def)

lemma field_replace_other [simp]:
  "k' \<noteq> k \<Longrightarrow> required f (replace_value k v t) k' = required f t k'"
  "k' \<noteq> k \<Longrightarrow> defaulted f d (replace_value k v t) k' = defaulted f d t k'"
  "k' \<noteq> k \<Longrightarrow> optional f (replace_value k v t) k' = optional f t k'"
  "k' \<noteq> k \<Longrightarrow> str_of (replace_value k v t) k' = str_of t k'"
  by (simp_all add: replace_value_def str_of_def required_def defaulted_def optional_def)

lemma field_replace [simp]:
  "required as_str (replace_value k (VString s d) t) k = Some s"
  "required protocol_item (replace_value k (VString s d) t) k = protocol_item (str_value s)"
  "defaulted as_str z (replace_value k (VString s d) t) k = Some s"
  "required u16_item (replace_value k (VInteger n d) t) k = u16_item (int_value n)"
  by (simp_all add: replace_value_def protocol_item_def u16_item_def uint_below_def required_def defaulted_def
      str_value_def int_value_def split: option.split)

lemma u16_item_uint [simp]: "u16_item (int_value (uint p)) = Some (p :: u16)"
proof -
  have "uint p < 2 ^ LENGTH(16)" by (rule unsigned_less)
  then show ?thesis by (simp add: u16_item_def uint_below_def)
qed

lemma protocol_item_str [simp]: "protocol_item (str_value (protocol_as_str p)) = Some p"
  by (cases p) (simp_all add: protocol_item_def)

lemma decode_udp_simps [simp]:
  "decode_udp tbl_new = Some udp_settings_default"
  "k \<notin> {''idle_timeout'', ''max_flows'', ''max_flows_per_peer'', ''queue_depth''} \<Longrightarrow>
     decode_udp (tset k i t) = decode_udp t"
  "k \<notin> {''idle_timeout'', ''max_flows'', ''max_flows_per_peer'', ''queue_depth''} \<Longrightarrow>
     decode_udp (tremove k t) = decode_udp t"
  by (auto simp: decode_udp_def udp_settings_default_def)

lemma decode_udp_replace [simp]:
  "k \<notin> {''idle_timeout'', ''max_flows'', ''max_flows_per_peer'', ''queue_depth''} \<Longrightarrow>
     decode_udp (replace_value k v t) = decode_udp t"
  by (simp add: replace_value_def)

lemma protocol_item_default [simp]:
  "protocol_item (str_value (case p of None \<Rightarrow> DEFAULT_PROTOCOL | Some q \<Rightarrow> protocol_as_str q)) =
     Some (unwrap_or p Tcp)"
proof (cases p)
  case (Some q)
  then show ?thesis by (cases q) (simp_all add: protocol_item_def)
qed (simp add: DEFAULT_PROTOCOL_def protocol_item_def)

lemma default_host_eq: "DEFAULT_HOST = default_host"
  by (simp add: DEFAULT_HOST_def default_host_def)

lemma decode_new:
  "decode_serve_service (new_entry Serve req port) = Some (serve_new req port)"
  "rq_node_id req = Some node_id \<Longrightarrow>
     decode_access_service (new_entry Access req port) = Some (access_new req port node_id)"
  by (simp_all add: decode_serve_service_def decode_access_service_def new_entry_def Let_def
      serve_new_def access_new_def default_host_eq)

section \<open>Updating one entry\<close>

lemma decode_serve_fields:
  "decode_serve_service t = Some s \<longleftrightarrow>
     required as_str t ''name'' = Some (sv_name s) \<and> required protocol_item t ''protocol'' = Some (sv_protocol s) \<and>
     defaulted as_str default_host t ''host'' = Some (sv_host s) \<and> required u16_item t ''port'' = Some (sv_port s) \<and>
     decode_udp t = Some (sv_udp s)"
  by (cases s) (auto simp: decode_serve_service_def bind_eq_Some_conv)

lemma decode_access_fields:
  "decode_access_service t = Some s \<longleftrightarrow>
     required as_str t ''name'' = Some (av_name s) \<and> required as_str t ''node_id'' = Some (av_node_id s) \<and>
     required protocol_item t ''protocol'' = Some (av_protocol s) \<and>
     defaulted as_str default_host t ''host'' = Some (av_host s) \<and> required u16_item t ''port'' = Some (av_port s) \<and>
     defaulted strings_item [] t ''relay_urls'' = Some (av_relay_urls s) \<and> decode_udp t = Some (av_udp s)"
  by (cases s) (auto simp: decode_access_service_def bind_eq_Some_conv)

lemma cur_host:
  "defaulted as_str default_host t ''host'' = Some h \<Longrightarrow> unwrap_or (str_of t ''host'') DEFAULT_HOST = h"
  by (auto simp: defaulted_def str_of_def default_host_eq split: option.splits)

lemma cur_port:
  "required u16_item t ''port'' = Some p \<Longrightarrow>
     Option.bind (tget t ''port'') (\<lambda>i. Option.bind (as_integer i) u16_try_from) = Some p"
  by (cases "tget t ''port''")
    (auto simp: required_def u16_item_def uint_below_def u16_try_from_def bind_eq_Some_conv split: if_splits)

lemma protocol_item_Some: "protocol_item i = Some p \<Longrightarrow> as_str i = Some (protocol_as_str p)"
  by (cases "as_str i") (auto simp: protocol_item_def split: if_splits)

lemma cur_protocol:
  "required protocol_item t ''protocol'' = Some p \<Longrightarrow> unwrap_or (str_of t ''protocol'') DEFAULT_PROTOCOL = protocol_as_str p"
  by (cases "tget t ''protocol''") (simp_all add: required_def str_of_def protocol_item_Some)

lemma cur_node_id:
  "required as_str t ''node_id'' = Some n \<Longrightarrow> unwrap_or (str_of t ''node_id'') [] = n"
  by (simp add: required_def str_of_def)

text \<open>One description of an update for both roles: the fields after it and the changes reported.\<close>

definition address_changes :: "set_request \<Rightarrow> string \<Rightarrow> u16 \<Rightarrow> field_change list" where
  "address_changes req host port =
     (case rq_port req of
        None \<Rightarrow> []
      | Some p \<Rightarrow> if unwrap_or (rq_host req) host = host \<and> p = port then []
                  else [\<lparr>fc_field = Address, fc_old = display_addr host port,
                          fc_new = display_addr (unwrap_or (rq_host req) host) p\<rparr>])"

definition text_changes :: "service_field \<Rightarrow> string option \<Rightarrow> string \<Rightarrow> field_change list" where
  "text_changes field new old =
     (case new of None \<Rightarrow> [] | Some v \<Rightarrow> if v = old then [] else [\<lparr>fc_field = field, fc_old = old, fc_new = v\<rparr>])"

lemma update_address_spec:
  assumes "defaulted as_str default_host t ''host'' = Some h" and "required u16_item t ''port'' = Some p"
  obtains t' where "update_address req t = Inr (t', address_changes req h p)"
    and "defaulted as_str default_host t' ''host'' = Some (if rq_port req = None then h else unwrap_or (rq_host req) h)"
    and "required u16_item t' ''port'' = Some (unwrap_or (rq_port req) p)"
    and "\<And>k. k \<noteq> ''host'' \<Longrightarrow> k \<noteq> ''port'' \<Longrightarrow> tget t' k = tget t k"
    and "address_changes req h p = [] \<longrightarrow> t' = t"
proof (cases "rq_port req")
  case None
  with that [of t] assms show thesis by (simp add: update_address_def address_changes_def)
next
  case (Some port)
  let ?nh = "unwrap_or (rq_host req) h"
  let ?e1 = "if ?nh \<noteq> h then replace_value ''host'' (VString ?nh []) t else t"
  let ?e2 = "if port \<noteq> p then replace_value ''port'' (VInteger (uint port) []) ?e1 else ?e1"
  show thesis
  proof (rule that [of ?e2])
    show "update_address req t = Inr (?e2, address_changes req h p)"
      by (simp add: update_address_def Some Let_def cur_host [OF assms(1)] cur_port [OF assms(2)] address_changes_def)
    show "defaulted as_str default_host ?e2 ''host'' = Some (if rq_port req = None then h else ?nh)"
      by (simp add: Some assms(1))
    show "required u16_item ?e2 ''port'' = Some (unwrap_or (rq_port req) p)"
      using u16_item_uint [of port, unfolded int_value_def]
      by (simp add: Some assms(2) int_value_def)
    show "tget ?e2 k = tget t k" if "k \<noteq> ''host''" "k \<noteq> ''port''" for k
      using that by (simp add: replace_value_def)
    show "address_changes req h p = [] \<longrightarrow> ?e2 = t"
      by (simp add: address_changes_def Some)
  qed
qed

lemma update_protocol_spec:
  assumes "required protocol_item t ''protocol'' = Some q"
  obtains t' where "update_protocol req t =
        (t', text_changes ProtocolField (map_option protocol_as_str (rq_protocol req)) (protocol_as_str q))"
    and "required protocol_item t' ''protocol'' = Some (unwrap_or (rq_protocol req) q)"
    and "\<And>k. k \<noteq> ''protocol'' \<Longrightarrow> tget t' k = tget t k"
    and "unwrap_or (rq_protocol req) q = q \<longrightarrow> t' = t"
proof (cases "rq_protocol req")
  case None
  with that [of t] assms show thesis by (simp add: update_protocol_def text_changes_def)
next
  case (Some r)
  let ?t = "if r \<noteq> q then replace_value ''protocol'' (VString (protocol_as_str r) []) t else t"
  show thesis
  proof (rule that [of ?t])
    show "update_protocol req t =
        (?t, text_changes ProtocolField (map_option protocol_as_str (rq_protocol req)) (protocol_as_str q))"
      by (simp add: update_protocol_def Some cur_protocol [OF assms] text_changes_def)
    show "required protocol_item ?t ''protocol'' = Some (unwrap_or (rq_protocol req) q)"
      by (simp add: Some assms)
    show "tget ?t k = tget t k" if "k \<noteq> ''protocol''" for k
      using that by (simp add: replace_value_def)
    show "unwrap_or (rq_protocol req) q = q \<longrightarrow> ?t = t" by (simp add: Some)
  qed
qed

lemma update_node_id_spec:
  obtains t' where "update_node_id req t =
        (t', text_changes NodeId (rq_node_id req) (unwrap_or (str_of t ''node_id'') []))"
    and "required as_str t ''node_id'' = Some n \<Longrightarrow>
           required as_str t' ''node_id'' = Some (unwrap_or (rq_node_id req) n)"
    and "\<And>k. k \<noteq> ''node_id'' \<Longrightarrow> tget t' k = tget t k"
    and "text_changes NodeId (rq_node_id req) (unwrap_or (str_of t ''node_id'') []) = [] \<longrightarrow> t' = t"
proof (cases "rq_node_id req")
  case None
  with that [of t] show thesis by (simp add: update_node_id_def text_changes_def)
next
  case (Some v)
  let ?cur = "unwrap_or (str_of t ''node_id'') []"
  let ?t = "if ?cur \<noteq> v then replace_value ''node_id'' (VString v []) t else t"
  show thesis
  proof (rule that [of ?t])
    show "update_node_id req t = (?t, text_changes NodeId (rq_node_id req) ?cur)"
      by (auto simp: update_node_id_def Some text_changes_def)
    show "required as_str ?t ''node_id'' = Some (unwrap_or (rq_node_id req) n)"
      if "required as_str t ''node_id'' = Some n"
      using that cur_node_id [OF that] by (simp add: Some)
    show "tget ?t k = tget t k" if "k \<noteq> ''node_id''" for k
      using that by (simp add: replace_value_def)
    show "text_changes NodeId (rq_node_id req) ?cur = [] \<longrightarrow> ?t = t"
      by (auto simp: Some text_changes_def)
  qed
qed

text \<open>The changes of a whole update; the service's identity is not among them.\<close>

definition entry_changes :: "set_request \<Rightarrow> string \<Rightarrow> u16 \<Rightarrow> protocol \<Rightarrow> string \<Rightarrow> field_change list" where
  "entry_changes req host port proto node_id =
     address_changes req host port @
     text_changes ProtocolField (map_option protocol_as_str (rq_protocol req)) (protocol_as_str proto) @
     text_changes NodeId (rq_node_id req) node_id"

lemmas field_defs = required_def defaulted_def optional_def str_of_def

lemma decode_udp_cong:
  "(\<And>k. k \<in> {''idle_timeout'', ''max_flows'', ''max_flows_per_peer'', ''queue_depth''} \<Longrightarrow> tget t' k = tget t k) \<Longrightarrow>
     decode_udp t' = decode_udp t"
  by (simp add: decode_udp_def field_defs)

lemma update_entry_spec:
  assumes "defaulted as_str default_host t ''host'' = Some h" and "required u16_item t ''port'' = Some p"
    and "required protocol_item t ''protocol'' = Some q"
  obtains t' where "update_entry req t = Inr (t', entry_changes req h p q (unwrap_or (str_of t ''node_id'') []))"
    and "defaulted as_str default_host t' ''host'' = Some (if rq_port req = None then h else unwrap_or (rq_host req) h)"
    and "required u16_item t' ''port'' = Some (unwrap_or (rq_port req) p)"
    and "required protocol_item t' ''protocol'' = Some (unwrap_or (rq_protocol req) q)"
    and "required as_str t ''node_id'' = Some n \<Longrightarrow>
           required as_str t' ''node_id'' = Some (unwrap_or (rq_node_id req) n)"
    and "\<And>k. k \<notin> {''host'', ''port'', ''protocol'', ''node_id''} \<Longrightarrow> tget t' k = tget t k"
    and "entry_changes req h p q (unwrap_or (str_of t ''node_id'') []) = [] \<longrightarrow> t' = t"
proof -
  obtain t1 where t1: "update_address req t = Inr (t1, address_changes req h p)"
      "defaulted as_str default_host t1 ''host'' = Some (if rq_port req = None then h else unwrap_or (rq_host req) h)"
      "required u16_item t1 ''port'' = Some (unwrap_or (rq_port req) p)"
      "\<And>k. k \<noteq> ''host'' \<Longrightarrow> k \<noteq> ''port'' \<Longrightarrow> tget t1 k = tget t k"
      "address_changes req h p = [] \<longrightarrow> t1 = t"
    using update_address_spec [OF assms(1,2), of req] by blast
  have "required protocol_item t1 ''protocol'' = Some q" using t1(4) assms(3) by (simp add: field_defs)
  then obtain t2 where t2: "update_protocol req t1 =
        (t2, text_changes ProtocolField (map_option protocol_as_str (rq_protocol req)) (protocol_as_str q))"
      "required protocol_item t2 ''protocol'' = Some (unwrap_or (rq_protocol req) q)"
      "\<And>k. k \<noteq> ''protocol'' \<Longrightarrow> tget t2 k = tget t1 k"
      "unwrap_or (rq_protocol req) q = q \<longrightarrow> t2 = t1"
    using update_protocol_spec [of t1 q req] by blast
  have n: "required as_str t2 ''node_id'' = required as_str t ''node_id''" "str_of t2 ''node_id'' = str_of t ''node_id''"
    using t1(4) t2(3) by (simp_all add: field_defs)
  obtain t3 where t3: "update_node_id req t2 =
        (t3, text_changes NodeId (rq_node_id req) (unwrap_or (str_of t2 ''node_id'') []))"
      "required as_str t2 ''node_id'' = Some n \<Longrightarrow> required as_str t3 ''node_id'' = Some (unwrap_or (rq_node_id req) n)"
      "\<And>k. k \<noteq> ''node_id'' \<Longrightarrow> tget t3 k = tget t2 k"
      "text_changes NodeId (rq_node_id req) (unwrap_or (str_of t2 ''node_id'') []) = [] \<longrightarrow> t3 = t2"
    using update_node_id_spec [of req t2 n] by blast
  show thesis
  proof (rule that [of t3])
    show "update_entry req t = Inr (t3, entry_changes req h p q (unwrap_or (str_of t ''node_id'') []))"
      by (simp add: update_entry_def t1(1) t2(1) t3(1) entry_changes_def n(2))
    show "entry_changes req h p q (unwrap_or (str_of t ''node_id'') []) = [] \<longrightarrow> t3 = t"
      using t1(5) t2(4) t3(4) n(2)
      by (auto simp: entry_changes_def text_changes_def split: option.splits if_splits)
    show "required as_str t3 ''node_id'' = Some (unwrap_or (rq_node_id req) n)"
      if "required as_str t ''node_id'' = Some n"
      using that t3(2) n(1) by simp
    show "defaulted as_str default_host t3 ''host'' = Some (if rq_port req = None then h else unwrap_or (rq_host req) h)"
      using t1(2) by (simp add: defaulted_def t2(3) t3(3))
    show "required u16_item t3 ''port'' = Some (unwrap_or (rq_port req) p)"
      using t1(3) by (simp add: required_def t2(3) t3(3))
    show "required protocol_item t3 ''protocol'' = Some (unwrap_or (rq_protocol req) q)"
      using t2(2) by (simp add: required_def t3(3))
    show "tget t3 k = tget t k" if "k \<notin> {''host'', ''port'', ''protocol'', ''node_id''}" for k
      using that by (simp add: t1(4) t2(3) t3(3))
  qed
qed

lemma update_entry_serve:
  assumes "decode_serve_service t = Some s"
  obtains t' where "update_entry req t = Inr (t', entry_changes req (sv_host s) (sv_port s) (sv_protocol s) (unwrap_or (str_of t ''node_id'') []))"
    and "decode_serve_service t' = Some (serve_apply req s)"
    and "entry_changes req (sv_host s) (sv_port s) (sv_protocol s) (unwrap_or (str_of t ''node_id'') []) = [] \<longrightarrow> t' = t"
proof -
  from assms have f: "required as_str t ''name'' = Some (sv_name s)"
    "required protocol_item t ''protocol'' = Some (sv_protocol s)"
    "defaulted as_str default_host t ''host'' = Some (sv_host s)" "required u16_item t ''port'' = Some (sv_port s)"
    "decode_udp t = Some (sv_udp s)"
    by (simp_all add: decode_serve_fields)
  obtain t' where t': "update_entry req t = Inr (t', entry_changes req (sv_host s) (sv_port s) (sv_protocol s) (unwrap_or (str_of t ''node_id'') []))"
    and g: "defaulted as_str default_host t' ''host'' = Some (if rq_port req = None then sv_host s else unwrap_or (rq_host req) (sv_host s))"
      "required u16_item t' ''port'' = Some (unwrap_or (rq_port req) (sv_port s))"
      "required protocol_item t' ''protocol'' = Some (unwrap_or (rq_protocol req) (sv_protocol s))"
    and same: "\<And>k. k \<notin> {''host'', ''port'', ''protocol'', ''node_id''} \<Longrightarrow> tget t' k = tget t k"
    and keep: "entry_changes req (sv_host s) (sv_port s) (sv_protocol s) (unwrap_or (str_of t ''node_id'') []) = [] \<longrightarrow> t' = t"
    using update_entry_spec [OF f(3,4,2), of req "[]"] by metis
  have "decode_udp t' = decode_udp t" by (rule decode_udp_cong) (auto intro: same)
  moreover have "required as_str t' ''name'' = required as_str t ''name''" by (simp add: required_def same)
  ultimately have "decode_serve_service t' = Some (serve_apply req s)"
    by (simp add: decode_serve_fields serve_apply_def f g)
  with t' keep show thesis using that by blast
qed

lemma update_entry_access:
  assumes "decode_access_service t = Some s"
  obtains t' where "update_entry req t = Inr (t', entry_changes req (av_host s) (av_port s) (av_protocol s) (av_node_id s))"
    and "decode_access_service t' = Some (access_apply req s)"
    and "entry_changes req (av_host s) (av_port s) (av_protocol s) (av_node_id s) = [] \<longrightarrow> t' = t"
proof -
  from assms have f: "required as_str t ''name'' = Some (av_name s)" "required as_str t ''node_id'' = Some (av_node_id s)"
    "required protocol_item t ''protocol'' = Some (av_protocol s)"
    "defaulted as_str default_host t ''host'' = Some (av_host s)" "required u16_item t ''port'' = Some (av_port s)"
    "defaulted strings_item [] t ''relay_urls'' = Some (av_relay_urls s)" "decode_udp t = Some (av_udp s)"
    by (simp_all add: decode_access_fields)
  have n: "unwrap_or (str_of t ''node_id'') [] = av_node_id s" by (rule cur_node_id [OF f(2)])
  obtain t' where t': "update_entry req t = Inr (t', entry_changes req (av_host s) (av_port s) (av_protocol s) (av_node_id s))"
    and g: "defaulted as_str default_host t' ''host'' = Some (if rq_port req = None then av_host s else unwrap_or (rq_host req) (av_host s))"
      "required u16_item t' ''port'' = Some (unwrap_or (rq_port req) (av_port s))"
      "required protocol_item t' ''protocol'' = Some (unwrap_or (rq_protocol req) (av_protocol s))"
      "required as_str t' ''node_id'' = Some (unwrap_or (rq_node_id req) (av_node_id s))"
    and same: "\<And>k. k \<notin> {''host'', ''port'', ''protocol'', ''node_id''} \<Longrightarrow> tget t' k = tget t k"
    and keep: "entry_changes req (av_host s) (av_port s) (av_protocol s) (av_node_id s) = [] \<longrightarrow> t' = t"
    using update_entry_spec [OF f(4,5,3), of req "av_node_id s", unfolded n] f(2) by metis
  have "decode_udp t' = decode_udp t" by (rule decode_udp_cong) (auto intro: same)
  moreover have "required as_str t' ''name'' = required as_str t ''name''"
    "defaulted strings_item [] t' ''relay_urls'' = defaulted strings_item [] t ''relay_urls''"
    by (simp_all add: field_defs same)
  ultimately have "decode_access_service t' = Some (access_apply req s)"
    by (simp add: decode_access_fields access_apply_def f g)
  with t' keep show thesis using that by blast
qed

section \<open>Finding the entry\<close>

text \<open>Both decoders read the name; \<open>dec\<close> stands for either, \<open>nm\<close> for its name field.\<close>

lemma update_first_refines:
  assumes "opt_map dec ts = Some svcs" and "name_position name ts = Some i"
    and "\<And>t s. dec t = Some s \<Longrightarrow> Option.bind (tget t ''name'') as_str = Some (nm s)"
  shows "i < length ts \<and> dec (ts ! i) = Some (svcs ! i)
    \<and> (\<forall>t'. dec t' = Some (f (svcs ! i)) \<longrightarrow> opt_map dec (ts[i := t']) = update_first (\<lambda>s. nm s = name) f svcs)
    \<and> (\<exists>rest. opt_map dec (remove_nth i ts) = Some rest \<and> remove_first (\<lambda>s. nm s = name) svcs = Some rest)
    \<and> (\<exists>svcs'. update_first (\<lambda>s. nm s = name) f svcs = Some svcs' \<and> (svcs' = svcs \<longleftrightarrow> f (svcs ! i) = svcs ! i))"
  using assms(1,2)
proof (induction ts arbitrary: svcs i)
  case (Cons t ts)
  from Cons.prems(1) obtain s ss where s: "dec t = Some s" and ss: "opt_map dec ts = Some ss" and svcs: "svcs = s # ss"
    by (auto simp: opt_map_Cons simp del: opt_map.simps)
  show ?case
  proof (cases "nm s = name")
    case True
    with Cons.prems(2) have "i = 0" using assms(3) [OF s] by simp
    with True show ?thesis by (simp add: svcs s ss)
  next
    case False
    with Cons.prems(2) assms(3) [OF s] obtain j where "name_position name ts = Some j" and i: "i = Suc j" by auto
    from Cons.IH [OF ss this(1)] show ?thesis
      by (auto simp: i svcs s False split: option.split)
  qed
qed simp

lemma update_first_none:
  assumes "opt_map dec ts = Some svcs" and "name_position name ts = None"
    and "\<And>t s. dec t = Some s \<Longrightarrow> Option.bind (tget t ''name'') as_str = Some (nm s)"
  shows "update_first (\<lambda>s. nm s = name) f svcs = None \<and> remove_first (\<lambda>s. nm s = name) svcs = None"
  using assms(1,2)
proof (induction ts arbitrary: svcs)
  case (Cons t ts)
  from Cons.prems(1) obtain s ss where s: "dec t = Some s" and ss: "opt_map dec ts = Some ss" and svcs: "svcs = s # ss"
    by (auto simp: opt_map_Cons simp del: opt_map.simps)
  from Cons.prems(2) assms(3) [OF s] have "nm s \<noteq> name" and "name_position name ts = None"
    by (auto split: if_splits)
  with Cons.IH [OF ss] show ?case by (simp add: svcs)
qed simp

lemma serve_name: "decode_serve_service t = Some s \<Longrightarrow> Option.bind (tget t ''name'') as_str = Some (sv_name s)"
  by (simp add: decode_serve_fields required_def)

lemma access_name: "decode_access_service t = Some s \<Longrightarrow> Option.bind (tget t ''name'') as_str = Some (av_name s)"
  by (simp add: decode_access_fields required_def)

lemmas serve_found = update_first_refines [where dec = decode_serve_service and nm = sv_name, OF _ _ serve_name]
lemmas access_found = update_first_refines [where dec = decode_access_service and nm = av_name, OF _ _ access_name]
lemmas serve_unfound = update_first_none [where dec = decode_serve_service and nm = sv_name, OF _ _ serve_name]
lemmas access_unfound = update_first_none [where dec = decode_access_service and nm = av_name, OF _ _ access_name]

section \<open>Retired fields, keys\<close>

lemma decode_serve_strip [simp]: "decode_serve_service (tremove ''multiplex'' t) = decode_serve_service t"
  by (simp add: decode_serve_service_def)

lemma decode_access_strip [simp]: "decode_access_service (tremove ''multiplex'' t) = decode_access_service t"
  by (simp add: decode_access_service_def)

lemma inline_strip: "inline_table (strip_value v) = map_option (tremove ''multiplex'') (inline_table v)"
  by (cases v) simp_all

lemma inline_map_strip:
  "opt_map inline_table (map strip_value vs) = map_option (map (tremove ''multiplex'')) (opt_map inline_table vs)"
  by (induction vs) (auto simp: inline_strip split: option.split)

lemma opt_map_strip:
  "(\<And>t. f (tremove ''multiplex'' t) = f t) \<Longrightarrow> opt_map f (map (tremove ''multiplex'') ts) = opt_map f ts"
  by (rule opt_map_map_cong)

lemma service_tables_strip:
  "service_tables (strip_services i) = map_option (map (tremove ''multiplex'')) (service_tables i)"
proof (cases i)
  case (Val v)
  then show ?thesis by (cases v) (simp_all add: inline_map_strip)
qed simp_all

lemma decode_services_strip:
  assumes "\<And>t. f (tremove ''multiplex'' t) = f t"
  shows "decode_services f (strip_retired_fields doc) = decode_services f doc"
proof (cases "tget doc ''services''")
  case None
  then show ?thesis by (simp add: strip_retired_fields_def)
next
  case (Some i)
  then show ?thesis
    by (cases "service_tables i")
      (simp_all add: decode_services_def strip_retired_fields_def service_tables_strip opt_map_strip assms defaulted_def)
qed

lemma decode_node_strip: "decode_node_table (strip_retired_fields doc) = decode_node_table doc"
  by (simp add: decode_node_table_def strip_retired_fields_def split: option.split)

lemma decode_strip [simp]:
  "decode_serve (strip_retired_fields doc) = decode_serve doc"
  "decode_access (strip_retired_fields doc) = decode_access doc"
  by (simp_all add: decode_serve_def decode_access_def decode_services_strip decode_node_strip)

lemma decode_set_services:
  assumes "decode_serve doc = Some cfg" and "opt_map decode_serve_service ts = Some svcs"
  shows "decode_serve (tset ''services'' (AoT ts) doc) = Some (cfg\<lparr>sc_services := svcs\<rparr>)"
  using assms by (auto simp: decode_serve_def decode_services_def decode_node_table_def bind_eq_Some_conv)

lemma decode_set_services_access:
  assumes "decode_access doc = Some cfg" and "opt_map decode_access_service ts = Some svcs"
  shows "decode_access (tset ''services'' (AoT ts) doc) = Some (cfg\<lparr>ac_services := svcs\<rparr>)"
  using assms by (auto simp: decode_access_def decode_services_def decode_node_table_def bind_eq_Some_conv)

lemma decoded_services:
  assumes "decode_serve doc = Some cfg" and "Option.bind (tget doc ''services'') as_aot = Some ts"
  shows "opt_map decode_serve_service ts = Some (sc_services cfg)"
proof -
  from assms(2) have "tget doc ''services'' = Some (AoT ts)"
    by (auto simp: bind_eq_Some_conv elim: as_aot.elims)
  with assms(1) show ?thesis by (auto simp: decode_serve_def decode_services_def defaulted_def bind_eq_Some_conv)
qed

lemma decoded_services_access:
  assumes "decode_access doc = Some cfg" and "Option.bind (tget doc ''services'') as_aot = Some ts"
  shows "opt_map decode_access_service ts = Some (ac_services cfg)"
proof -
  from assms(2) have "tget doc ''services'' = Some (AoT ts)"
    by (auto simp: bind_eq_Some_conv elim: as_aot.elims)
  with assms(1) show ?thesis by (auto simp: decode_access_def decode_services_def defaulted_def bind_eq_Some_conv)
qed

lemma decoded_no_services:
  "decode_serve doc = Some cfg \<Longrightarrow> tget doc ''services'' = None \<Longrightarrow> sc_services cfg = []"
  "decode_access doc = Some acfg \<Longrightarrow> tget doc ''services'' = None \<Longrightarrow> ac_services acfg = []"
  by (auto simp: decode_serve_def decode_access_def decode_services_def defaulted_def bind_eq_Some_conv)

section \<open>Setting a service\<close>

lemma text_changes_Nil: "text_changes f new old = [] \<longleftrightarrow> unwrap_or new old = old"
  by (cases new) (auto simp: text_changes_def)

lemma protocol_unwrap [simp]:
  "unwrap_or (map_option protocol_as_str new) (protocol_as_str old) = protocol_as_str old \<longleftrightarrow> unwrap_or new old = old"
  by (cases new) auto

lemma address_changes_Nil:
  "address_changes req h p = [] \<longleftrightarrow>
     (if rq_port req = None then h else unwrap_or (rq_host req) h) = h \<and> unwrap_or (rq_port req) p = p"
  by (cases "rq_port req") (auto simp: address_changes_def)

lemma access_unchanged:
  "entry_changes req (av_host s) (av_port s) (av_protocol s) (av_node_id s) = [] \<longleftrightarrow> access_apply req s = s"
  by (cases s) (auto simp: entry_changes_def access_apply_def address_changes_Nil text_changes_Nil)

lemma serve_unchanged:
  "rq_node_id req = None \<Longrightarrow>
     entry_changes req (sv_host s) (sv_port s) (sv_protocol s) n = [] \<longleftrightarrow> serve_apply req s = s"
  by (cases s) (auto simp: entry_changes_def serve_apply_def address_changes_Nil text_changes_Nil)

lemma create_serve_cases:
  assumes "decode_serve doc = Some cfg" and "find_service_index doc (rq_name req) = Inr None"
  shows "(case create_service Serve req doc of
      Inr doc' \<Rightarrow> \<exists>port. rq_port req = Some port \<and>
          decode_serve doc' = Some (cfg\<lparr>sc_services := sc_services cfg @ [serve_new req port]\<rparr>)
    | Inl e \<Rightarrow> rq_port req = None \<and> e = MissingForCreate (rq_name req) [''--target''])
    \<and> update_first (\<lambda>s. sv_name s = rq_name req) (serve_apply req) (sc_services cfg) = None"
proof (cases "tget doc ''services''")
  case None
  with decode_set_services [OF assms(1), of "[new_entry Serve req p]" "[serve_new req p]" for p] decoded_no_services(1) [OF assms(1)]
  show ?thesis
    by (auto simp: create_service_def missing_flags_def decode_new Let_def split: option.splits)
next
  case (Some i)
  with assms(2) obtain ts where ts: "as_aot i = Some ts" and "name_position (rq_name req) ts = None"
    by (auto simp: find_service_index_def split: option.splits)
  have dec: "opt_map decode_serve_service ts = Some (sc_services cfg)"
    using decoded_services [OF assms(1)] Some ts by simp
  have "opt_map decode_serve_service (ts @ [new_entry Serve req p]) = Some (sc_services cfg @ [serve_new req p])" for p
    by (simp add: opt_map_append dec decode_new)
  from decode_set_services [OF assms(1) this] serve_unfound [OF dec \<open>name_position _ _ = None\<close>]
  show ?thesis
    by (auto simp: create_service_def missing_flags_def Some ts Let_def split: option.splits)
qed

lemma create_access_cases:
  assumes "decode_access doc = Some cfg" and "find_service_index doc (rq_name req) = Inr None"
  shows "(case create_service Access req doc of
      Inr doc' \<Rightarrow> \<exists>port n. rq_port req = Some port \<and> rq_node_id req = Some n \<and>
          decode_access doc' = Some (cfg\<lparr>ac_services := ac_services cfg @ [access_new req port n]\<rparr>)
    | Inl e \<Rightarrow> (rq_port req = None \<or> rq_node_id req = None) \<and> e = MissingForCreate (rq_name req) (missing_flags Access req))
    \<and> update_first (\<lambda>s. av_name s = rq_name req) (access_apply req) (ac_services cfg) = None"
proof (cases "tget doc ''services''")
  case None
  with decode_set_services_access [OF assms(1), of "[new_entry Access req p]" "[access_new req p n]" for p n] decoded_no_services(2) [OF assms(1)]
  show ?thesis
    by (auto simp: create_service_def missing_flags_def decode_new Let_def split: option.splits)
next
  case (Some i)
  with assms(2) obtain ts where ts: "as_aot i = Some ts" and "name_position (rq_name req) ts = None"
    by (auto simp: find_service_index_def split: option.splits)
  have dec: "opt_map decode_access_service ts = Some (ac_services cfg)"
    using decoded_services_access [OF assms(1)] Some ts by simp
  have "rq_node_id req = Some n \<Longrightarrow>
      opt_map decode_access_service (ts @ [new_entry Access req p]) = Some (ac_services cfg @ [access_new req p n])" for p n
    by (simp add: opt_map_append dec decode_new)
  from decode_set_services_access [OF assms(1) this] access_unfound [OF dec \<open>name_position _ _ = None\<close>]
  show ?thesis
    by (auto simp: create_service_def missing_flags_def Some ts Let_def split: option.splits)
qed

lemma find_service_index_Some:
  "find_service_index doc name = Inr (Some i) \<Longrightarrow>
     \<exists>ts. Option.bind (tget doc ''services'') as_aot = Some ts \<and> name_position name ts = Some i"
  by (auto simp: find_service_index_def split: option.splits)

lemma find_service_index_Inl:
  "find_service_index doc name = Inl e \<Longrightarrow>
     e = ServicesShape \<and> (\<exists>item. tget doc ''services'' = Some item \<and> as_aot item = None)"
  by (auto simp: find_service_index_def split: option.splits)

lemma update_serve_cases:
  assumes "decode_serve doc = Some cfg" and "find_service_index doc (rq_name req) = Inr (Some i)"
  obtains svcs doc' changes where "update_service i req doc = Inr (doc', changes)"
    and "update_first (\<lambda>s. sv_name s = rq_name req) (serve_apply req) (sc_services cfg) = Some svcs"
    and "decode_serve doc' = Some (cfg\<lparr>sc_services := svcs\<rparr>)"
    and "rq_node_id req = None \<longrightarrow> (changes = [] \<longleftrightarrow> svcs = sc_services cfg)"
proof -
  obtain ts where ts: "Option.bind (tget doc ''services'') as_aot = Some ts" and pos: "name_position (rq_name req) ts = Some i"
    using find_service_index_Some [OF assms(2)] by blast
  have dec: "opt_map decode_serve_service ts = Some (sc_services cfg)" by (rule decoded_services [OF assms(1) ts])
  note found = serve_found [OF dec pos, of "serve_apply req"]
  then obtain svcs where svcs: "update_first (\<lambda>s. sv_name s = rq_name req) (serve_apply req) (sc_services cfg) = Some svcs"
    and same: "svcs = sc_services cfg \<longleftrightarrow> serve_apply req (sc_services cfg ! i) = sc_services cfg ! i"
    by blast
  obtain e' where e': "update_entry req (ts ! i) = Inr (e', entry_changes req (sv_host (sc_services cfg ! i))
        (sv_port (sc_services cfg ! i)) (sv_protocol (sc_services cfg ! i)) (unwrap_or (str_of (ts ! i) ''node_id'') []))"
    and "decode_serve_service e' = Some (serve_apply req (sc_services cfg ! i))"
    using update_entry_serve [of "ts ! i" "sc_services cfg ! i" req] found by blast
  with found svcs have "opt_map decode_serve_service (ts[i := e']) = Some svcs" by simp
  from that [OF _ svcs decode_set_services [OF assms(1) this]] show thesis
    using found e' same by (simp add: update_service_def ts serve_unchanged)
qed

lemma update_access_cases:
  assumes "decode_access doc = Some cfg" and "find_service_index doc (rq_name req) = Inr (Some i)"
  obtains svcs doc' changes where "update_service i req doc = Inr (doc', changes)"
    and "update_first (\<lambda>s. av_name s = rq_name req) (access_apply req) (ac_services cfg) = Some svcs"
    and "decode_access doc' = Some (cfg\<lparr>ac_services := svcs\<rparr>)"
    and "changes = [] \<longleftrightarrow> svcs = ac_services cfg"
proof -
  obtain ts where ts: "Option.bind (tget doc ''services'') as_aot = Some ts" and pos: "name_position (rq_name req) ts = Some i"
    using find_service_index_Some [OF assms(2)] by blast
  have dec: "opt_map decode_access_service ts = Some (ac_services cfg)" by (rule decoded_services_access [OF assms(1) ts])
  note found = access_found [OF dec pos, of "access_apply req"]
  then obtain svcs where svcs: "update_first (\<lambda>s. av_name s = rq_name req) (access_apply req) (ac_services cfg) = Some svcs"
    and same: "svcs = ac_services cfg \<longleftrightarrow> access_apply req (ac_services cfg ! i) = ac_services cfg ! i"
    by blast
  obtain e' where e': "update_entry req (ts ! i) = Inr (e', entry_changes req (av_host (ac_services cfg ! i))
        (av_port (ac_services cfg ! i)) (av_protocol (ac_services cfg ! i)) (av_node_id (ac_services cfg ! i)))"
    and "decode_access_service e' = Some (access_apply req (ac_services cfg ! i))"
    using update_entry_access [of "ts ! i" "ac_services cfg ! i" req] found by blast
  with found svcs have "opt_map decode_access_service (ts[i := e']) = Some svcs" by simp
  from that [OF _ svcs decode_set_services_access [OF assms(1) this]] show thesis
    using found e' same by (simp add: update_service_def ts access_unchanged)
qed

text \<open>On a Serve document that decodes, the edit gives a document that decodes to the configuration with the named
service updated in the requested fields or appended, or fails only because the address is missing for a new service or
because \<open>services\<close> is an inline array; it writes nothing exactly when nothing would change.\<close>

lemma set_serve_spec:
  assumes "decode_serve doc = Some cfg"
  shows "case set_change Serve req doc of
      Inr (edit, doc') \<Rightarrow>
        (\<exists>svcs. serve_set req (sc_services cfg) = Some svcs \<and>
           decode_serve (strip_retired_fields doc') = Some (cfg\<lparr>sc_services := svcs\<rparr>) \<and>
           (rq_node_id req = None \<longrightarrow> (edit = Keep Unchanged \<longleftrightarrow> svcs = sc_services cfg)))
    | Inl e \<Rightarrow>
        (\<exists>item. tget doc ''services'' = Some item \<and> as_aot item = None) \<and> e = ServicesShape \<or>
        serve_set req (sc_services cfg) = None \<and> e = MissingForCreate (rq_name req) [''--target'']"
proof (cases "find_service_index doc (rq_name req)")
  case (Inl e)
  with find_service_index_Inl [OF Inl] show ?thesis by (simp add: set_change_def)
next
  case (Inr found)
  show ?thesis
  proof (cases found)
    case None
    from create_serve_cases [OF assms Inr [unfolded None]] show ?thesis
      by (auto simp: set_change_def Inr None serve_set_def split: sum.splits)
  next
    case (Some i)
    show ?thesis
      by (rule update_serve_cases [OF assms Inr [unfolded Some]])
        (simp add: set_change_def Inr Some serve_set_def)
  qed
qed

text \<open>Setting a service refines the operation on the configuration, for Access, where a new service
needs its address and its node identifier.\<close>

theorem set_access_refines:
  assumes "decode_access doc = Some cfg"
  shows "case set_change Access req doc of
      Inr (edit, doc') \<Rightarrow>
        (\<exists>svcs. access_set req (ac_services cfg) = Some svcs \<and>
           decode_access (strip_retired_fields doc') = Some (cfg\<lparr>ac_services := svcs\<rparr>) \<and>
           (edit = Keep Unchanged \<longleftrightarrow> svcs = ac_services cfg))
    | Inl e \<Rightarrow>
        (\<exists>item. tget doc ''services'' = Some item \<and> as_aot item = None) \<and> e = ServicesShape \<or>
        access_set req (ac_services cfg) = None \<and> e = MissingForCreate (rq_name req) (missing_flags Access req)"
proof (cases "find_service_index doc (rq_name req)")
  case (Inl e)
  with find_service_index_Inl [OF Inl] show ?thesis by (simp add: set_change_def)
next
  case (Inr found)
  show ?thesis
  proof (cases found)
    case None
    note cases = create_access_cases [OF assms Inr [unfolded None]]
    show ?thesis
    proof (cases "create_service Access req doc")
      case (Inl e)
      with cases have e: "e = MissingForCreate (rq_name req) (missing_flags Access req)"
        and missing: "rq_port req = None \<or> rq_node_id req = None"
        and "update_first (\<lambda>s. av_name s = rq_name req) (access_apply req) (ac_services cfg) = None" by simp_all
      then have "access_set req (ac_services cfg) = None"
        by (cases "rq_port req") (auto simp: access_set_def)
      then show ?thesis by (simp add: set_change_def \<open>find_service_index doc (rq_name req) = Inr found\<close> None Inl e)
    next
      case (Inr doc')
      with cases show ?thesis
        by (auto simp: set_change_def \<open>find_service_index doc (rq_name req) = Inr found\<close> None access_set_def)
    qed
  next
    case (Some i)
    show ?thesis
      by (rule update_access_cases [OF assms Inr [unfolded Some]])
        (simp add: set_change_def Inr Some access_set_def)
  qed
qed

section \<open>Removing a service, storing a key\<close>

lemma remove_serve_cases:
  assumes "decode_serve doc = Some cfg"
  shows "case remove_change name doc of
      Inr (_, doc') \<Rightarrow> \<exists>svcs. remove_first (\<lambda>s. sv_name s = name) (sc_services cfg) = Some svcs \<and>
        decode_serve (strip_retired_fields doc') = Some (cfg\<lparr>sc_services := svcs\<rparr>)
    | Inl e \<Rightarrow> e = NoSuchService name \<and> (remove_first (\<lambda>s. sv_name s = name) (sc_services cfg) = None
        \<or> (\<exists>item. tget doc ''services'' = Some item \<and> as_aot item = None))"
proof (cases "Option.bind (tget doc ''services'') as_aot")
  case None
  then show ?thesis
    using decoded_no_services(1) [OF assms] by (cases "tget doc ''services''") (auto simp: remove_change_def)
next
  case (Some ts)
  note dec = decoded_services [OF assms Some]
  show ?thesis
  proof (cases "name_position name ts")
    case None
    with serve_unfound [OF dec None] show ?thesis by (simp add: remove_change_def Some)
  next
    case pos: (Some i)
    from serve_found [OF dec pos] obtain rest where "opt_map decode_serve_service (remove_nth i ts) = Some rest"
      and "remove_first (\<lambda>s. sv_name s = name) (sc_services cfg) = Some rest" by blast
    then show ?thesis by (simp add: remove_change_def Some pos decode_set_services [OF assms])
  qed
qed

lemma remove_access_cases:
  assumes "decode_access doc = Some cfg"
  shows "case remove_change name doc of
      Inr (_, doc') \<Rightarrow> \<exists>svcs. remove_first (\<lambda>s. av_name s = name) (ac_services cfg) = Some svcs \<and>
        decode_access (strip_retired_fields doc') = Some (cfg\<lparr>ac_services := svcs\<rparr>)
    | Inl e \<Rightarrow> e = NoSuchService name \<and> (remove_first (\<lambda>s. av_name s = name) (ac_services cfg) = None
        \<or> (\<exists>item. tget doc ''services'' = Some item \<and> as_aot item = None))"
proof (cases "Option.bind (tget doc ''services'') as_aot")
  case None
  then show ?thesis
    using decoded_no_services(2) [OF assms] by (cases "tget doc ''services''") (auto simp: remove_change_def)
next
  case (Some ts)
  note dec = decoded_services_access [OF assms Some]
  show ?thesis
  proof (cases "name_position name ts")
    case None
    with access_unfound [OF dec None] show ?thesis by (simp add: remove_change_def Some)
  next
    case pos: (Some i)
    from access_found [OF dec pos] obtain rest where "opt_map decode_access_service (remove_nth i ts) = Some rest"
      and "remove_first (\<lambda>s. av_name s = name) (ac_services cfg) = Some rest" by blast
    then show ?thesis by (simp add: remove_change_def Some pos decode_set_services_access [OF assms])
  qed
qed

lemma as_table_like_with [simp]: "as_table_like (with_table item t) = Some t"
  by (cases "(item, t)" rule: with_table.cases) simp_all

lemma ensured_node:
  "ensure_node_table doc = Inr doc' \<Longrightarrow>
     \<exists>item n. tget doc' ''node'' = Some item \<and> as_table_like item = Some n \<and>
       (\<forall>k. k \<noteq> ''node'' \<longrightarrow> tget doc' k = tget doc k) \<and> decode_node_table doc' = decode_node_table doc"
  by (auto simp: ensure_node_table_def decode_node_table_def decode_node_def node_config_default_def defaulted_def
      split: option.splits if_splits)

lemma decode_node_key:
  "decode_node n = Some nc \<Longrightarrow> decode_node (tset ''secret_key'' (str_value key) n) = Some (nc\<lparr>nc_secret_key := key\<rparr>)"
  by (auto simp: decode_node_def bind_eq_Some_conv)

lemma set_node_key_table:
  assumes "ensure_node_table doc = Inr doc'"
  shows "map_option (\<lambda>nc. nc\<lparr>nc_secret_key := key\<rparr>) (decode_node_table doc) = Some nc \<Longrightarrow>
           decode_node_table (set_node_key key doc') = Some nc"
    and "decode_services f (set_node_key key doc') = decode_services f doc"
    and "key \<noteq> [] \<Longrightarrow> existing_secret_key (set_node_key key doc') = Some key"
proof -
  obtain item n where n: "tget doc' ''node'' = Some item" "as_table_like item = Some n"
    and other: "\<And>k. k \<noteq> ''node'' \<Longrightarrow> tget doc' k = tget doc k" and node: "decode_node_table doc' = decode_node_table doc"
    using ensured_node [OF assms] by blast
  show "decode_node_table (set_node_key key doc') = Some nc"
    if "map_option (\<lambda>nc. nc\<lparr>nc_secret_key := key\<rparr>) (decode_node_table doc) = Some nc"
    using that unfolding node [symmetric]
    by (auto simp: decode_node_table_def set_node_key_def n defaulted_def decode_node_key)
  show "decode_services f (set_node_key key doc') = decode_services f doc"
    by (simp add: decode_services_def set_node_key_def n defaulted_def other)
  show "key \<noteq> [] \<Longrightarrow> existing_secret_key (set_node_key key doc') = Some key"
    by (simp add: existing_secret_key_def set_node_key_def n)
qed

lemma stored_key_serve:
  assumes "ensure_node_table doc = Inr doc'" and "decode_serve doc = Some cfg"
  shows "decode_serve (set_node_key key doc') = Some (cfg\<lparr>sc_node := (sc_node cfg)\<lparr>nc_secret_key := key\<rparr>\<rparr>)"
  using assms(2) set_node_key_table(1) [OF assms(1)]
  by (auto simp: decode_serve_def bind_eq_Some_conv set_node_key_table(2) [OF assms(1)])

lemma stored_key_access:
  assumes "ensure_node_table doc = Inr doc'" and "decode_access doc = Some cfg"
  shows "decode_access (set_node_key key doc') = Some (cfg\<lparr>ac_node := (ac_node cfg)\<lparr>nc_secret_key := key\<rparr>\<rparr>)"
  using assms(2) set_node_key_table(1) [OF assms(1)]
  by (auto simp: decode_access_def bind_eq_Some_conv set_node_key_table(2) [OF assms(1)])

text \<open>Removing a service refines the removal from the configuration, in either role: the first service
of that name goes, everything else stays, and the command fails exactly when no service has the name (or the
services are an inline array, which the command does not edit).\<close>

theorem remove_refines:
  "(decode_serve doc = Some scfg \<longrightarrow>
     (case remove_change name doc of
        Inr (_, doc') \<Rightarrow> \<exists>svcs. remove_first (\<lambda>s. sv_name s = name) (sc_services scfg) = Some svcs \<and>
          decode_serve (strip_retired_fields doc') = Some (scfg\<lparr>sc_services := svcs\<rparr>)
      | Inl e \<Rightarrow> e = NoSuchService name \<and> (remove_first (\<lambda>s. sv_name s = name) (sc_services scfg) = None
          \<or> (\<exists>item. tget doc ''services'' = Some item \<and> as_aot item = None))))
   \<and> (decode_access doc = Some acfg \<longrightarrow>
     (case remove_change name doc of
        Inr (_, doc') \<Rightarrow> \<exists>svcs. remove_first (\<lambda>s. av_name s = name) (ac_services acfg) = Some svcs \<and>
          decode_access (strip_retired_fields doc') = Some (acfg\<lparr>ac_services := svcs\<rparr>)
      | Inl e \<Rightarrow> e = NoSuchService name \<and> (remove_first (\<lambda>s. av_name s = name) (ac_services acfg) = None
          \<or> (\<exists>item. tget doc ''services'' = Some item \<and> as_aot item = None))))"
  by (intro conjI impI) (rule remove_serve_cases, assumption, rule remove_access_cases, assumption)

section \<open>Redaction\<close>

text \<open>A document whose value of one node key is another one, with the same surroundings.\<close>

definition with_field :: "string \<Rightarrow> string \<Rightarrow> tbl \<Rightarrow> tbl" where
  "with_field field s node =
     (case Option.bind (tget node field) as_value of
        Some v \<Rightarrow> tset field (Val (VString s (value_decor v))) node
      | None \<Rightarrow> node)"

definition map_node :: "(tbl \<Rightarrow> tbl) \<Rightarrow> tbl \<Rightarrow> tbl" where
  "map_node f doc =
     (case tget doc ''node'' of
        Some item \<Rightarrow> (case as_table_like item of
             Some n \<Rightarrow> tset ''node'' (with_table item (f n)) doc | None \<Rightarrow> doc)
      | None \<Rightarrow> doc)"

lemma entry_set_set [simp]: "entry_set k i (entry_set k j es) = entry_set k i es"
  by (induction es) auto

lemma entry_set_swap:
  "k \<noteq> k' \<Longrightarrow> entry_get es k \<noteq> None \<Longrightarrow> entry_get es k' \<noteq> None \<Longrightarrow>
     entry_set k i (entry_set k' j es) = entry_set k' j (entry_set k i es)"
  by (induction es) auto

lemma tset_tset [simp]: "tset k i (tset k j t) = tset k i t"
  by (cases t) simp

lemma tset_swap:
  "k \<noteq> k' \<Longrightarrow> tget t k \<noteq> None \<Longrightarrow> tget t k' \<noteq> None \<Longrightarrow> tset k i (tset k' j t) = tset k' j (tset k i t)"
  by (cases t) (simp add: entry_set_swap)

lemma with_table_with [simp]: "with_table (with_table item a) b = with_table item b"
  by (cases "(item, a)" rule: with_table.cases) simp_all

lemma map_node_comp: "map_node f (map_node g doc) = map_node (f \<circ> g) doc"
  by (simp add: map_node_def split: option.split)

lemma redact_secrets_node:
  "redact_secrets doc = map_node (redact_field ''relay_token'' \<circ> redact_field ''secret_key'') doc"
  by (simp add: redact_secrets_def map_node_def comp_def)

lemma redact_field_with: "redact_field field n = with_field field REDACTED n"
  by (simp add: redact_field_def with_field_def)

lemma with_field_twice: "with_field k s (with_field k r n) = with_field k s n"
  by (cases "Option.bind (tget n k) as_value") (simp_all add: with_field_def)

lemma with_field_swap:
  "k \<noteq> k' \<Longrightarrow> with_field k s (with_field k' r n) = with_field k' r (with_field k s n)"
proof (cases "Option.bind (tget n k) as_value"; cases "Option.bind (tget n k') as_value")
  fix v w assume "k \<noteq> k'" and v: "Option.bind (tget n k) as_value = Some v" and w: "Option.bind (tget n k') as_value = Some w"
  then have "tget n k \<noteq> None" "tget n k' \<noteq> None"
    by (metis bind.bind_lzero option.distinct(1))+
  with \<open>k \<noteq> k'\<close> v w show ?thesis by (simp add: with_field_def tset_swap)
qed (simp_all add: with_field_def)

lemma map_node_other: "k \<noteq> ''node'' \<Longrightarrow> tget (map_node f doc) k = tget doc k"
  by (simp add: map_node_def split: option.split)

text \<open>C16: \<open>config show\<close> does not depend on the secrets. Whatever the secret key and the relay token of a
document are, the redacted document is the same; outside the node table, and in it outside these two fields,
nothing is changed.\<close>

theorem redaction_noninterference:
  "redact_secrets (map_node (with_field ''secret_key'' s \<circ> with_field ''relay_token'' r) doc) = redact_secrets doc
   \<and> (\<forall>k. k = ''node'' \<or> tget (redact_secrets doc) k = tget doc k)
   \<and> tget (redact_field ''relay_token'' (redact_field ''secret_key'' node)) k =
       (if k \<in> {''secret_key'', ''relay_token''} then
          map_option (\<lambda>i. case as_value i of Some v \<Rightarrow> Val (VString REDACTED (value_decor v)) | None \<Rightarrow> i) (tget node k)
        else tget node k)"
proof (intro conjI)
  have "with_field ''relay_token'' REDACTED (with_field ''secret_key'' REDACTED
          (with_field ''secret_key'' s (with_field ''relay_token'' r n))) =
        with_field ''relay_token'' REDACTED (with_field ''secret_key'' REDACTED n)" for n
    by (simp add: with_field_twice with_field_swap [of "''secret_key''" "''relay_token''"])
  then show "redact_secrets (map_node (with_field ''secret_key'' s \<circ> with_field ''relay_token'' r) doc) = redact_secrets doc"
    by (simp add: redact_secrets_node map_node_comp redact_field_with comp_def)
  show "\<forall>k. k = ''node'' \<or> tget (redact_secrets doc) k = tget doc k"
    using map_node_other by (auto simp only: redact_secrets_node)
  show "tget (redact_field ''relay_token'' (redact_field ''secret_key'' node)) k =
       (if k \<in> {''secret_key'', ''relay_token''} then
          map_option (\<lambda>i. case as_value i of Some v \<Rightarrow> Val (VString REDACTED (value_decor v)) | None \<Rightarrow> i) (tget node k)
        else tget node k)"
    by (cases "tget node ''secret_key''"; cases "tget node ''relay_token''")
      (auto simp: redact_field_def split: option.split)
qed

section \<open>Witnesses\<close>

text \<open>A document with one service, read as a Serve and as an Access configuration, and a request for it.\<close>

definition demo_table :: tbl where
  "demo_table =
     Tbl [] [(''name'', [], str_value ''web''), (''protocol'', [], str_value ''tcp''),
             (''node_id'', [], str_value ''k''), (''port'', [], int_value 80)]"

definition demo_doc :: tbl where
  "demo_doc = Tbl [] [(''services'', [], AoT [demo_table])]"

definition demo_set :: set_request where
  "demo_set = \<lparr>rq_name = ''web'', rq_host = None, rq_port = Some 81, rq_protocol = None, rq_node_id = None\<rparr>"

lemmas demo_decode = demo_doc_def demo_table_def decode_serve_def decode_access_def decode_node_table_def
  decode_services_def decode_serve_service_def decode_access_service_def decode_udp_def required_def
  defaulted_def optional_def str_value_def int_value_def protocol_item_def u16_item_def uint_below_def

lemma demo_doc_serve:
  "decode_serve demo_doc =
     Some \<lparr>sc_node = node_config_default,
            sc_services = [\<lparr>sv_name = ''web'', sv_protocol = Tcp, sv_host = default_host, sv_port = 80,
                             sv_udp = udp_settings_default\<rparr>]\<rparr>"
  by (simp add: demo_decode udp_settings_default_def)

lemma demo_doc_access:
  "decode_access demo_doc =
     Some \<lparr>ac_node = node_config_default,
            ac_services = [\<lparr>av_name = ''web'', av_node_id = ''k'', av_protocol = Tcp, av_host = default_host,
                             av_port = 80, av_relay_urls = [], av_udp = udp_settings_default\<rparr>]\<rparr>"
  by (simp add: demo_decode udp_settings_default_def)

lemma set_access_refines_witness:
  "case set_change Access demo_set demo_doc of
     Inr (edit, doc') \<Rightarrow> \<exists>cfg. decode_access (strip_retired_fields doc') = Some cfg \<and> map av_port (ac_services cfg) = [81]
   | Inl e \<Rightarrow> False"
  using set_access_refines [OF demo_doc_access, of demo_set]
  by (auto simp: access_set_def access_apply_def demo_set_def demo_doc_def split: sum.splits)

lemma remove_refines_witness:
  "case remove_change ''web'' demo_doc of
     Inr (edit, doc') \<Rightarrow> decode_serve (strip_retired_fields doc') =
         Some \<lparr>sc_node = node_config_default, sc_services = []\<rparr>
       \<and> decode_access (strip_retired_fields doc') = Some \<lparr>ac_node = node_config_default, ac_services = []\<rparr>
   | Inl e \<Rightarrow> False"
  using conjunct1 [OF remove_refines [where doc = demo_doc and name = "''web''"], THEN mp, OF demo_doc_serve]
    conjunct2 [OF remove_refines [where doc = demo_doc and name = "''web''"], THEN mp, OF demo_doc_access]
  by (auto simp: demo_doc_def split: sum.splits)

end
