(* ===== verification/ConfigSettings.thy ===== *)
theory ConfigSettings
  imports ConfigSchema ServeRun AccessRun
begin

text \<open>
  From a configuration document to the engine's settings
  (\<open>config/to_settings.rs\<close>, \<open>resolve_secret_key.rs\<close>, \<open>encode_secret_key.rs\<close>), and what
  a valid document gives the engine: one target or dialer per service, distinct ALPNs and
  limits in range. Base64 and the key type of iroh are the functions of a record.
\<close>

section \<open>Secret keys\<close>

record 'sk key_lib =
  kl_base64_decode :: "string \<Rightarrow> u8 list option"
  kl_base64_encode :: "u8 list \<Rightarrow> string"
  kl_from_bytes :: "u8 list \<Rightarrow> 'sk"
  kl_to_bytes :: "'sk \<Rightarrow> u8 list"
  kl_public :: "'sk \<Rightarrow> string"

text \<open>What the libraries document: base64 decodes what it encoded, an encoding of something is not
empty, and a key is its 32 bytes.\<close>

definition key_lib_ok :: "'sk key_lib \<Rightarrow> bool" where
  "key_lib_ok kl \<longleftrightarrow>
     (\<forall>bs. kl_base64_decode kl (kl_base64_encode kl bs) = Some bs) \<and>
     (\<forall>bs. bs \<noteq> [] \<longrightarrow> kl_base64_encode kl bs \<noteq> []) \<and>
     (\<forall>k. length (kl_to_bytes kl k) = 32 \<and> kl_from_bytes kl (kl_to_bytes kl k) = k)"

datatype key_error = NotBase64 | NotThirtyTwoBytes

definition encode_secret_key :: "'sk key_lib \<Rightarrow> 'sk \<Rightarrow> string" where
  "encode_secret_key kl key = kl_base64_encode kl (kl_to_bytes kl key)"

text \<open>\<open>fresh\<close> is the key that \<open>SecretKey::generate\<close> returns.\<close>

definition resolve_secret_key :: "'sk key_lib \<Rightarrow> 'sk \<Rightarrow> string \<Rightarrow> key_error + 'sk \<times> bool" where
  "resolve_secret_key kl fresh s =
     (if s = [] then Inr (fresh, True)
      else case kl_base64_decode kl s of
             None \<Rightarrow> Inl NotBase64
           | Some bytes \<Rightarrow>
               if length bytes = 32 then Inr (kl_from_bytes kl bytes, False) else Inl NotThirtyTwoBytes)"

lemma encoded_ne: "key_lib_ok kl \<Longrightarrow> encode_secret_key kl key \<noteq> []"
proof -
  assume ok: "key_lib_ok kl"
  then have "length (kl_to_bytes kl key) = 32" by (simp add: key_lib_ok_def)
  then have "kl_to_bytes kl key \<noteq> []" by auto
  with ok show ?thesis by (simp add: key_lib_ok_def encode_secret_key_def)
qed

lemma resolve_encoded:
  "key_lib_ok kl \<Longrightarrow> resolve_secret_key kl fresh (encode_secret_key kl key) = Inr (key, False)"
  using encoded_ne [of kl key] by (simp add: resolve_secret_key_def) (simp add: key_lib_ok_def encode_secret_key_def)

section \<open>Settings\<close>

definition nc_node_settings :: "'sk key_lib \<Rightarrow> 'sk \<Rightarrow> node_config \<Rightarrow> key_error + 'sk node_settings" where
  "nc_node_settings kl fresh nc =
     and_then (if nc_secret_key nc = [] then Inr None
               else case resolve_secret_key kl fresh (nc_secret_key nc) of
                      Inl e \<Rightarrow> Inl e | Inr (key, _) \<Rightarrow> Inr (Some key))
       (\<lambda>secret_key. Inr \<lparr>ns_secret_key = secret_key, ns_relay_urls = nc_relay_urls nc,
                           ns_relay_token = map_option RelayToken (nc_relay_token nc),
                           ns_max_concurrent_streams = nc_max_concurrent_streams nc\<rparr>)"

definition serve_service_settings_of :: "serve_service \<Rightarrow> serve_service_settings" where
  "serve_service_settings_of svc =
     \<lparr>ss_name = sv_name svc, ss_protocol = sv_protocol svc, ss_host = sv_host svc, ss_port = sv_port svc,
       ss_udp = udp_resolve (sv_udp svc)\<rparr>"

definition serve_settings_from :: "'sk key_lib \<Rightarrow> 'sk \<Rightarrow> serve_config \<Rightarrow> key_error + 'sk serve_settings" where
  "serve_settings_from kl fresh cfg =
     and_then (nc_node_settings kl fresh (sc_node cfg)) (\<lambda>node.
       Inr \<lparr>serve_node = node, serve_services = map serve_service_settings_of (sc_services cfg)\<rparr>)"

definition access_service_settings_of :: "access_service \<Rightarrow> access_service_settings" where
  "access_service_settings_of svc =
     \<lparr>as_name = av_name svc, as_node_id = av_node_id svc, as_protocol = av_protocol svc, as_host = av_host svc,
       as_port = av_port svc, as_relay_urls = av_relay_urls svc, as_udp = udp_resolve (av_udp svc)\<rparr>"

definition access_settings_from :: "'sk key_lib \<Rightarrow> 'sk \<Rightarrow> access_config \<Rightarrow> key_error + 'sk access_settings" where
  "access_settings_from kl fresh cfg =
     and_then (nc_node_settings kl fresh (ac_node cfg)) (\<lambda>node.
       Inr \<lparr>access_node = node, access_services = map access_service_settings_of (ac_services cfg)\<rparr>)"

section \<open>What a valid document gives the engine\<close>

lemma name_char_ascii: "is_name_char c \<Longrightarrow> (of_char c :: nat) \<le> 0x7A"
  by (auto simp: is_name_char_def less_eq_char_def)

lemma name_ok_utf8: "name_ok name \<Longrightarrow> utf8_valid (bytes_of name)"
proof -
  assume "name_ok name"
  then have "\<forall>b \<in> set (bytes_of name). b \<le> 0x7F"
    by (auto simp: name_ok_def bytes_of_def word_le_nat_alt unat_of_char dest!: name_char_ascii)
  from utf8_valid_ascii_append [OF this, of "[]"] show ?thesis by simp
qed

lemma name_ok_alpn:
  assumes "name_ok name"
  shows "length (alpn_for name) \<le> 75" "name_from_alpn (alpn_for name) = Some name"
proof -
  show "length (alpn_for name) \<le> 75"
    using assms by (simp add: alpn_for_def ALPN_PREFIX_def name_ok_def)
  have "utf8_valid (alpn_for name)"
    using utf8_valid_ascii_append [OF prefix_ascii] name_ok_utf8 [OF assms] by (simp add: alpn_for_def)
  then show "name_from_alpn (alpn_for name) = Some name"
    by (simp add: name_from_alpn_def alpn_for_def strip_prefix_Some flip: bytes_of_append)
qed

lemma alpn_for_inj: "alpn_for a = alpn_for b \<longleftrightarrow> a = b"
  by (simp add: alpn_for_def)


lemma targets_other:
  "a \<notin> (alpn_for \<circ> ss_name) ` set svcs \<Longrightarrow>
     hm_get (fold (\<lambda>svc. hm_insert (alpn_for (ss_name svc)) (f svc)) svcs ts) a = hm_get ts a"
  by (induction svcs arbitrary: ts) auto

lemma targets_get:
  "distinct (map ss_name svcs) \<Longrightarrow> svc \<in> set svcs \<Longrightarrow>
     hm_get (fold (\<lambda>svc. hm_insert (alpn_for (ss_name svc)) (f svc)) svcs ts) (alpn_for (ss_name svc)) = Some (f svc)"
proof (induction svcs arbitrary: ts)
  case (Cons s svcs)
  show ?case
  proof (cases "svc \<in> set svcs")
    case True
    with Cons show ?thesis by simp
  next
    case False
    with Cons.prems have "svc = s" and "alpn_for (ss_name s) \<notin> (alpn_for \<circ> ss_name) ` set svcs"
      by (auto simp: alpn_for_inj)
    then show ?thesis by (simp add: targets_other)
  qed
qed simp

lemma serve_services_from:
  "serve_settings_from kl fresh cfg = Inr s \<Longrightarrow>
     serve_services s = map serve_service_settings_of (sc_services cfg)"
  by (auto simp: serve_settings_from_def)

lemma access_services_from:
  "access_settings_from kl fresh cfg = Inr s \<Longrightarrow>
     access_services s = map access_service_settings_of (ac_services cfg)"
  by (auto simp: access_settings_from_def)

section \<open>Properties\<close>

text \<open>C15: a valid serve document gives the engine exactly its services. Every service has its own
target under its own ALPN, with its own address, protocol and limits, no other ALPN has one, the ALPN
names the service back and fits the 255 bytes of TLS, and the limits are positive, bounded and
consistent.\<close>

theorem valid_serve_targets:
  assumes "serve_validate cfg = Inr ()" and "serve_settings_from kl fresh cfg = Inr s"
  shows "(\<forall>svc \<in> set (sc_services cfg).
            hm_get (build_targets (serve_services s)) (alpn_for (sv_name svc)) =
              Some (service_target_new (format_addr (sv_host svc) (sv_port svc)) (sv_protocol svc)
                     (udp_resolve (sv_udp svc)))
          \<and> name_from_alpn (alpn_for (sv_name svc)) = Some (sv_name svc)
          \<and> length (alpn_for (sv_name svc)) \<le> 255
          \<and> limits_ok (udp_resolve (sv_udp svc)))
       \<and> (\<forall>alpn. hm_get (build_targets (serve_services s)) alpn \<noteq> None \<longrightarrow>
            alpn \<in> (alpn_for \<circ> sv_name) ` set (sc_services cfg))"
proof (intro conjI ballI allI impI)
  have ok: "serve_config_ok cfg" using assms(1) by (simp add: serve_validate_iff)
  have svcs: "serve_services s = map serve_service_settings_of (sc_services cfg)"
    by (rule serve_services_from [OF assms(2)])
  have dist: "distinct (map ss_name (serve_services s))"
    using ok by (simp add: svcs comp_def serve_service_settings_of_def serve_config_ok_def)
  {
    fix svc assume svc: "svc \<in> set (sc_services cfg)"
    then have "serve_service_ok svc" using ok by (simp add: serve_config_ok_def)
    then have name: "name_ok (sv_name svc)" and udp: "udp_ok (sv_protocol svc) True (sv_udp svc)"
      by (simp_all add: serve_service_ok_def)
    show "limits_ok (udp_resolve (sv_udp svc))" by (rule udp_resolve_ok [OF udp])
    show "length (alpn_for (sv_name svc)) \<le> 255" using name_ok_alpn(1) [OF name] by simp
    show "name_from_alpn (alpn_for (sv_name svc)) = Some (sv_name svc)" by (rule name_ok_alpn(2) [OF name])
    have "serve_service_settings_of svc \<in> set (serve_services s)" using svc by (simp add: svcs)
    from targets_get [OF dist this,
        of "\<lambda>svc. service_target_new (format_addr (ss_host svc) (ss_port svc)) (ss_protocol svc) (ss_udp svc)" "[]"]
    show "hm_get (build_targets (serve_services s)) (alpn_for (sv_name svc)) =
        Some (service_target_new (format_addr (sv_host svc) (sv_port svc)) (sv_protocol svc)
               (udp_resolve (sv_udp svc)))"
      by (simp add: build_targets_def serve_service_settings_of_def)
  next
    fix alpn assume "hm_get (build_targets (serve_services s)) alpn \<noteq> None"
    then show "alpn \<in> (alpn_for \<circ> sv_name) ` set (sc_services cfg)"
      by (rule contrapos_np)
        (simp add: build_targets_def targets_other svcs image_comp comp_def serve_service_settings_of_def)
  }
qed

text \<open>A valid access document gives the engine one dialer per service, in order. It dials the
configured node under that service's ALPN, over exactly the service's relay override or else the node's
relays, with that service's protocol and limits. The ALPNs are distinct, each fits the 255 bytes of TLS,
and the limits are positive, bounded and consistent.\<close>

theorem valid_access_dialers:
  assumes "access_validate cfg = Inr ()" and "access_settings_from kl fresh cfg = Inr s"
    and "build_dialers parse_id id_text parse defaults s = Inr ds"
  shows "list_all2 (\<lambda>svc (d, row).
            parse_id (av_node_id svc) = Some (ea_id (sd_addr d))
          \<and> (\<exists>urls. service_relays parse defaults (nc_relay_urls (ac_node cfg)) (access_service_settings_of svc) = Inr urls
                 \<and> set (ea_relays (sd_addr d)) = set urls)
          \<and> sd_alpn d = alpn_for (av_name svc) \<and> sd_protocol d = av_protocol svc
          \<and> sd_udp_limits d = udp_resolve (av_udp svc) \<and> limits_ok (sd_udp_limits d)
          \<and> length (sd_alpn d) \<le> 255) (ac_services cfg) ds
       \<and> distinct (map (\<lambda>(d, row). sd_alpn d) ds)"
proof (intro conjI)
  let ?svcs = "ac_services cfg"
  have ok: "access_config_ok cfg" using assms(1) by (simp add: access_validate_iff)
  have svcs: "access_services s = map access_service_settings_of ?svcs"
    and relays: "ns_relay_urls (access_node s) = nc_relay_urls (ac_node cfg)"
    using assms(2) by (auto simp: access_settings_from_def nc_node_settings_def)
  have good: "limits_ok (udp_resolve (av_udp svc)) \<and> length (alpn_for (av_name svc)) \<le> 255"
    if "svc \<in> set ?svcs" for svc
  proof -
    have "access_service_ok svc" using ok that by (simp add: access_config_ok_def)
    then have "name_ok (av_name svc)" and "udp_ok (av_protocol svc) False (av_udp svc)"
      by (simp_all add: access_service_ok_def)
    then show ?thesis using name_ok_alpn(1) [of "av_name svc"] udp_resolve_ok by auto
  qed
  note built = build_dialers_faithful [OF assms(3), unfolded svcs relays list_all2_map1]
  have "list_all2 (\<lambda>svc (d, row). sd_alpn d = alpn_for (av_name svc)) ?svcs ds"
    by (rule list_all2_mono [OF built]) (auto simp: access_service_settings_of_def)
  then have "map (\<lambda>(d, row). sd_alpn d) ds = map (alpn_for \<circ> av_name) ?svcs"
    by (induction rule: list_all2_induct) auto
  moreover have "distinct (map (alpn_for \<circ> av_name) ?svcs)"
    using ok by (auto simp: access_config_ok_def distinct_map inj_on_def alpn_for_inj)
  ultimately show "distinct (map (\<lambda>(d, row). sd_alpn d) ds)" by simp
  show "list_all2 (\<lambda>svc (d, row).
            parse_id (av_node_id svc) = Some (ea_id (sd_addr d))
          \<and> (\<exists>urls. service_relays parse defaults (nc_relay_urls (ac_node cfg)) (access_service_settings_of svc) = Inr urls
                 \<and> set (ea_relays (sd_addr d)) = set urls)
          \<and> sd_alpn d = alpn_for (av_name svc) \<and> sd_protocol d = av_protocol svc
          \<and> sd_udp_limits d = udp_resolve (av_udp svc) \<and> limits_ok (sd_udp_limits d)
          \<and> length (sd_alpn d) \<le> 255) ?svcs ds"
    by (rule list.rel_mono_strong [OF built]) (use good in \<open>fastforce simp: access_service_settings_of_def\<close>)
qed

section \<open>Witnesses\<close>

text \<open>Keys of one bit, and a configuration with one UDP and one TCP service.\<close>

definition demo_keys :: "bool key_lib" where
  "demo_keys =
     \<lparr>kl_base64_decode = (\<lambda>s. case s of [] \<Rightarrow> None | _ # r \<Rightarrow> Some (bytes_of r)),
       kl_base64_encode = (\<lambda>bs. CHR ''='' # string_of bs),
       kl_from_bytes = (\<lambda>bs. hd bs = 1),
       kl_to_bytes = (\<lambda>b. replicate 32 (if b then 1 else 0)),
       kl_public = (\<lambda>b. if b then ''one'' else ''zero'')\<rparr>"

lemma demo_keys_ok: "key_lib_ok demo_keys"
  by (simp add: key_lib_ok_def demo_keys_def)

definition demo_serve_config :: serve_config where
  "demo_serve_config =
     \<lparr>sc_node = node_config_default,
       sc_services = [\<lparr>sv_name = ''dns'', sv_protocol = Udp, sv_host = default_host, sv_port = 53,
                        sv_udp = udp_settings_default\<lparr>us_max_flows := Some 8\<rparr>\<rparr>,
                      \<lparr>sv_name = ''web'', sv_protocol = Tcp, sv_host = default_host, sv_port = 80,
                        sv_udp = udp_settings_default\<rparr>]\<rparr>"

definition demo_access_config :: access_config where
  "demo_access_config =
     \<lparr>ac_node = node_config_default,
       ac_services = [\<lparr>av_name = ''web'', av_node_id = replicate 64 (CHR ''a''), av_protocol = Tcp,
                        av_host = default_host, av_port = 8080, av_relay_urls = [],
                        av_udp = udp_settings_default\<rparr>]\<rparr>"

lemma demo_serve_valid: "serve_validate demo_serve_config = Inr ()"
  by (simp add: serve_validate_iff serve_config_ok_def demo_serve_config_def node_ok_def https_ok_def
      node_config_default_def serve_service_ok_def name_ok_def is_name_char_def less_eq_char_def udp_ok_def
      within_def udp_settings_default_def)

lemma demo_access_valid: "access_validate demo_access_config = Inr ()"
  by (simp add: access_validate_iff access_config_ok_def demo_access_config_def node_ok_def https_ok_def
      node_config_default_def access_service_ok_def name_ok_def is_name_char_def less_eq_char_def udp_ok_def
      within_def udp_settings_default_def)

lemma valid_serve_targets_witness:
  "\<exists>s. serve_settings_from demo_keys True demo_serve_config = Inr s \<and>
       hm_get (build_targets (serve_services s)) (alpn_for ''web'') \<noteq> None"
proof -
  obtain s where s: "serve_settings_from demo_keys True demo_serve_config = Inr s"
    by (auto simp: serve_settings_from_def nc_node_settings_def demo_serve_config_def node_config_default_def)
  from valid_serve_targets [OF demo_serve_valid s] s show ?thesis
    by (simp add: demo_serve_config_def)
qed

lemma valid_access_dialers_witness:
  "\<exists>s ds. access_settings_from demo_keys True demo_access_config = Inr s \<and>
     build_dialers Some id Some [''https://n0''] s = Inr ds \<and> length ds = 1"
proof -
  obtain s where s: "access_settings_from demo_keys True demo_access_config = Inr s"
    by (auto simp: access_settings_from_def nc_node_settings_def demo_access_config_def node_config_default_def)
  then obtain ds where ds: "build_dialers Some id Some [''https://n0''] s = Inr ds"
    by (auto simp: access_settings_from_def nc_node_settings_def demo_access_config_def node_config_default_def
        build_dialers_def build_dialer_def access_service_settings_of_def resolve_relay_urls_def parse_relay_def Let_def)
  from list_all2_lengthD [OF conjunct1 [OF valid_access_dialers [OF demo_access_valid s ds]]] s ds show ?thesis
    by (simp add: demo_access_config_def)
qed

end
