(* ===== verification/ConfigStore.thy ===== *)
theory ConfigStore
  imports ConfigEdit ConfigSettings
begin

text \<open>
  Persistence of configuration files (\<open>config/store.rs\<close>): a file system with unsynced
  data and crashes, the atomic write, the writer lock, and the key a run persists.

  A path is its text; a sibling file is the path with a suffix. What the operating system
  decides (a failed call, how much of a write got through, the lock attempts, the process
  identifier and the clock) is the record \<open>io_env\<close>.
\<close>

section \<open>File system\<close>

type_synonym path = string

record cfg_file =
  f_data :: string
  f_synced :: bool
  f_readonly :: bool
  f_private :: bool

type_synonym fs = "path \<Rightarrow> cfg_file option"

datatype fs_op =
    CreateFile path
  | WriteFile path string
  | SyncFile path
  | RenameFile path path
  | SyncDir
  | RemoveFile path

definition private_file :: cfg_file where
  "private_file = \<lparr>f_data = [], f_synced = False, f_readonly = False, f_private = True\<rparr>"

fun fs_apply :: "fs_op \<Rightarrow> fs \<Rightarrow> fs" where
  "fs_apply (CreateFile p) fs = fs(p \<mapsto> private_file)"
| "fs_apply (WriteFile p s) fs =
     fs(p := map_option (\<lambda>f. f\<lparr>f_data := f_data f @ s, f_synced := False\<rparr>) (fs p))"
| "fs_apply (SyncFile p) fs = fs(p := map_option (\<lambda>f. f\<lparr>f_synced := True\<rparr>) (fs p))"
| "fs_apply (RenameFile p q) fs = fs(q := fs p, p := None)"
| "fs_apply SyncDir fs = fs"
| "fs_apply (RemoveFile p) fs = fs(p := None)"

text \<open>After a crash a synced file is as it was; of any other, a prefix or nothing may be left.\<close>

definition crash_file :: "cfg_file option \<Rightarrow> cfg_file option \<Rightarrow> bool" where
  "crash_file before after \<longleftrightarrow>
     (case before of
        None \<Rightarrow> after = None
      | Some f \<Rightarrow> if f_synced f then after = Some f
                  else after = None \<or> (\<exists>n. after = Some (f\<lparr>f_data := take n (f_data f)\<rparr>)))"

definition crash :: "fs \<Rightarrow> fs \<Rightarrow> bool" where
  "crash fs fs' \<longleftrightarrow> (\<forall>p. crash_file (fs p) (fs' p))"

section \<open>Writing atomically\<close>

record io_env =
  io_lock_tries :: "nat \<Rightarrow> nat"
  io_lock_delay :: "nat \<Rightarrow> duration"
  io_lock_opens :: bool
  io_reads :: bool
  io_creates :: bool
  io_write_stops :: "nat option"
  io_syncs :: bool
  io_renames :: bool
  io_pid :: nat
  io_stamp :: nat

datatype store_error =
    LockOpenFailed
  | LockFailed
  | LockBusy
  | ReadFailed
  | ReadOnly
  | TempCreateFailed
  | TempWriteFailed
  | ReplaceFailed

definition sibling :: "path \<Rightarrow> string \<Rightarrow> path" where
  "sibling p suffix = p @ suffix"

definition tmp_path :: "io_env \<Rightarrow> path \<Rightarrow> path" where
  "tmp_path io p = sibling p (''.'' @ nat_str (io_pid io) @ ''.'' @ nat_str (io_stamp io) @ ''.tmp'')"

lemma tmp_path_ne [simp]: "tmp_path io p \<noteq> p" "p \<noteq> tmp_path io p"
  by (simp_all add: tmp_path_def sibling_def)

text \<open>The system calls the write makes, in order, and its result; a failed call has no effect except that
a failed write may have written a prefix.\<close>

definition write_atomic :: "io_env \<Rightarrow> path \<Rightarrow> string \<Rightarrow> fs \<Rightarrow> fs_op list \<times> (store_error + unit)" where
  "write_atomic io p contents fs =
     (let tmp = tmp_path io p
      in if (case fs p of Some f \<Rightarrow> f_readonly f | None \<Rightarrow> False) then ([], Inl ReadOnly)
         else if \<not> io_creates io \<or> fs tmp \<noteq> None then ([RemoveFile tmp], Inl TempCreateFailed)
         else case io_write_stops io of
           Some n \<Rightarrow> ([CreateFile tmp, WriteFile tmp (take n contents), RemoveFile tmp], Inl TempWriteFailed)
         | None \<Rightarrow>
             if \<not> io_syncs io then
               ([CreateFile tmp, WriteFile tmp contents, RemoveFile tmp], Inl TempWriteFailed)
             else if \<not> io_renames io then
               ([CreateFile tmp, WriteFile tmp contents, SyncFile tmp, RemoveFile tmp], Inl ReplaceFailed)
             else
               ([CreateFile tmp, WriteFile tmp contents, SyncFile tmp, RenameFile tmp p, SyncDir], Inr ()))"

definition run_ops :: "fs_op list \<Rightarrow> fs \<Rightarrow> fs" where
  "run_ops ops fs = fold fs_apply ops fs"

text \<open>The file system after a write that was not interrupted.\<close>

definition write_file :: "io_env \<Rightarrow> path \<Rightarrow> string \<Rightarrow> fs \<Rightarrow> (store_error + unit) \<times> fs" where
  "write_file io p contents fs = (let (ops, r) = write_atomic io p contents fs in (r, run_ops ops fs))"

definition stored :: "string \<Rightarrow> cfg_file" where
  "stored contents = \<lparr>f_data = contents, f_synced = True, f_readonly = False, f_private = True\<rparr>"

lemma stored_sel [simp]:
  "f_data (stored s) = s" "f_synced (stored s)" "\<not> f_readonly (stored s)" "f_private (stored s)"
  by (simp_all add: stored_def)

lemma write_atomic_done:
  assumes "write_atomic io p s fs = (ops, Inr ())"
  shows "fs (tmp_path io p) = None" and "ops = [CreateFile (tmp_path io p), WriteFile (tmp_path io p) s,
    SyncFile (tmp_path io p), RenameFile (tmp_path io p) p, SyncDir]"
  using assms by (simp_all add: write_atomic_def Let_def split: if_splits option.splits)

lemma write_file_ok: "write_file io p s fs = (Inr (), fs') \<Longrightarrow> fs' = fs(p \<mapsto> stored s)"
  using write_atomic_done [of io p s fs]
  by (cases "write_atomic io p s fs") (auto simp: write_file_def run_ops_def private_file_def stored_def)

lemma write_file_err: "write_file io p s fs = (Inl e, fs') \<Longrightarrow> q \<noteq> tmp_path io p \<Longrightarrow> fs' q = fs q"
  by (auto simp: write_file_def write_atomic_def run_ops_def Let_def
      split: if_splits option.splits)

text \<open>C17: a write is all or nothing, also across a crash. Wherever in the write the machine stops, and
whatever of the unsynced data the disk then lost, the configuration file is either what it was or the complete
new text, readable by its owner only; no other file but the temporary one is touched.\<close>

theorem write_atomic_crash_safe:
  assumes "\<forall>f. fs p = Some f \<longrightarrow> f_synced f"
    and "crash (run_ops (take n (fst (write_atomic io p contents fs))) fs) fs'"
  shows "(fs' p = fs p \<or> fs' p = Some (stored contents))
    \<and> (\<forall>q f. q \<noteq> p \<and> q \<noteq> tmp_path io p \<and> fs q = Some f \<and> f_synced f \<longrightarrow> fs' q = Some f)"
proof -
  let ?m = "run_ops (take n (fst (write_atomic io p contents fs))) fs"
  have other: "?m q = fs q" if "q \<noteq> p" "q \<noteq> tmp_path io p" for q
    using that by (cases n rule: nat.exhaust; auto simp: write_atomic_def run_ops_def Let_def take_Cons' split: option.split)
  have "?m p = fs p \<or> ?m p = Some (stored contents)"
    by (auto simp: write_atomic_def run_ops_def Let_def take_Cons' private_file_def stored_def split: option.split)
  then have "fs' p = fs p \<or> fs' p = Some (stored contents)"
    using assms by (auto simp: crash_def crash_file_def split: option.splits if_splits dest!: spec [of _ p])
  moreover have "fs' q = Some f" if "q \<noteq> p" "q \<noteq> tmp_path io p" "fs q = Some f" "f_synced f" for q f
    using assms(2) that other [of q] by (auto simp: crash_def crash_file_def dest!: spec [of _ q])
  ultimately show ?thesis by blast
qed

section \<open>The writer lock\<close>

definition DEFAULT_LOCK_TIMEOUT :: duration where
  "DEFAULT_LOCK_TIMEOUT = from_secs 10"

definition LOCK_POLL :: duration where
  "LOCK_POLL = from_millis 25"

text \<open>
  The polling loop: attempt \<open>i\<close> of \<open>try_lock\<close> is \<open>0\<close> for the lock, \<open>1\<close> for would-block and
  anything else for an error; a sleep lasts \<open>LOCK_POLL\<close> or longer.
\<close>

function acquire_loop ::
    "(nat \<Rightarrow> nat) \<Rightarrow> (nat \<Rightarrow> duration) \<Rightarrow> instant \<Rightarrow> instant \<Rightarrow> nat \<Rightarrow> (store_error + unit) \<times> instant \<times> nat" where
  "acquire_loop tries delay deadline now i =
     (if tries i = 0 then (Inr (), now, Suc i)
      else if tries i = 1 then
        (if now < deadline then acquire_loop tries delay deadline (now + LOCK_POLL + delay i) (Suc i)
         else (Inl LockBusy, now, Suc i))
      else (Inl LockFailed, now, Suc i))"
  by pat_completeness auto
termination
  by (relation "measure (\<lambda>(_, _, deadline, now, _). deadline - now)")
    (auto simp: LOCK_POLL_def from_millis_def)

declare acquire_loop.simps [simp del]

definition lock_acquire :: "io_env \<Rightarrow> store_error + unit" where
  "lock_acquire io =
     (if \<not> io_lock_opens io then Inl LockOpenFailed
      else fst (acquire_loop (io_lock_tries io) (io_lock_delay io) DEFAULT_LOCK_TIMEOUT 0 0))"

lemma acquire_loop_spec:
  assumes "acquire_loop tries delay deadline now i = (r, t, n)"
  shows "i < n" and "(n - Suc i) * LOCK_POLL < deadline - now + LOCK_POLL"
    and "\<forall>j. i \<le> j \<and> Suc j < n \<longrightarrow> tries j = 1"
    and "r = Inr () \<longleftrightarrow> tries (n - 1) = 0"
    and "r = Inl LockBusy \<longleftrightarrow> tries (n - 1) = 1" and "r = Inl LockBusy \<longrightarrow> deadline \<le> t"
proof -
  have "i < n \<and> (n - Suc i) * LOCK_POLL < deadline - now + LOCK_POLL \<and>
    (\<forall>j. i \<le> j \<and> Suc j < n \<longrightarrow> tries j = 1) \<and> (r = Inr () \<longleftrightarrow> tries (n - 1) = 0) \<and>
    (r = Inl LockBusy \<longleftrightarrow> tries (n - 1) = 1) \<and> (r = Inl LockBusy \<longrightarrow> deadline \<le> t)"
    using assms
  proof (induction tries delay deadline now i rule: acquire_loop.induct)
    case (1 tries delay deadline now i)
    have pos: "0 < LOCK_POLL" by (simp add: LOCK_POLL_def from_millis_def)
    show ?case
    proof (cases "tries i = 1 \<and> now < deadline")
      case True
      let ?now = "now + LOCK_POLL + delay i"
      have rec: "acquire_loop tries delay deadline ?now (Suc i) = (r, t, n)"
        using 1(2) True by (simp add: acquire_loop.simps [of _ _ _ now])
      have ih: "Suc i < n" "(n - Suc (Suc i)) * LOCK_POLL < deadline - ?now + LOCK_POLL"
        "\<forall>j. Suc i \<le> j \<and> Suc j < n \<longrightarrow> tries j = 1" "r = Inr () \<longleftrightarrow> tries (n - 1) = 0"
        "r = Inl LockBusy \<longleftrightarrow> tries (n - 1) = 1" "r = Inl LockBusy \<longrightarrow> deadline \<le> t"
        using 1(1) [OF _ _ _ rec] True by auto
      obtain m where m: "n = Suc (Suc i) + m" using ih(1) less_iff_Suc_add by auto
      have "Suc m * LOCK_POLL < deadline - now + LOCK_POLL"
      proof (cases m)
        case 0
        from True have "0 < deadline - now" by simp
        then show ?thesis unfolding 0 by linarith
      next
        case (Suc k)
        define d where "d = deadline - ?now"
        from ih(2) m have d: "m * LOCK_POLL < d + LOCK_POLL" unfolding d_def by simp
        with Suc have "0 < d" by simp
        then have "deadline - now = d + LOCK_POLL + delay i" unfolding d_def by simp
        with d show ?thesis by simp
      qed
      moreover have "tries j = 1" if "i \<le> j" "Suc j < n" for j
        using that True ih(3) by (cases "j = i") auto
      ultimately show ?thesis using ih m by simp
    next
      case False
      with 1(2) pos show ?thesis
        by (auto simp: acquire_loop.simps [of _ _ _ now] split: if_splits)
    qed
  qed
  then show "i < n" and "(n - Suc i) * LOCK_POLL < deadline - now + LOCK_POLL"
    and "\<forall>j. i \<le> j \<and> Suc j < n \<longrightarrow> tries j = 1"
    and "r = Inr () \<longleftrightarrow> tries (n - 1) = 0"
    and "r = Inl LockBusy \<longleftrightarrow> tries (n - 1) = 1" and "r = Inl LockBusy \<longrightarrow> deadline \<le> t"
    by blast+
qed

text \<open>Waiting for another writer is bounded. The lock is polled at most 401 times, every attempt before
the last one found it taken; the writer gets it with the first free attempt, and gives up as busy only once the
whole ten seconds have passed.\<close>

theorem lock_wait_bounded:
  defines "run \<equiv> \<lambda>io. acquire_loop (io_lock_tries io) (io_lock_delay io) DEFAULT_LOCK_TIMEOUT 0 0"
  shows "case run io of (r, t, n) \<Rightarrow>
      1 \<le> n \<and> n \<le> 401 \<and> (\<forall>j. Suc j \<ge> n \<or> io_lock_tries io j = 1)
    \<and> (r = Inr () \<longleftrightarrow> io_lock_tries io (n - 1) = 0)
    \<and> (case r of Inl LockBusy \<Rightarrow> DEFAULT_LOCK_TIMEOUT \<le> t | _ \<Rightarrow> True)"
proof -
  obtain r t n where run: "run io = (r, t, n)" by (metis prod_cases3)
  note spec = acquire_loop_spec [OF run [unfolded run_def]]
  have "(n - 1) * 25000000 < 10025000000"
    using spec(2) by (simp add: DEFAULT_LOCK_TIMEOUT_def LOCK_POLL_def from_secs_def from_millis_def)
  then have "n - 1 < 401" by simp
  moreover have "io_lock_tries io j = 1" if "\<not> n \<le> Suc j" for j
    using spec(3) that by (simp add: not_le)
  ultimately show ?thesis using spec(1,4,5,6) by (auto simp: run split: sum.split store_error.split)
qed

text \<open>A machine that stops after two calls of a first write, and loses the temporary file.\<close>

definition demo_io :: io_env where
  "demo_io =
     \<lparr>io_lock_tries = (\<lambda>_. 0), io_lock_delay = (\<lambda>_. 0), io_lock_opens = True, io_reads = True, io_creates = True,
       io_write_stops = None, io_syncs = True, io_renames = True, io_pid = 1, io_stamp = 1\<rparr>"

lemma write_atomic_crash_safe_witness:
  "\<exists>fs'. crash (run_ops (take 2 (fst (write_atomic demo_io ''c'' ''text'' (\<lambda>_. None)))) (\<lambda>_. None)) fs' \<and>
     (fs' ''c'' = None \<or> fs' ''c'' = Some (stored ''text''))"
proof -
  have c: "crash (run_ops (take 2 (fst (write_atomic demo_io ''c'' ''text'' (\<lambda>_. None)))) (\<lambda>_. None)) (\<lambda>_. None)"
    by (simp add: crash_def crash_file_def run_ops_def write_atomic_def demo_io_def Let_def private_file_def)
  from write_atomic_crash_safe [OF _ c] show ?thesis using c by auto
qed

end
