(* ===== verification/Release.thy ===== *)
theory Release
  imports TextLib ConfigStore
begin

text \<open>
  Releases as the self-update sees them (\<open>crates/host/src/update/update.rs\<close> and
  \<open>current_target.rs\<close>): versions and their order, the names of archives, and the checksums file,
  which is read for the latest version and for the digest of an archive.
\<close>

section \<open>Versions and names\<close>

datatype upd_error =
    UnsupportedPlatform
  | NoExePath
  | InvalidVersion string
  | NoClient
  | FetchFailed string
  | TooLarge string nat
  | BadSignature
  | ChecksumsNotUtf8
  | NoArchiveFor string
  | NotPublished string
  | ChecksumMismatch string string
  | BadArchive
  | NotRegularFile string
  | NotInArchive string
  | EntryTooLarge string
  | EntryEmpty string
  | ReplaceDenied path
  | ReplaceFailed path

definition suffix_char :: "char \<Rightarrow> bool" where
  "suffix_char c \<longleftrightarrow>
     is_digit c \<or> CHR ''A'' \<le> c \<and> c \<le> CHR ''Z'' \<or> CHR ''a'' \<le> c \<and> c \<le> CHR ''z'' \<or> c = CHR ''.'' \<or> c = CHR ''-''"

text \<open>The expression \<open>[0-9]+\.[0-9]+\.[0-9]+([-+][0-9A-Za-z.\-]+)?\<close> against the whole text.\<close>

definition after_number :: "string \<Rightarrow> string option" where
  "after_number s = (if s \<noteq> [] \<and> is_digit (hd s) then Some (dropWhile is_digit s) else None)"

definition after_dot :: "string \<Rightarrow> string option" where
  "after_dot s = strip_prefix ''.'' s"

definition version_regex_match :: "string \<Rightarrow> bool" where
  "version_regex_match v =
     (case Option.bind (Option.bind (Option.bind (Option.bind (after_number v) after_dot) after_number) after_dot)
             after_number of
        None \<Rightarrow> False
      | Some rest \<Rightarrow>
          (case rest of
             [] \<Rightarrow> True
           | c # cs \<Rightarrow> (c = CHR ''-'' \<or> c = CHR ''+'') \<and> cs \<noteq> [] \<and> list_all suffix_char cs))"

definition parse_version :: "string \<Rightarrow> upd_error + string" where
  "parse_version raw =
     (let v = (case strip_prefix ''v'' raw of Some r \<Rightarrow> r | None \<Rightarrow> raw)
      in if version_regex_match v then Inr v else Inl (InvalidVersion raw))"

definition version_core :: "string \<Rightarrow> (nat \<times> nat \<times> nat) option" where
  "version_core v =
     (case split_on (\<lambda>c. c = CHR ''.'') (hd (split_on (\<lambda>c. c = CHR ''-'' \<or> c = CHR ''+'') v)) of
        a # b # c # _ \<Rightarrow>
          (case (parse_uint (2 ^ 64) a, parse_uint (2 ^ 64) b, parse_uint (2 ^ 64) c) of
             (Some x, Some y, Some z) \<Rightarrow> Some (x, y, z)
           | _ \<Rightarrow> None)
      | _ \<Rightarrow> None)"

definition is_older :: "string \<Rightarrow> string \<Rightarrow> bool" where
  "is_older version current =
     (case (version_core version, version_core current) of (Some v, Some c) \<Rightarrow> v < c | _ \<Rightarrow> False)"

definition checksums_name :: "string \<Rightarrow> string" where
  "checksums_name target = (if starts_with target ''darwin-'' then ''checksums-darwin.txt'' else ''checksums.txt'')"

definition is_windows :: "string \<Rightarrow> bool" where
  "is_windows target = starts_with target ''windows-''"

definition archive_name :: "string \<Rightarrow> string \<Rightarrow> string \<Rightarrow> string" where
  "archive_name exe version target =
     exe @ ''-'' @ version @ ''-'' @ target @ ''.'' @ (if is_windows target then ''zip'' else ''tar.gz'')"

definition entry_name :: "string \<Rightarrow> string \<Rightarrow> string" where
  "entry_name exe target = (if is_windows target then exe @ ''.exe'' else exe)"

text \<open>The \<open>cfg!\<close> tests on operating system, architecture and C library.\<close>

definition current_target :: "string \<Rightarrow> string \<Rightarrow> string \<Rightarrow> upd_error + string" where
  "current_target os arch env =
     (if os = ''macos'' \<and> arch = ''aarch64'' then Inr ''darwin-arm64''
      else if os = ''windows'' \<and> arch = ''x86_64'' then Inr ''windows-amd64''
      else if os = ''windows'' \<and> arch = ''aarch64'' then Inr ''windows-arm64''
      else if os = ''linux'' \<and> arch = ''x86_64'' \<and> env = ''musl'' then Inr ''linux-amd64-musl''
      else if os = ''linux'' \<and> arch = ''x86_64'' then Inr ''linux-amd64''
      else if os = ''linux'' \<and> arch = ''aarch64'' \<and> env = ''musl'' then Inr ''linux-arm64-musl''
      else if os = ''linux'' \<and> arch = ''aarch64'' then Inr ''linux-arm64''
      else if os = ''linux'' \<and> arch = ''riscv64'' then Inr ''linux-riscv64gc-musl''
      else Inl UnsupportedPlatform)"

section \<open>Checksums files\<close>

definition sum_of_line :: "string \<Rightarrow> string \<Rightarrow> string option" where
  "sum_of_line file line =
     (case split_once_ws line of
        None \<Rightarrow> None
      | Some (digest, name) \<Rightarrow>
          if trim_start_matches (\<lambda>c. c = CHR '' '' \<or> c = CHR ''*'') name = file \<and> length digest = 64
          then Some digest else None)"

fun find_map :: "('a \<Rightarrow> 'b option) \<Rightarrow> 'a list \<Rightarrow> 'b option" where
  "find_map f [] = None"
| "find_map f (x # xs) = (case f x of Some y \<Rightarrow> Some y | None \<Rightarrow> find_map f xs)"

definition expected_sum :: "string \<Rightarrow> string \<Rightarrow> string option" where
  "expected_sum checksums file = find_map (sum_of_line file) (str_lines checksums)"

definition version_of_name :: "string \<Rightarrow> string \<Rightarrow> string \<Rightarrow> string option" where
  "version_of_name exe target n =
     (case strip_prefix (exe @ ''-'') n of
        None \<Rightarrow> None
      | Some mid \<Rightarrow>
          (case (case strip_suffix mid (''-'' @ target @ ''.tar.gz'') of
                   Some v \<Rightarrow> Some v
                 | None \<Rightarrow> strip_suffix mid (''-'' @ target @ ''.zip'')) of
             None \<Rightarrow> None
           | Some v \<Rightarrow> if v \<noteq> [] \<and> is_digit (hd v) then Some v else None))"

definition version_of_line :: "string \<Rightarrow> string \<Rightarrow> string \<Rightarrow> string option" where
  "version_of_line exe target line =
     (case str_words line of
        _ # n # _ \<Rightarrow> version_of_name exe target (trim_start_matches (\<lambda>c. c = CHR ''*'') n)
      | _ \<Rightarrow> None)"

definition latest_version :: "string \<Rightarrow> string \<Rightarrow> string \<Rightarrow> upd_error + string" where
  "latest_version checksums exe target =
     (case find_map (version_of_line exe target) (str_lines checksums) of
        Some v \<Rightarrow> Inr v
      | None \<Rightarrow> Inl (NoArchiveFor exe))"

section \<open>Versions\<close>

lemma foldl_digits: "foldl (\<lambda>n c. 10 * n + (of_char c - 48)) m (s @ [c]) =
    10 * foldl (\<lambda>n c. 10 * n + (of_char c - 48)) m s + (of_char c - 48 :: nat)"
  by simp

lemma digit_char_val: "d < 10 \<Longrightarrow> of_char (digit_char d) - 48 = (d :: nat)"
  by (simp add: digit_char_def take_bit_nat_eq_self)

lemma digit_char_digit: "d < 10 \<Longrightarrow> is_digit (digit_char d)"
  by (auto simp: digit_char_def is_digit_def less_eq_char_def take_bit_nat_eq_self)

lemma nat_str_is_digit: "list_all is_digit (nat_str n)"
  by (induction n rule: nat_str.induct) (subst nat_str.simps, simp add: digit_char_digit)

lemma digits_val_nat_str: "digits_val (nat_str n) = n"
proof (induction n rule: nat_str.induct)
  case (1 n)
  show ?case
  proof (cases "n < 10")
    case True
    then show ?thesis by (subst nat_str.simps) (simp add: digits_val_def digit_char_val)
  next
    case False
    then show ?thesis using 1 by (subst nat_str.simps) (simp add: digits_val_def digit_char_val)
  qed
qed

lemma parse_uint_nat_str: "n < bound \<Longrightarrow> parse_uint bound (nat_str n) = Some n"
proof -
  assume n: "n < bound"
  obtain c cs where s: "nat_str n = c # cs" by (cases "nat_str n") auto
  have "is_digit c" using nat_str_is_digit [of n] by (simp add: s)
  then have "c \<noteq> CHR ''+''" by (auto simp: is_digit_def less_eq_char_def)
  then show ?thesis
    using n nat_str_is_digit [of n] digits_val_nat_str [of n] by (simp add: parse_uint_def s)
qed

definition render_version :: "nat \<Rightarrow> nat \<Rightarrow> nat \<Rightarrow> string \<Rightarrow> string" where
  "render_version a b c suffix = nat_str a @ ''.'' @ nat_str b @ ''.'' @ nat_str c @ suffix"

lemma not_digit_punct: "is_digit c \<Longrightarrow> c \<noteq> CHR ''.'' \<and> c \<noteq> CHR ''-'' \<and> c \<noteq> CHR ''+''"
  by (auto simp: is_digit_def less_eq_char_def)

lemma nat_str_punct: "c \<in> set (nat_str n) \<Longrightarrow> c \<noteq> CHR ''.'' \<and> c \<noteq> CHR ''-'' \<and> c \<noteq> CHR ''+''"
  using nat_str_is_digit [of n] by (auto simp: list_all_iff not_digit_punct)

lemma version_core_render:
  assumes "a < 2 ^ 64" "b < 2 ^ 64" "c < 2 ^ 64"
    and "suffix = [] \<or> hd suffix = CHR ''-'' \<or> hd suffix = CHR ''+''"
  shows "version_core (render_version a b c suffix) = Some (a, b, c)"
proof -
  let ?core = "nat_str a @ ''.'' @ nat_str b @ ''.'' @ nat_str c"
  let ?cut = "\<lambda>c. c = CHR ''-'' \<or> c = CHR ''+''"
  have plain: "\<forall>x \<in> set ?core. \<not> ?cut x" using nat_str_punct by auto
  have "hd (split_on ?cut (render_version a b c suffix)) = ?core"
  proof (cases suffix)
    case Nil
    have "render_version a b c suffix = ?core" by (simp add: render_version_def Nil)
    then show ?thesis using split_on_plain [OF plain] by simp
  next
    case (Cons x xs)
    then have "?cut x" using assms(4) by simp
    from split_on_sep [where sep = ?cut, OF plain this, of xs] show ?thesis
      by (simp add: render_version_def Cons)
  qed
  moreover have "split_on (\<lambda>c. c = CHR ''.'') ?core = [nat_str a, nat_str b, nat_str c]"
  proof -
    have dot: "\<forall>x \<in> set (nat_str n). \<not> x = CHR ''.''" for n using nat_str_punct by blast
    note sep = split_on_sep [where sep = "\<lambda>c. c = CHR ''.''", OF dot refl]
    show ?thesis using sep [of a "nat_str b @ ''.'' @ nat_str c"] sep [of b "nat_str c"]
        split_on_plain [where sep = "\<lambda>c. c = CHR ''.''", OF dot, of c] by simp
  qed
  ultimately show ?thesis using assms(1-3) by (simp add: version_core_def parse_uint_nat_str)
qed

text \<open>Versions are ordered by their numbers, not by their text; suffixes do not count.\<close>

lemma is_older_numeric:
  assumes "a < 2 ^ 64" "b < 2 ^ 64" "c < 2 ^ 64" "d < 2 ^ 64" "e < 2 ^ 64" "f < 2 ^ 64"
    and "s = [] \<or> hd s = CHR ''-'' \<or> hd s = CHR ''+''" and "t = [] \<or> hd t = CHR ''-'' \<or> hd t = CHR ''+''"
  shows "is_older (render_version a b c s) (render_version d e f t) \<longleftrightarrow> (a, b, c) < (d, e, f)"
  using version_core_render [of a b c s] version_core_render [of d e f t] assms by (simp add: is_older_def)

section \<open>Reading a release\<close>

text \<open>The checksums file of a release, as \<open>sha256sum\<close> writes it, for the executables and platforms this
project publishes.\<close>

definition published_exes :: "string list" where
  "published_exes = [''iroh-tunnel'', ''iroh-tunnel-serve'', ''iroh-tunnel-access'']"

definition published_targets :: "string list" where
  "published_targets =
     [''darwin-arm64'', ''windows-amd64'', ''windows-arm64'', ''linux-amd64-musl'', ''linux-amd64'',
      ''linux-arm64-musl'', ''linux-arm64'', ''linux-riscv64gc-musl'']"

lemma current_target_published: "current_target os arch libc = Inr t \<Longrightarrow> t \<in> set published_targets"
  by (auto simp: current_target_def published_targets_def split: if_splits)

definition sum_line :: "string \<Rightarrow> string \<times> string \<times> string \<Rightarrow> string" where
  "sum_line v entry = (case entry of (digest, exe, target) \<Rightarrow> digest @ ''  '' @ archive_name exe v target)"

definition checksums_text :: "string \<Rightarrow> (string \<times> string \<times> string) list \<Rightarrow> string" where
  "checksums_text v files = concat (map (\<lambda>f. sum_line v f @ [CHR 0x0A]) files)"

definition release_ok :: "string \<Rightarrow> (string \<times> string \<times> string) list \<Rightarrow> bool" where
  "release_ok v files \<longleftrightarrow>
     v \<noteq> [] \<and> is_digit (hd v) \<and> list_all plain_char v \<and>
     list_all (\<lambda>(digest, exe, target). length digest = 64 \<and> list_all plain_char digest \<and>
       exe \<in> set published_exes \<and> target \<in> set published_targets) files \<and>
     distinct (map snd files)"

lemma plain_names: "exe \<in> set published_exes \<Longrightarrow> list_all plain_char exe"
  "target \<in> set published_targets \<Longrightarrow> list_all plain_char target"
  by (auto simp: published_exes_def published_targets_def plain_char_def)

lemma plain_archive:
  "exe \<in> set published_exes \<Longrightarrow> target \<in> set published_targets \<Longrightarrow> list_all plain_char v \<Longrightarrow>
     list_all plain_char (archive_name exe v target)"
  using plain_names by (auto simp: archive_name_def plain_char_def)

lemma plain_no_break:
  "list_all plain_char s \<Longrightarrow> CHR 0x0A \<notin> set s \<and> CHR 0x0D \<notin> set s"
  by (auto simp: list_all_iff dest: plain_char_ne)

lemma release_line:
  assumes "release_ok v files" and "(digest, exe, target) \<in> set files"
  shows "length digest = 64" "list_all plain_char digest" "exe \<in> set published_exes"
    "target \<in> set published_targets" "list_all plain_char (archive_name exe v target)"
  using assms plain_archive [of exe target v] by (auto simp: release_ok_def list_all_iff)

lemma lines_checksums:
  assumes "release_ok v files"
  shows "str_lines (checksums_text v files) = map (sum_line v) files"
proof -
  have "CHR 0x0A \<notin> set (sum_line v f) \<and> CHR 0x0D \<notin> set (sum_line v f)" if "f \<in> set files" for f
  proof (cases f)
    case (fields digest exe target)
    with that have "(digest, exe, target) \<in> set files" by simp
    from release_line [OF assms this] show ?thesis
      by (auto simp: fields sum_line_def dest!: plain_no_break)
  qed
  then have "list_all (\<lambda>f. CHR 0x0A \<notin> set (sum_line v f) \<and> CHR 0x0D \<notin> set (sum_line v f)) files"
    by (simp add: list_all_iff)
  then show ?thesis
  proof (induction files)
    case (Cons f fs)
    then show ?case using lines_from_line [of "sum_line v f" "[]"] cut_cr_plain [of "sum_line v f"]
      by (simp add: checksums_text_def)
  qed (simp add: checksums_text_def)
qed

lemma sum_line_parts:
  assumes "length digest = 64" "list_all plain_char digest" "list_all plain_char n"
  shows "split_once_ws (digest @ ''  '' @ n) = Some (digest, '' '' @ n)"
    and "str_words (digest @ ''  '' @ n) = (if n = [] then [digest] else [digest, n])"
proof -
  show "split_once_ws (digest @ ''  '' @ n) = Some (digest, '' '' @ n)"
    using split_once_ws_plain [OF assms(2), of "'' '' @ n"] by simp
  have "digest \<noteq> []" using assms(1) by auto
  then show "str_words (digest @ ''  '' @ n) = (if n = [] then [digest] else [digest, n])"
    using words_from_plain [OF assms(2), of "[]" "''  '' @ n"] words_from_plain [OF assms(3), of "[]" "[]"]
    by simp
qed


lemma strip_exe:
  assumes "e \<in> set published_exes" "e' \<in> set published_exes"
    and "strip_prefix (e @ ''-'') (e' @ ''-'' @ rest) = Some mid" and "is_digit (hd rest)" "rest \<noteq> []" "is_digit (hd mid)"
  shows "e' = e \<and> mid = rest"
proof -
  have "e' @ ''-'' @ rest = e @ ''-'' @ mid" using assms(3) by (simp add: strip_prefix_Some)
  then show ?thesis using assms(1,2,4-6)
    by (cases rest; cases mid) (auto simp: published_exes_def is_digit_def less_eq_char_def)
qed

definition archive_suffixes :: "string list" where
  "archive_suffixes = concat (map (\<lambda>t. [''-'' @ t @ ''.tar.gz'', ''-'' @ t @ ''.zip'']) published_targets)"

text \<open>No platform's archive suffix ends in another's.\<close>

lemma suffixes_apart: "list_all (\<lambda>s. list_all (\<lambda>s'. ends_with s s' \<longrightarrow> s = s') archive_suffixes) archive_suffixes"
  by code_simp

lemma same_suffix:
  assumes "s \<in> set archive_suffixes" "s' \<in> set archive_suffixes" "v @ s = w @ s'"
  shows "s = s' \<and> v = w"
proof -
  have "ends_with s s' \<or> ends_with s' s"
    using assms(3) by (auto simp: append_eq_append_conv2 ends_with_def)
  with suffixes_apart assms(1,2) have "s = s'" by (auto simp: list_all_iff)
  with assms(3) show ?thesis by simp
qed

lemma strip_target:
  assumes "t \<in> set published_targets" "t' \<in> set published_targets" "x \<in> {''tar.gz'', ''zip''}" "x' \<in> {''tar.gz'', ''zip''}"
    and "v @ ''-'' @ t' @ ''.'' @ x' = w @ ''-'' @ t @ ''.'' @ x"
  shows "w = v \<and> t' = t"
proof -
  have "''-'' @ t @ ''.'' @ x \<in> set archive_suffixes" "''-'' @ t' @ ''.'' @ x' \<in> set archive_suffixes"
    using assms(1-4) by (auto simp: archive_suffixes_def)
  from same_suffix [OF this(2,1)] assms(5) have eq: "''-'' @ t' @ ''.'' @ x' = ''-'' @ t @ ''.'' @ x" "v = w" by auto
  from eq(1) have "rev (''-'' @ t' @ ''.'' @ x') = rev (''-'' @ t @ ''.'' @ x)" by (rule arg_cong)
  with assms(3,4) eq(2) show ?thesis by (elim insertE emptyE) simp_all
qed

lemma version_of_archive:
  assumes "e \<in> set published_exes" "e' \<in> set published_exes" "t \<in> set published_targets" "t' \<in> set published_targets"
    and "v \<noteq> []" "is_digit (hd v)"
  shows "version_of_name e t (archive_name e' v t') = (if e' = e \<and> t' = t then Some v else None)"
proof (cases "version_of_name e t (archive_name e' v t')")
  case None
  moreover have "version_of_name e t (archive_name e v t) = Some v"
  proof -
    have "strip_suffix (v @ ''-'' @ t @ ''.zip'') (''-'' @ t @ ''.tar.gz'') = None"
    proof (rule ccontr)
      assume "strip_suffix (v @ ''-'' @ t @ ''.zip'') (''-'' @ t @ ''.tar.gz'') \<noteq> None"
      then obtain r where "v @ ''-'' @ t @ ''.zip'' = r @ ''-'' @ t @ ''.tar.gz''" by (auto simp: strip_suffix_Some)
      then have "rev (v @ ''-'' @ t @ ''.zip'') = rev (r @ ''-'' @ t @ ''.tar.gz'')" by (rule arg_cong)
      then show False by simp
    qed
    then show ?thesis
      using assms(5,6) strip_prefix_append [of "e @ ''-''"] strip_suffix_append [of v "''-'' @ t @ ''.zip''"]
        strip_suffix_append [of v "''-'' @ t @ ''.tar.gz''"]
      by (simp add: version_of_name_def archive_name_def)
  qed
  ultimately show ?thesis by auto
next
  case (Some w)
  let ?x = "if is_windows t' then ''zip'' else ''tar.gz''"
  let ?rest = "v @ ''-'' @ t' @ ''.'' @ ?x"
  obtain mid x where mid: "strip_prefix (e @ ''-'') (e' @ ''-'' @ ?rest) = Some mid"
      and w: "mid = w @ ''-'' @ t @ ''.'' @ x" "x \<in> {''tar.gz'', ''zip''}" "w \<noteq> []" "is_digit (hd w)"
    using Some by (auto simp: version_of_name_def archive_name_def strip_suffix_Some split: option.splits if_splits)
  then have "e' = e \<and> mid = ?rest"
    using strip_exe [OF assms(1,2) mid] assms(5,6) by simp
  with w strip_target [OF assms(3,4) w(2), of ?x v w] show ?thesis using Some by auto
qed

lemma find_map_all: "\<exists>x \<in> set xs. f x = Some v \<Longrightarrow> \<forall>x \<in> set xs. f x = None \<or> f x = Some v \<Longrightarrow> find_map f xs = Some v"
  by (induction xs) (auto split: option.split)

lemma version_of_sum_line:
  assumes "release_ok v files" "(digest, e', t') \<in> set files" "e \<in> set published_exes" "t \<in> set published_targets"
  shows "version_of_line e t (sum_line v (digest, e', t')) = (if e' = e \<and> t' = t then Some v else None)"
proof -
  note l = release_line [OF assms(1,2)]
  have v: "v \<noteq> []" "is_digit (hd v)" using assms(1) by (simp_all add: release_ok_def)
  have "archive_name e' v t' \<noteq> []" and "trim_start_matches (\<lambda>c. c = CHR ''*'') (archive_name e' v t') = archive_name e' v t'"
    using l(3) by (auto simp: published_exes_def archive_name_def trim_start_matches_def)
  with sum_line_parts(2) [OF l(1,2,5)] version_of_archive [OF assms(3) l(3) assms(4) l(4) v]
  show ?thesis by (simp add: version_of_line_def sum_line_def)
qed

lemma sum_of_sum_line:
  assumes "release_ok v files" "(digest, e', t') \<in> set files" "e \<in> set published_exes" "t \<in> set published_targets"
  shows "sum_of_line (archive_name e v t) (sum_line v (digest, e', t')) = (if e' = e \<and> t' = t then Some digest else None)"
proof -
  note l = release_line [OF assms(1,2)]
  have v: "v \<noteq> []" "is_digit (hd v)" using assms(1) by (simp_all add: release_ok_def)
  have "trim_start_matches (\<lambda>c. c = CHR '' '' \<or> c = CHR ''*'') ('' '' @ archive_name e' v t') = archive_name e' v t'"
    using l(3) by (auto simp: published_exes_def archive_name_def trim_start_matches_def)
  moreover have "archive_name e' v t' = archive_name e v t \<longleftrightarrow> e' = e \<and> t' = t"
    using version_of_archive [OF assms(3) l(3) assms(4) l(4) v] version_of_archive [OF assms(3,3,4,4) v] by (metis option.distinct(1))
  ultimately show ?thesis using sum_line_parts(1) [OF l(1,2,5)] l(1) by (simp add: sum_of_line_def sum_line_def)
qed

text \<open>The update finds what the release published. From the checksums file of a release, for any executable
and platform it lists, the latest version is the version of the release, and the digest expected of that
archive is the one listed for it.\<close>

theorem release_read_back:
  assumes "release_ok v files" and "(digest, e, t) \<in> set files"
  shows "latest_version (checksums_text v files) e t = Inr v
    \<and> expected_sum (checksums_text v files) (archive_name e v t) = Some digest"
proof -
  note l = release_line [OF assms]
  have vl: "find_map (version_of_line e t) (map (sum_line v) files) = Some v"
  proof (rule find_map_all)
    show "\<exists>x \<in> set (map (sum_line v) files). version_of_line e t x = Some v"
      using version_of_sum_line [OF assms l(3,4)] assms(2) by force
    show "\<forall>x \<in> set (map (sum_line v) files). version_of_line e t x = None \<or> version_of_line e t x = Some v"
      using version_of_sum_line [OF assms(1) _ l(3,4)] by (auto split: if_splits)
  qed
  have "find_map (sum_of_line (archive_name e v t)) (map (sum_line v) files) = Some digest"
  proof (rule find_map_all)
    show "\<exists>x \<in> set (map (sum_line v) files). sum_of_line (archive_name e v t) x = Some digest"
      using sum_of_sum_line [OF assms l(3,4)] assms(2) by force
    have "inj_on snd (set files)" using assms(1) by (simp add: release_ok_def distinct_map)
    from inj_onD [OF this, of "(_, e, t)" "(digest, e, t)"] assms(2)
    have one: "d = digest" if "(d, e, t) \<in> set files" for d using that by simp
    show "\<forall>x \<in> set (map (sum_line v) files). sum_of_line (archive_name e v t) x = None \<or>
        sum_of_line (archive_name e v t) x = Some digest"
    proof
      fix x assume "x \<in> set (map (sum_line v) files)"
      then obtain d e' t' where x: "x = sum_line v (d, e', t')" "(d, e', t') \<in> set files" by auto
      from sum_of_sum_line [OF assms(1) x(2) l(3,4)] one x
      show "sum_of_line (archive_name e v t) x = None \<or> sum_of_line (archive_name e v t) x = Some digest"
        by (auto split: if_splits)
    qed
  qed
  with vl show ?thesis by (simp add: latest_version_def expected_sum_def lines_checksums [OF assms(1)])
qed

definition demo_files :: "(string \<times> string \<times> string) list" where
  "demo_files =
     [(replicate 64 (CHR ''a''), ''iroh-tunnel-serve'', ''linux-amd64''),
      (replicate 64 (CHR ''b''), ''iroh-tunnel'', ''linux-amd64-musl''),
      (replicate 64 (CHR ''c''), ''iroh-tunnel'', ''linux-amd64'')]"

lemma release_read_back_witness:
  "latest_version (checksums_text ''0.4.2'' demo_files) ''iroh-tunnel'' ''linux-amd64'' = Inr ''0.4.2'' \<and>
   expected_sum (checksums_text ''0.4.2'' demo_files) ''iroh-tunnel-0.4.2-linux-amd64.tar.gz'' = Some (replicate 64 (CHR ''c''))"
proof -
  have ok: "release_ok ''0.4.2'' demo_files" by code_simp
  have "archive_name ''iroh-tunnel'' ''0.4.2'' ''linux-amd64'' = ''iroh-tunnel-0.4.2-linux-amd64.tar.gz''" by code_simp
  with release_read_back [OF ok, of "replicate 64 (CHR ''c'')" "''iroh-tunnel''" "''linux-amd64''"] show ?thesis
    by (simp add: demo_files_def)
qed

end
