(* ===== verification/Update.thy ===== *)
theory Update
  imports Release
begin

text \<open>
  Self-update (\<open>crates/host/src/update\<close> and \<open>run_update_cli\<close> of \<open>src/app.rs\<close>): verifying the signed
  checksums of a release, extracting one entry of the archive and replacing the installed executable.

  HTTP, SHA-256, the Sigstore verifier and the archive formats are libraries: the record
  \<open>up_env\<close> holds what they answer, together with the outcome of each system call. Byte strings are
  \<open>string\<close>.
\<close>

section \<open>Surroundings\<close>

text \<open>A reply to a GET: the status and the chunks of the body, which may break off.\<close>

datatype http_reply = NoReply | Reply nat "string list" bool

datatype archive_entry = Entry (en_path: string) (en_is_file: bool) (en_data: "string option") | BadEntry

datatype io_fail = Denied | OtherIo

record exe_file =
  x_data :: string
  x_mode :: nat
  x_synced :: bool

type_synonym xfs = "path \<Rightarrow> exe_file option"

record up_env =
  ue_client :: bool
  ue_get :: "string \<Rightarrow> http_reply"
  ue_sha256 :: "string \<Rightarrow> string"
  ue_verify :: "string \<Rightarrow> string \<Rightarrow> bool"
  ue_unzip :: "string \<Rightarrow> (string \<Rightarrow> archive_entry option) option"
  ue_untar :: "string \<Rightarrow> archive_entry list option"
  ue_stat :: "io_fail option"
  ue_create :: "io_fail option"
  ue_chmod :: "io_fail option"
  ue_write :: "(nat \<times> io_fail) option"
  ue_sync :: "io_fail option"
  ue_rename :: "io_fail option"
  ue_cleanup :: bool
  ue_pid :: nat
  ue_nonce :: string
  ue_seq :: nat
  ue_umask :: nat

section \<open>Owners\<close>

datatype owner = Standalone | LinuxPackage string | Homebrew | Container

text \<open>The guidance text, named by what it says and the names it mentions.\<close>

datatype guidance = UsePackageManager string string | UseBrew string | RedeployImage string

fun owner_guidance :: "owner \<Rightarrow> string \<Rightarrow> guidance option" where
  "owner_guidance Standalone exe = None"
| "owner_guidance (LinuxPackage package) exe = Some (UsePackageManager exe package)"
| "owner_guidance Homebrew exe = Some (UseBrew exe)"
| "owner_guidance Container exe = Some (RedeployImage exe)"

fun overwrite_allowed_with_confirmation :: "owner \<Rightarrow> bool" where
  "overwrite_allowed_with_confirmation (LinuxPackage _) = True"
| "overwrite_allowed_with_confirmation Homebrew = True"
| "overwrite_allowed_with_confirmation _ = False"

definition PACKAGE_BIN_DIR :: string where
  "PACKAGE_BIN_DIR = ''/usr/bin''"

record owner_probe =
  pb_exe :: path
  pb_container_env :: "string option"
  pb_homebrew :: bool

definition classify :: "owner_probe \<Rightarrow> owner" where
  "classify pb =
     (if pb_container_env pb = Some ''1'' then Container
      else if pb_homebrew pb then Homebrew
      else if comps_parent (components (pb_exe pb)) = Some (components PACKAGE_BIN_DIR) then
        (case Option.bind (comps_file_name (components (pb_exe pb))) to_str of
           Some name \<Rightarrow> LinuxPackage name
         | None \<Rightarrow> Standalone)
      else Standalone)"

fun comp_str :: "comp \<Rightarrow> string" where
  "comp_str RootDir = ''/''"
| "comp_str CurDir = ''.''"
| "comp_str ParentDir = ''..''"
| "comp_str (NormalComp n) = n"

definition in_homebrew_prefix :: "path \<Rightarrow> bool" where
  "in_homebrew_prefix exe \<longleftrightarrow>
     list_ex (\<lambda>c. comp_str c \<in> {''Caskroom'', ''Cellar'', ''homebrew''}) (components exe)"

definition detect :: "string option \<Rightarrow> path \<Rightarrow> owner" where
  "detect container_env exe =
     classify \<lparr>pb_exe = exe, pb_container_env = container_env, pb_homebrew = in_homebrew_prefix exe\<rparr>"

datatype verification = Verified | Insecure

datatype overwrite_policy = RespectOwner | ReplacePackageOwned

record update_request =
  rq_to :: "string option"
  rq_verification :: verification
  rq_overwrite :: overwrite_policy

record update_ctx =
  cx_base_url :: string
  cx_exe_name :: string
  cx_target :: string
  cx_current_version :: string
  cx_install_path :: path
  cx_owner :: owner

datatype owner_decision = Proceed bool | Delegate guidance bool

definition check_owner :: "update_ctx \<Rightarrow> overwrite_policy \<Rightarrow> owner_decision" where
  "check_owner cx overwrite =
     (case owner_guidance (cx_owner cx) (cx_exe_name cx) of
        None \<Rightarrow> Proceed False
      | Some g \<Rightarrow>
          (let overridable = overwrite_allowed_with_confirmation (cx_owner cx)
           in if overridable \<and> overwrite = ReplacePackageOwned then Proceed True
              else Delegate g overridable))"

section \<open>Downloads\<close>

definition MAX_CHECKSUMS_BYTES :: nat where
  "MAX_CHECKSUMS_BYTES = 2 ^ 20"

definition MAX_ARCHIVE_BYTES :: nat where
  "MAX_ARCHIVE_BYTES = 256 * 2 ^ 20"

definition MAX_EXECUTABLE_BYTES :: nat where
  "MAX_EXECUTABLE_BYTES = 512 * 2 ^ 20"

fun read_chunks :: "string \<Rightarrow> nat \<Rightarrow> string \<Rightarrow> string list \<Rightarrow> bool \<Rightarrow> upd_error + string" where
  "read_chunks url max_bytes body [] broken = (if broken then Inl (FetchFailed url) else Inr body)"
| "read_chunks url max_bytes body (chunk # chunks) broken =
     (if max_bytes < length body + length chunk then Inl (TooLarge url max_bytes)
      else read_chunks url max_bytes (body @ chunk) chunks broken)"

definition fetch :: "up_env \<Rightarrow> string \<Rightarrow> nat \<Rightarrow> upd_error + string" where
  "fetch env url max_bytes =
     (case ue_get env url of
        NoReply \<Rightarrow> Inl (FetchFailed url)
      | Reply status chunks broken \<Rightarrow>
          if 400 \<le> status \<and> status < 600 then Inl (FetchFailed url)
          else read_chunks url max_bytes [] chunks broken)"

section \<open>Archives\<close>

text \<open>A zip is asked for the entry by its name; a tar is searched from its start by path.\<close>

definition checked_entry :: "string \<Rightarrow> string \<Rightarrow> upd_error + string" where
  "checked_entry entry data =
     (let out = take (MAX_EXECUTABLE_BYTES + 1) data
      in if MAX_EXECUTABLE_BYTES < length out then Inl (EntryTooLarge entry)
         else if out = [] then Inl (EntryEmpty entry)
         else Inr out)"

definition take_entry :: "string \<Rightarrow> bool \<Rightarrow> string option \<Rightarrow> upd_error + string" where
  "take_entry entry is_file data =
     (if \<not> is_file then Inl (NotRegularFile entry)
      else case data of None \<Rightarrow> Inl BadArchive | Some d \<Rightarrow> checked_entry entry d)"

fun tar_find :: "string \<Rightarrow> archive_entry list \<Rightarrow> upd_error + string" where
  "tar_find entry [] = Inl (NotInArchive entry)"
| "tar_find entry (BadEntry # es) = Inl BadArchive"
| "tar_find entry (Entry p is_file data # es) =
     (if components p = components entry \<or> components p = components (path_join ''./'' entry)
      then take_entry entry is_file data
      else tar_find entry es)"

definition extract_entry :: "up_env \<Rightarrow> string \<Rightarrow> string \<Rightarrow> string \<Rightarrow> upd_error + string" where
  "extract_entry env archive name entry =
     (if ends_with name ''.zip'' then
        (case ue_unzip env archive of
           None \<Rightarrow> Inl BadArchive
         | Some by_name \<Rightarrow> (case by_name entry of
                         Some (Entry _ is_file data) \<Rightarrow> take_entry entry is_file data
                       | _ \<Rightarrow> Inl (NotInArchive entry)))
      else
        (case ue_untar env archive of
           None \<Rightarrow> Inl BadArchive
         | Some es \<Rightarrow> tar_find entry es))"

section \<open>Replacing the executable\<close>

datatype x_op =
    XCreate path nat
  | XChmod path nat
  | XWrite path string
  | XSync path
  | XRename path path
  | XRemove path

fun x_apply :: "x_op \<Rightarrow> xfs \<Rightarrow> xfs" where
  "x_apply (XCreate p m) fs = fs(p \<mapsto> \<lparr>x_data = [], x_mode = m, x_synced = False\<rparr>)"
| "x_apply (XChmod p m) fs = fs(p := map_option (x_mode_update (\<lambda>_. m)) (fs p))"
| "x_apply (XWrite p s) fs = fs(p := map_option (\<lambda>f. f\<lparr>x_data := x_data f @ s, x_synced := False\<rparr>) (fs p))"
| "x_apply (XSync p) fs = fs(p := map_option (x_synced_update (\<lambda>_. True)) (fs p))"
| "x_apply (XRename p q) fs = fs(q := fs p, p := None)"
| "x_apply (XRemove p) fs = fs(p := None)"

definition x_run :: "x_op list \<Rightarrow> xfs \<Rightarrow> xfs" where
  "x_run ops fs = fold x_apply ops fs"

text \<open>A power failure: what was synced survives, of the rest any prefix or nothing.\<close>

definition x_crash :: "xfs \<Rightarrow> xfs \<Rightarrow> bool" where
  "x_crash fs fs' \<longleftrightarrow>
     (\<forall>p. case fs p of
            None \<Rightarrow> fs' p = None
          | Some f \<Rightarrow> fs' p = Some f \<or>
              \<not> x_synced f \<and> (fs' p = None \<or> (\<exists>n. fs' p = Some (f\<lparr>x_data := take n (x_data f)\<rparr>))))"

definition parent_dir :: "path \<Rightarrow> path" where
  "parent_dir p =
     (let d = rev (dropWhile (\<lambda>c. c \<noteq> CHR ''/'') (rev p))
      in if d = [] then ''.'' else if d = ''/'' then d else butlast d)"

definition stage_path :: "up_env \<Rightarrow> path \<Rightarrow> path" where
  "stage_path env target =
     path_join (parent_dir target)
       (''.iroh-tunnel-update-'' @ nat_str (ue_pid env) @ ''-'' @ ue_nonce env @ ''-'' @ nat_str (ue_seq env) @ ''.tmp'')"

datatype replace_step = ReadInstalled | CreateStaged | SetMode | WriteStaged | RenameStaged

text \<open>The staged file is dropped, and so removed, on every error after it was created.\<close>

definition cleanup :: "up_env \<Rightarrow> path \<Rightarrow> x_op list" where
  "cleanup env tmp = (if ue_cleanup env then [XRemove tmp] else [])"

definition replace_executable ::
    "up_env \<Rightarrow> path \<Rightarrow> string \<Rightarrow> xfs \<Rightarrow> x_op list \<times> ((replace_step \<times> io_fail) + unit)" where
  "replace_executable env target contents fs =
     (let tmp = stage_path env target
      in case (ue_stat env, fs target) of
           (Some e, _) \<Rightarrow> ([], Inl (ReadInstalled, e))
         | (None, None) \<Rightarrow> ([], Inl (ReadInstalled, OtherIo))
         | (None, Some old) \<Rightarrow>
             (case ue_create env of
                Some e \<Rightarrow> ([], Inl (CreateStaged, e))
              | None \<Rightarrow>
                  if fs tmp \<noteq> None then ([], Inl (CreateStaged, OtherIo))
                  else
                    (let o1 = [XCreate tmp (ue_umask env)]
                     in case ue_chmod env of
                          Some e \<Rightarrow> (o1 @ cleanup env tmp, Inl (SetMode, e))
                        | None \<Rightarrow>
                            (let o2 = o1 @ [XChmod tmp (x_mode old)]
                             in case ue_write env of
                                  Some (n, e) \<Rightarrow> (o2 @ [XWrite tmp (take n contents)] @ cleanup env tmp, Inl (WriteStaged, e))
                                | None \<Rightarrow>
                                    (let o3 = o2 @ [XWrite tmp contents]
                                     in case ue_sync env of
                                          Some e \<Rightarrow> (o3 @ cleanup env tmp, Inl (WriteStaged, e))
                                        | None \<Rightarrow>
                                            (case ue_rename env of
                                               Some e \<Rightarrow> (o3 @ [XSync tmp] @ cleanup env tmp, Inl (RenameStaged, e))
                                             | None \<Rightarrow> (o3 @ [XSync tmp, XRename tmp target], Inr ())))))))"

definition classify_replace_error :: "path \<Rightarrow> replace_step \<times> io_fail \<Rightarrow> upd_error" where
  "classify_replace_error target e = (if snd e = Denied then ReplaceDenied target else ReplaceFailed target)"

definition installed_copy :: "string \<Rightarrow> exe_file \<Rightarrow> exe_file" where
  "installed_copy contents old = \<lparr>x_data = contents, x_mode = x_mode old, x_synced = True\<rparr>"


section \<open>The update\<close>

datatype update_outcome =
    AlreadyCurrent string
  | NewerThanLatest string string
  | Updated path string string

definition release_url :: "update_ctx \<Rightarrow> string option \<Rightarrow> string" where
  "release_url cx requested =
     (let base = trim_end_matches (\<lambda>c. c = CHR ''/'') (cx_base_url cx)
      in case requested of
           Some v \<Rightarrow> base @ ''/download/v'' @ v
         | None \<Rightarrow> base @ ''/latest/download'')"

text \<open>The checksums of the release: fetched, their signature verified unless the operator waived it, as text.\<close>

definition release_checksums :: "up_env \<Rightarrow> update_ctx \<Rightarrow> bool \<Rightarrow> string option \<Rightarrow> upd_error + string" where
  "release_checksums env cx insecure requested =
     (if insecure \<and> requested \<noteq> None then Inr []
      else
        (let url = release_url cx requested @ ''/'' @ checksums_name (cx_target cx)
         in case fetch env url MAX_CHECKSUMS_BYTES of
              Inl e \<Rightarrow> Inl e
            | Inr bytes \<Rightarrow>
                (case (if insecure then Inr ()
                       else case fetch env (url @ ''.sigstore.json'') MAX_CHECKSUMS_BYTES of
                              Inl e \<Rightarrow> Inl e
                            | Inr bundle \<Rightarrow> if ue_verify env bytes bundle then Inr () else Inl BadSignature) of
                   Inl e \<Rightarrow> Inl e
                 | Inr _ \<Rightarrow> if utf8_valid (bytes_of bytes) then Inr bytes else Inl ChecksumsNotUtf8)))"

definition checked_archive :: "up_env \<Rightarrow> update_ctx \<Rightarrow> bool \<Rightarrow> string option \<Rightarrow> string \<Rightarrow> string \<Rightarrow> upd_error + string" where
  "checked_archive env cx insecure requested checksums version =
     (let name = archive_name (cx_exe_name cx) version (cx_target cx); want = expected_sum checksums name
      in if want = None \<and> \<not> insecure then Inl (NotPublished name)
         else case fetch env (release_url cx requested @ ''/'' @ name) MAX_ARCHIVE_BYTES of
                Inl e \<Rightarrow> Inl e
              | Inr archive \<Rightarrow>
                  (let got = hex (ue_sha256 env archive)
                   in if \<not> insecure \<and> want \<noteq> Some got then Inl (ChecksumMismatch name got) else Inr archive))"

definition install_archive ::
    "up_env \<Rightarrow> update_ctx \<Rightarrow> string \<Rightarrow> string \<Rightarrow> xfs \<Rightarrow> x_op list \<times> (upd_error + unit)" where
  "install_archive env cx version archive fs =
     (case extract_entry env archive (archive_name (cx_exe_name cx) version (cx_target cx))
             (entry_name (cx_exe_name cx) (cx_target cx)) of
        Inl e \<Rightarrow> ([], Inl e)
      | Inr contents \<Rightarrow>
          (case replace_executable env (cx_install_path cx) contents fs of
             (ops, Inl e) \<Rightarrow> (ops, Inl (classify_replace_error (cx_install_path cx) e))
           | (ops, Inr _) \<Rightarrow> (ops, Inr ())))"

text \<open>The system calls an update makes on the file system, and its result.\<close>

definition update :: "up_env \<Rightarrow> update_request \<Rightarrow> update_ctx \<Rightarrow> xfs \<Rightarrow> x_op list \<times> (upd_error + update_outcome)" where
  "update env rq cx fs =
     (let insecure = (rq_verification rq = Insecure)
      in case (case rq_to rq of None \<Rightarrow> Inr None | Some raw \<Rightarrow> map_sum id Some (parse_version raw)) of
           Inl e \<Rightarrow> ([], Inl e)
         | Inr requested \<Rightarrow>
             if \<not> ue_client env then ([], Inl NoClient)
             else case release_checksums env cx insecure requested of
               Inl e \<Rightarrow> ([], Inl e)
             | Inr checksums \<Rightarrow>
                 (case (case requested of
                          Some v \<Rightarrow> Inr v
                        | None \<Rightarrow> latest_version checksums (cx_exe_name cx) (cx_target cx)) of
                    Inl e \<Rightarrow> ([], Inl e)
                  | Inr version \<Rightarrow>
                      if version = cx_current_version cx then ([], Inr (AlreadyCurrent version))
                      else if requested = None \<and> is_older version (cx_current_version cx) then
                        ([], Inr (NewerThanLatest (cx_current_version cx) version))
                      else case checked_archive env cx insecure requested checksums version of
                        Inl e \<Rightarrow> ([], Inl e)
                      | Inr archive \<Rightarrow>
                          (case install_archive env cx version archive fs of
                             (ops, Inl e) \<Rightarrow> (ops, Inl e)
                           | (ops, Inr _) \<Rightarrow>
                               (ops, Inr (Updated (cx_install_path cx) (cx_current_version cx) version)))))"

section \<open>Sigstore\<close>

definition CI_ISSUER :: string where
  "CI_ISSUER = ''https://token.actions.githubusercontent.com''"

definition CI_IDENTITY_PREFIX :: string where
  "CI_IDENTITY_PREFIX = ''https://github.com/naicoi92/iroh-tunnel/.github/workflows/release.yml@refs/tags/v''"

text \<open>The \<open>sigstore_verify\<close> crate: parsing a bundle, and verifying a signature under the required issuer,
which yields the signer's identity when the certificate carries one.\<close>

record 'b sigstore =
  sg_bundle :: "string \<Rightarrow> 'b option"
  sg_ready :: bool
  sg_verify :: "string \<Rightarrow> string \<Rightarrow> 'b \<Rightarrow> string option option"

record sigstore_verifier =
  vf_issuer :: string
  vf_identity_prefix :: string

definition verifier_release :: sigstore_verifier where
  "verifier_release = \<lparr>vf_issuer = CI_ISSUER, vf_identity_prefix = CI_IDENTITY_PREFIX\<rparr>"

definition sigstore_verify :: "'b sigstore \<Rightarrow> sigstore_verifier \<Rightarrow> string \<Rightarrow> string \<Rightarrow> bool" where
  "sigstore_verify lib vf msg bundle =
     (if \<not> utf8_valid (bytes_of bundle) then False
      else case sg_bundle lib bundle of
        None \<Rightarrow> False
      | Some b \<Rightarrow>
          if \<not> sg_ready lib then False
          else case sg_verify lib (vf_issuer vf) msg b of
            Some (Some identity) \<Rightarrow> starts_with identity (vf_identity_prefix vf)
          | _ \<Rightarrow> False)"

section \<open>The command\<close>

record update_args =
  ua_to :: "string option"
  ua_insecure :: bool
  ua_yes :: bool

definition request_of_args :: "update_args \<Rightarrow> update_request" where
  "request_of_args a =
     \<lparr>rq_to = ua_to a, rq_verification = (if ua_insecure a then Insecure else Verified),
      rq_overwrite = (if ua_yes a then ReplacePackageOwned else RespectOwner)\<rparr>"

record process_env =
  pe_os :: string
  pe_arch :: string
  pe_libc :: string
  pe_exe :: "path option"
  pe_base_url :: "string option"
  pe_container :: "string option"
  pe_version :: string

definition DEFAULT_BASE_URL :: string where
  "DEFAULT_BASE_URL = ''https://github.com/naicoi92/iroh-tunnel/releases''"

datatype update_report = Guided guidance bool | Reported bool bool update_outcome

definition run_update_cli ::
    "up_env \<Rightarrow> process_env \<Rightarrow> update_args \<Rightarrow> string \<Rightarrow> xfs \<Rightarrow> x_op list \<times> (upd_error + update_report)" where
  "run_update_cli env pe a exe_name fs =
     (let rq = request_of_args a
      in case current_target (pe_os pe) (pe_arch pe) (pe_libc pe) of
           Inl e \<Rightarrow> ([], Inl e)
         | Inr target \<Rightarrow>
             (case pe_exe pe of
                None \<Rightarrow> ([], Inl NoExePath)
              | Some install_path \<Rightarrow>
                  (let cx = \<lparr>cx_base_url = (case pe_base_url pe of Some u \<Rightarrow> u | None \<Rightarrow> DEFAULT_BASE_URL),
                             cx_exe_name = exe_name, cx_target = target, cx_current_version = pe_version pe,
                             cx_install_path = install_path, cx_owner = detect (pe_container pe) install_path\<rparr>
                   in case check_owner cx (rq_overwrite rq) of
                        Delegate g overridable \<Rightarrow> ([], Inr (Guided g overridable))
                      | Proceed overriding \<Rightarrow>
                          map_prod id (map_sum id (Reported overriding (ua_insecure a))) (update env rq cx fs))))"


section \<open>Replacing\<close>

lemma x_run_simps [simp]:
  "x_run [] fs = fs" "x_run (x # ops) fs = x_run ops (x_apply x fs)"
  by (simp_all add: x_run_def)

text \<open>The shape of a replacement: refused before anything was created, undone, or complete.\<close>

lemma replace_shape:
  assumes "replace_executable env target contents fs = (ops, r)"
  shows "ops = [] \<and> r \<noteq> Inr () \<or>
    (\<exists>old. fs target = Some old \<and> fs (stage_path env target) = None \<and>
      ((\<exists>work. ops = work @ cleanup env (stage_path env target) \<and> r \<noteq> Inr () \<and>
          (\<forall>x \<in> set work. \<exists>m s. x \<in> {XCreate (stage_path env target) m, XChmod (stage_path env target) m,
             XWrite (stage_path env target) s, XSync (stage_path env target)})) \<or>
       (\<exists>m. ops = [XCreate (stage_path env target) m, XChmod (stage_path env target) (x_mode old),
               XWrite (stage_path env target) contents, XSync (stage_path env target),
               XRename (stage_path env target) target] \<and> r = Inr ())))"
  using assms
  by (auto simp: replace_executable_def Let_def split: option.splits if_splits prod.splits)

lemma work_frame:
  assumes "\<forall>x \<in> set work. \<exists>m s. x \<in> {XCreate p m, XChmod p m, XWrite p s, XSync p}" and "q \<noteq> p"
  shows "x_run work fs q = fs q"
  using assms(1)
proof (induction work arbitrary: fs)
  case (Cons x work)
  then have "x_run work (x_apply x fs) q = x_apply x fs q" by simp
  also have "\<exists>m s. x \<in> {XCreate p m, XChmod p m, XWrite p s, XSync p}" using Cons.prems by simp
  then have "x_apply x fs q = fs q" using assms(2) by (elim exE insertE emptyE) simp_all
  finally show ?case by simp
qed simp

lemma cleanup_frame: "q \<noteq> p \<Longrightarrow> x_run (take n (cleanup env p)) fs q = fs q"
  by (cases n) (simp_all add: cleanup_def)

lemma x_run_append [simp]: "x_run (a @ b) fs = x_run b (x_run a fs)"
  by (simp add: x_run_def)

text \<open>However much of it was carried out: the target is the old file or the complete new one, which is
synced, and nothing else but the staged file changed.\<close>

lemma replace_prefix:
  assumes "replace_executable env target contents fs = (ops, r)"
  shows "(x_run (take n ops) fs target = fs target \<or>
      (\<exists>old. fs target = Some old \<and> x_run (take n ops) fs target = Some (installed_copy contents old)))
    \<and> (\<forall>q. q \<noteq> target \<and> q \<noteq> stage_path env target \<longrightarrow> x_run (take n ops) fs q = fs q)"
proof -
  let ?t = "stage_path env target"
  consider (none) "ops = []"
    | (undone) old work where "fs target = Some old" "fs ?t = None" "ops = work @ cleanup env ?t"
        "\<forall>x \<in> set work. \<exists>m s. x \<in> {XCreate ?t m, XChmod ?t m, XWrite ?t s, XSync ?t}"
    | (complete) old m where "fs target = Some old" "fs ?t = None"
        "ops = [XCreate ?t m, XChmod ?t (x_mode old), XWrite ?t contents, XSync ?t, XRename ?t target]"
    using replace_shape [OF assms] by metis
  then show ?thesis
  proof cases
    case none
    then show ?thesis by simp
  next
    case undone
    have w: "\<forall>x \<in> set (take n work). \<exists>m s. x \<in> {XCreate ?t m, XChmod ?t m, XWrite ?t s, XSync ?t}"
      using undone(4) in_set_takeD by fastforce
    have "x_run (take n ops) fs q = fs q" if "q \<noteq> ?t" for q
      using that by (simp add: undone(3) cleanup_frame work_frame [OF w])
    moreover have "target \<noteq> ?t" using undone(1,2) by auto
    ultimately show ?thesis by simp
  next
    case complete
    have "target \<noteq> ?t" using complete(1,2) by auto
    then show ?thesis
      by (simp add: complete take_Cons' installed_copy_def)
  qed
qed

lemma replace_done:
  assumes "replace_executable env target contents fs = (ops, Inr ())"
  shows "\<exists>old. fs target = Some old \<and>
    x_run ops fs = fs(target \<mapsto> installed_copy contents old, stage_path env target := None) \<and> target \<noteq> stage_path env target"
proof -
  let ?t = "stage_path env target"
  obtain old m where c: "fs target = Some old" "fs ?t = None"
      "ops = [XCreate ?t m, XChmod ?t (x_mode old), XWrite ?t contents, XSync ?t, XRename ?t target]"
    using replace_shape [OF assms] by auto
  then have "target \<noteq> ?t" by auto
  with c show ?thesis by (auto simp: fun_eq_iff installed_copy_def)
qed

lemma replace_undone:
  assumes "replace_executable env target contents fs = (ops, Inl e)"
  shows "x_run ops fs = (if ue_cleanup env then fs else fs(stage_path env target := x_run ops fs (stage_path env target)))"
proof -
  let ?t = "stage_path env target"
  consider (none) "ops = []"
    | (undone) work where "fs ?t = None" "ops = work @ cleanup env ?t"
        "\<forall>x \<in> set work. \<exists>m s. x \<in> {XCreate ?t m, XChmod ?t m, XWrite ?t s, XSync ?t}"
    using replace_shape [OF assms] by auto
  then show ?thesis
  proof cases
    case none
    then show ?thesis by simp
  next
    case undone
    have "x_run ops fs q = fs q" if "q \<noteq> ?t" for q
      using that cleanup_frame [where n = 1] by (simp add: undone(2) work_frame [OF undone(3)] cleanup_def)
    moreover have "x_run ops fs ?t = None" if "ue_cleanup env"
      using that by (simp add: undone(2) cleanup_def)
    ultimately show ?thesis using undone(1) by (simp add: fun_eq_iff) (metis fun_upd_apply)
  qed
qed


section \<open>What an update installs\<close>

text \<open>\<open>contents\<close> is the executable of an archive whose digest is listed in checksums whose signature
the verifier accepted.\<close>

definition signed_release :: "up_env \<Rightarrow> update_ctx \<Rightarrow> string \<Rightarrow> string \<Rightarrow> bool" where
  "signed_release env cx version contents \<longleftrightarrow>
     (\<exists>checksums bundle archive.
        ue_verify env checksums bundle \<and>
        expected_sum checksums (archive_name (cx_exe_name cx) version (cx_target cx)) = Some (hex (ue_sha256 env archive)) \<and>
        extract_entry env archive (archive_name (cx_exe_name cx) version (cx_target cx))
          (entry_name (cx_exe_name cx) (cx_target cx)) = Inr contents)"

lemma release_checksums_verified:
  "release_checksums env cx False requested = Inr checksums \<Longrightarrow> \<exists>bundle. ue_verify env checksums bundle"
  by (auto simp: release_checksums_def Let_def split: sum.splits if_splits)

lemma checked_archive_sum:
  "checked_archive env cx False requested checksums version = Inr archive \<Longrightarrow>
     expected_sum checksums (archive_name (cx_exe_name cx) version (cx_target cx)) = Some (hex (ue_sha256 env archive))"
  by (auto simp: checked_archive_def Let_def split: sum.splits if_splits)

text \<open>An update that touches the file system went through every check; this is where it did.\<close>

lemma update_cases:
  assumes "update env rq cx fs = (ops, r)"
  obtains (early) "ops = []" and "\<And>p f t. r \<noteq> Inr (Updated p f t)"
  | (installed) requested checksums version archive contents r' where
      "(case rq_to rq of None \<Rightarrow> Inr None | Some raw \<Rightarrow> map_sum id Some (parse_version raw)) = Inr requested"
      "release_checksums env cx (rq_verification rq = Insecure) requested = Inr checksums"
      "requested = Some version \<or> requested = None \<and> latest_version checksums (cx_exe_name cx) (cx_target cx) = Inr version"
      "version \<noteq> cx_current_version cx" "requested = None \<longrightarrow> \<not> is_older version (cx_current_version cx)"
      "checked_archive env cx (rq_verification rq = Insecure) requested checksums version = Inr archive"
      "extract_entry env archive (archive_name (cx_exe_name cx) version (cx_target cx))
         (entry_name (cx_exe_name cx) (cx_target cx)) = Inr contents"
      "replace_executable env (cx_install_path cx) contents fs = (ops, r')"
      "r = (case r' of Inl e \<Rightarrow> Inl (classify_replace_error (cx_install_path cx) e)
            | Inr _ \<Rightarrow> Inr (Updated (cx_install_path cx) (cx_current_version cx) version))"
proof (cases "ops = [] \<and> (\<forall>p f t. r \<noteq> Inr (Updated p f t))")
  case True
  then show ?thesis using early by blast
next
  case False
  let ?ins = "rq_verification rq = Insecure"
  obtain requested where req:
    "(case rq_to rq of None \<Rightarrow> Inr None | Some raw \<Rightarrow> map_sum id Some (parse_version raw)) = Inr requested"
    using assms False by (auto simp: update_def Let_def split: sum.splits)
  obtain checksums where sums: "release_checksums env cx ?ins requested = Inr checksums" and client: "ue_client env"
    using assms False req by (auto simp: update_def Let_def split: sum.splits if_splits)
  obtain version where version:
    "(case requested of Some v \<Rightarrow> Inr v | None \<Rightarrow> latest_version checksums (cx_exe_name cx) (cx_target cx)) = Inr version"
    using assms False req sums client by (auto simp: update_def Let_def split: sum.splits)
  have new: "version \<noteq> cx_current_version cx" "requested = None \<longrightarrow> \<not> is_older version (cx_current_version cx)"
    using assms False req sums client version by (auto simp: update_def Let_def split: if_splits)
  obtain archive where archive: "checked_archive env cx ?ins requested checksums version = Inr archive"
    using assms False req sums client version new by (auto simp: update_def Let_def split: sum.splits if_splits)
  have inst: "(case install_archive env cx version archive fs of
      (ops, Inl e) \<Rightarrow> (ops, Inl e)
    | (ops, Inr _) \<Rightarrow> (ops, Inr (Updated (cx_install_path cx) (cx_current_version cx) version))) = (ops, r)"
    using assms req sums client version new archive by (auto simp: update_def Let_def split: if_splits)
  then obtain contents where contents:
    "extract_entry env archive (archive_name (cx_exe_name cx) version (cx_target cx))
       (entry_name (cx_exe_name cx) (cx_target cx)) = Inr contents"
    using False by (auto simp: install_archive_def split: sum.splits)
  obtain ops' r' where repl: "replace_executable env (cx_install_path cx) contents fs = (ops', r')"
    by (cases "replace_executable env (cx_install_path cx) contents fs")
  have "ops' = ops" and "r = (case r' of Inl e \<Rightarrow> Inl (classify_replace_error (cx_install_path cx) e)
            | Inr _ \<Rightarrow> Inr (Updated (cx_install_path cx) (cx_current_version cx) version))"
    using inst contents repl by (auto simp: install_archive_def split: sum.splits)
  moreover have "requested = Some version \<or>
      requested = None \<and> latest_version checksums (cx_exe_name cx) (cx_target cx) = Inr version"
    using version by (cases requested) auto
  ultimately show ?thesis using installed req sums new archive contents repl by blast
qed

text \<open>What the command runs: the update of its own executable, when its owner allows it.\<close>

definition cli_ctx :: "process_env \<Rightarrow> string \<Rightarrow> string \<Rightarrow> path \<Rightarrow> update_ctx" where
  "cli_ctx pe exe_name target install_path =
     \<lparr>cx_base_url = (case pe_base_url pe of Some u \<Rightarrow> u | None \<Rightarrow> DEFAULT_BASE_URL),
      cx_exe_name = exe_name, cx_target = target, cx_current_version = pe_version pe,
      cx_install_path = install_path, cx_owner = detect (pe_container pe) install_path\<rparr>"

lemma run_update_cli_cases:
  obtains (early) r where "run_update_cli env pe a exe_name fs = ([], r)"
      "\<And>o1 i p f t. r \<noteq> Inr (Reported o1 i (Updated p f t))"
  | (ran) target install_path o1 ops r where "pe_exe pe = Some install_path"
      "current_target (pe_os pe) (pe_arch pe) (pe_libc pe) = Inr target"
      "check_owner (cli_ctx pe exe_name target install_path) (rq_overwrite (request_of_args a)) = Proceed o1"
      "update env (request_of_args a) (cli_ctx pe exe_name target install_path) fs = (ops, r)"
      "run_update_cli env pe a exe_name fs = (ops, map_sum id (Reported o1 (ua_insecure a)) r)"
proof (cases "current_target (pe_os pe) (pe_arch pe) (pe_libc pe)")
  case (Inl e)
  then show ?thesis using early by (simp add: run_update_cli_def Let_def)
next
  case (Inr target)
  show ?thesis
  proof (cases "pe_exe pe")
    case None
    with Inr show ?thesis using early by (simp add: run_update_cli_def Let_def)
  next
    case (Some install_path)
    let ?cx = "cli_ctx pe exe_name target install_path"
    show ?thesis
    proof (cases "check_owner ?cx (rq_overwrite (request_of_args a))")
      case (Proceed o1)
      obtain ops r where "update env (request_of_args a) ?cx fs = (ops, r)"
        by (cases "update env (request_of_args a) ?cx fs")
      with Inr Some Proceed show ?thesis
        using ran by (simp add: run_update_cli_def Let_def cli_ctx_def)
    next
      case (Delegate g o2)
      with Inr Some show ?thesis using early by (simp add: run_update_cli_def Let_def cli_ctx_def)
    qed
  qed
qed


text \<open>C26: the result of an update is what happened to the file. It reports an installed version exactly if
the executable was replaced by a complete new file of the same mode; the version is the one the operator named,
or the latest unless that is older, and differs from the running one. Every other result, an error included,
leaves the file system as it was, at most with a staged file where removing that failed too.\<close>

theorem update_result_exact:
  "case run_update_cli env pe a exe_name fs of (ops, r) \<Rightarrow>
     (case r of
        Inr (Reported overriding insecure (Updated p from to)) \<Rightarrow>
          pe_exe pe = Some p \<and> from = pe_version pe \<and> to \<noteq> from \<and>
          (case ua_to a of Some raw \<Rightarrow> parse_version raw = Inr to | None \<Rightarrow> \<not> is_older to from) \<and>
          (\<exists>old contents. fs p = Some old \<and>
             x_run ops fs = fs(p \<mapsto> installed_copy contents old, stage_path env p := None))
      | _ \<Rightarrow> (case pe_exe pe of
               None \<Rightarrow> ops = []
             | Some p \<Rightarrow>
                 x_run ops fs = (if ue_cleanup env then fs
                                 else fs(stage_path env p := x_run ops fs (stage_path env p)))))"
proof (cases rule: run_update_cli_cases [of env pe a exe_name fs])
  case (early r)
  then show ?thesis
    by (auto split: sum.splits update_report.splits update_outcome.splits option.splits)
next
  case (ran platform install o1 ops r)
  from ran(4) show ?thesis
  proof (cases rule: update_cases)
    case early
    show ?thesis
    proof (cases r)
      case (Inl e)
      with ran early(1) show ?thesis by simp
    next
      case (Inr oc)
      then have "\<And>p f t. oc \<noteq> Updated p f t" using early(2) by blast
      with ran early(1) Inr show ?thesis by (cases oc) (simp, simp, metis)
    qed
  next
    case (installed requested checksums version archive contents r')
    have cx: "cx_install_path (cli_ctx pe exe_name platform install) = install"
      "cx_current_version (cli_ctx pe exe_name platform install) = pe_version pe"
      by (simp_all add: cli_ctx_def)
    show ?thesis
    proof (cases r')
      case (Inl e)
      with installed ran cx show ?thesis
        using replace_undone [of env install contents fs ops e] by simp
    next
      case (Inr u)
      then have "replace_executable env install contents fs = (ops, Inr ())"
        using installed(8) cx by simp
      from replace_done [OF this] obtain old where old: "fs install = Some old"
        "x_run ops fs = fs(install \<mapsto> installed_copy contents old, stage_path env install := None)" by blast
      have "case ua_to a of Some raw \<Rightarrow> parse_version raw = Inr version | None \<Rightarrow> \<not> is_older version (pe_version pe)"
        using installed(1,3,5) cx by (cases "ua_to a"; cases "parse_version (the (ua_to a))") (auto simp: request_of_args_def)
      with installed ran cx Inr old show ?thesis by auto
    qed
  qed
qed

text \<open>An update respects the owner of the file. Inside a container image nothing is touched; a file of a
package manager is touched only when the operator asked for it with \<open>--yes\<close>.\<close>

theorem update_respects_owner:
  "case pe_exe pe of
     None \<Rightarrow> fst (run_update_cli env pe a exe_name fs) = []
   | Some p \<Rightarrow>
       (case detect (pe_container pe) p of
          Standalone \<Rightarrow> True
        | Container \<Rightarrow> fst (run_update_cli env pe a exe_name fs) = []
        | _ \<Rightarrow> ua_yes a \<or> fst (run_update_cli env pe a exe_name fs) = [])"
proof (cases rule: run_update_cli_cases [of env pe a exe_name fs])
  case early
  then show ?thesis by (simp split: option.split owner.split)
next
  case (ran platform install o1 ops r)
  then show ?thesis
    by (auto simp: check_owner_def cli_ctx_def request_of_args_def Let_def split: owner.splits if_splits)
qed


section \<open>Witnesses\<close>

definition demo_sums :: string where
  "demo_sums = replicate 64 (CHR ''0'') @ ''  iroh-tunnel-0.4.2-linux-amd64.tar.gz'' @ [CHR 0x0A]"

definition demo_get :: "string \<Rightarrow> http_reply" where
  "demo_get url =
     Reply 200 [if ends_with url ''checksums.txt'' then demo_sums else if ends_with url ''.json'' then ''{}'' else ''TAR''] False"

definition demo_sigstore :: "unit sigstore" where
  "demo_sigstore =
     \<lparr>sg_bundle = (\<lambda>_. Some ()), sg_ready = True, sg_verify = (\<lambda>_ _ _. Some (Some (CI_IDENTITY_PREFIX @ ''0.4.2'')))\<rparr>"

definition demo_up :: up_env where
  "demo_up =
     \<lparr>ue_client = True, ue_get = demo_get, ue_sha256 = (\<lambda>_. replicate 32 (CHR 0x00)),
       ue_verify = sigstore_verify demo_sigstore verifier_release, ue_unzip = (\<lambda>_. None),
       ue_untar = (\<lambda>_. Some [Entry ''LICENSE'' True (Some ''MIT''), Entry ''./iroh-tunnel'' True (Some ''NEW'')]),
       ue_stat = None, ue_create = None, ue_chmod = None, ue_write = None, ue_sync = None, ue_rename = None,
       ue_cleanup = True, ue_pid = 7, ue_nonce = ''0000002a'', ue_seq = 0, ue_umask = 420\<rparr>"

definition demo_pe :: process_env where
  "demo_pe =
     \<lparr>pe_os = ''linux'', pe_arch = ''x86_64'', pe_libc = ''gnu'', pe_exe = Some ''/opt/it'', pe_base_url = None,
       pe_container = None, pe_version = ''0.4.1''\<rparr>"

definition demo_old :: exe_file where
  "demo_old = \<lparr>x_data = ''OLD'', x_mode = 493, x_synced = True\<rparr>"

lemma demo_checksums:
  "release_checksums demo_up cx False None = Inr demo_sums" if "cx_target cx = ''linux-amd64''"
proof -
  have "utf8_valid (bytes_of demo_sums)" by code_simp
  moreover have "ends_with (release_url cx None @ ''/'' @ ''checksums.txt'') ''checksums.txt''"
    "\<not> ends_with (release_url cx None @ ''/'' @ ''checksums.txt.sigstore.json'') ''checksums.txt''"
    "ends_with (release_url cx None @ ''/'' @ ''checksums.txt.sigstore.json'') ''.json''"
    by (simp_all add: ends_with_def)
  moreover have "length demo_sums \<le> MAX_CHECKSUMS_BYTES" by (simp add: demo_sums_def MAX_CHECKSUMS_BYTES_def)
  ultimately show ?thesis
    using that
    by (simp add: release_checksums_def fetch_def demo_up_def demo_get_def Let_def checksums_name_def starts_with_def
        sigstore_verify_def demo_sigstore_def verifier_release_def bytes_of_def MAX_CHECKSUMS_BYTES_def)
qed


lemma demo_run:
  "fst (run_update_cli demo_up demo_pe \<lparr>ua_to = None, ua_insecure = False, ua_yes = False\<rparr> ''iroh-tunnel'' [''/opt/it'' \<mapsto> demo_old]) =
     [XCreate (stage_path demo_up ''/opt/it'') 420, XChmod (stage_path demo_up ''/opt/it'') 493,
      XWrite (stage_path demo_up ''/opt/it'') ''NEW'', XSync (stage_path demo_up ''/opt/it''),
      XRename (stage_path demo_up ''/opt/it'') ''/opt/it'']"
proof -
  let ?cx = "cli_ctx demo_pe ''iroh-tunnel'' ''linux-amd64'' ''/opt/it''"
  have owner: "detect None ''/opt/it'' = Standalone" by code_simp
  have v: "latest_version demo_sums ''iroh-tunnel'' ''linux-amd64'' = Inr ''0.4.2''" by code_simp
  have "render_version 0 4 2 [] = ''0.4.2''" "render_version 0 4 1 [] = ''0.4.1''"
    by (simp_all add: render_version_def nat_str.simps digit_char_def char_of_def bit_simps)
  with is_older_numeric [of 0 4 2 0 4 1 "[]" "[]"] have older: "is_older ''0.4.2'' ''0.4.1'' = False" by simp
  have name: "archive_name ''iroh-tunnel'' ''0.4.2'' ''linux-amd64'' = ''iroh-tunnel-0.4.2-linux-amd64.tar.gz''" by code_simp
  have sum: "expected_sum demo_sums ''iroh-tunnel-0.4.2-linux-amd64.tar.gz'' = Some (replicate 64 (CHR ''0''))" by code_simp
  have digest: "hex (replicate 32 (CHR 0x00)) = replicate 64 (CHR ''0'')" by code_simp
  have ends: "\<not> ends_with (u @ ''/iroh-tunnel-0.4.2-linux-amd64.tar.gz'') ''checksums.txt''"
    "\<not> ends_with (u @ ''/iroh-tunnel-0.4.2-linux-amd64.tar.gz'') ''.json''" for u
    by (simp_all add: ends_with_def)
  have archive: "checked_archive demo_up ?cx False None demo_sums ''0.4.2'' = Inr ''TAR''"
    using ends by (simp add: checked_archive_def cli_ctx_def name sum fetch_def demo_up_def demo_get_def digest
        MAX_ARCHIVE_BYTES_def Let_def)
  have found: "components ''LICENSE'' \<noteq> components ''iroh-tunnel''" "components ''LICENSE'' \<noteq> components ''./iroh-tunnel''"
    "path_join ''./'' ''iroh-tunnel'' = ''./iroh-tunnel''" by code_simp+
  have entry: "extract_entry demo_up ''TAR'' (archive_name ''iroh-tunnel'' ''0.4.2'' ''linux-amd64'') ''iroh-tunnel'' = Inr ''NEW''"
    using found by (simp add: extract_entry_def name demo_up_def ends_with_def take_entry_def checked_entry_def
        MAX_EXECUTABLE_BYTES_def)
  have free: "stage_path demo_up ''/opt/it'' \<noteq> ''/opt/it''"
    by (simp add: stage_path_def path_join_def parent_dir_def ends_with_def)
  have up: "ue_stat demo_up = None" "ue_create demo_up = None" "ue_chmod demo_up = None" "ue_write demo_up = None"
    "ue_sync demo_up = None" "ue_rename demo_up = None" "ue_umask demo_up = 420" by (simp_all add: demo_up_def)
  have repl: "replace_executable demo_up ''/opt/it'' ''NEW'' [''/opt/it'' \<mapsto> demo_old] =
     ([XCreate (stage_path demo_up ''/opt/it'') 420, XChmod (stage_path demo_up ''/opt/it'') 493,
       XWrite (stage_path demo_up ''/opt/it'') ''NEW'', XSync (stage_path demo_up ''/opt/it''),
       XRename (stage_path demo_up ''/opt/it'') ''/opt/it''], Inr ())"
    using free up by (simp add: replace_executable_def demo_old_def Let_def)
  have inst: "install_archive demo_up ?cx ''0.4.2'' ''TAR'' [''/opt/it'' \<mapsto> demo_old] =
     ([XCreate (stage_path demo_up ''/opt/it'') 420, XChmod (stage_path demo_up ''/opt/it'') 493,
       XWrite (stage_path demo_up ''/opt/it'') ''NEW'', XSync (stage_path demo_up ''/opt/it''),
       XRename (stage_path demo_up ''/opt/it'') ''/opt/it''], Inr ())"
    using entry repl by (simp add: install_archive_def cli_ctx_def entry_name_def is_windows_def starts_with_def)
  have cx: "cx_exe_name ?cx = ''iroh-tunnel''" "cx_target ?cx = ''linux-amd64''" "cx_current_version ?cx = ''0.4.1''"
    "cx_owner ?cx = Standalone" by (simp_all add: cli_ctx_def demo_pe_def owner)
  have client: "ue_client demo_up" by (simp add: demo_up_def)
  have upd: "fst (update demo_up \<lparr>rq_to = None, rq_verification = Verified, rq_overwrite = RespectOwner\<rparr> ?cx [''/opt/it'' \<mapsto> demo_old]) =
    [XCreate (stage_path demo_up ''/opt/it'') 420, XChmod (stage_path demo_up ''/opt/it'') 493,
       XWrite (stage_path demo_up ''/opt/it'') ''NEW'', XSync (stage_path demo_up ''/opt/it''),
       XRename (stage_path demo_up ''/opt/it'') ''/opt/it'']"
    using demo_checksums [of ?cx] archive inst cx client v older by (simp add: update_def)
  have t: "current_target (pe_os demo_pe) (pe_arch demo_pe) (pe_libc demo_pe) = Inr ''linux-amd64''" by code_simp
  have "check_owner ?cx RespectOwner = Proceed False" by (simp add: check_owner_def cx)
  then show ?thesis
    using upd t by (simp add: run_update_cli_def request_of_args_def cli_ctx_def Let_def) (simp add: demo_pe_def)
qed

lemma demo_crash:
  "x_crash (x_run (take 4 [XCreate s 420, XChmod s 493, XWrite s ''NEW'', XSync s, XRename s t]) [t \<mapsto> demo_old])
     ([t \<mapsto> demo_old](s := x_run [XCreate s 420, XChmod s 493, XWrite s ''NEW'', XSync s] [t \<mapsto> demo_old] s))" if "s \<noteq> t"
  using that by (simp add: x_crash_def take_Cons')


end
