(* ===== verification/ConfigOps.thy ===== *)
theory ConfigOps
  imports ConfigStore
begin

text \<open>
  The configuration commands on files: one locked, validated, atomic mutation
  (\<open>config/mutate.rs\<close>), \<open>set\<close>, \<open>rm\<close>, \<open>keygen\<close>, \<open>list\<close>, \<open>show\<close>, \<open>check\<close>, \<open>edit\<close>, and the key
  a first run persists (\<open>store.rs\<close>). Paths are already resolved; the \<open>toml\<close> and \<open>toml_edit\<close>
  crates are the functions of a record.
\<close>

section \<open>Text and documents\<close>

record toml_lib =
  tl_parse :: "string \<Rightarrow> tbl option"
  tl_render :: "tbl \<Rightarrow> string"
  tl_serve :: "string \<Rightarrow> serve_config option"
  tl_access :: "string \<Rightarrow> access_config option"

datatype cfg_error =
    StoreErr store_error
  | SyntaxErr
  | DeserializeErr
  | SchemaErr schema_error
  | DocErr doc_error
  | KeyErr key_error
  | NoConfig

fun map_err :: "('e \<Rightarrow> 'f) \<Rightarrow> 'e + 'a \<Rightarrow> 'f + 'a" where
  "map_err f (Inl e) = Inl (f e)"
| "map_err f (Inr x) = Inr x"

lemma map_err_Inr [simp]: "map_err f r = Inr x \<longleftrightarrow> r = Inr x"
  by (cases r) auto

definition parse_doc :: "toml_lib \<Rightarrow> string \<Rightarrow> cfg_error + tbl" where
  "parse_doc lib text = (case tl_parse lib text of None \<Rightarrow> Inl SyntaxErr | Some doc \<Rightarrow> Inr doc)"

definition validate_role_doc :: "toml_lib \<Rightarrow> role \<Rightarrow> string \<Rightarrow> cfg_error + unit" where
  "validate_role_doc lib role text =
     (case role of
        Access \<Rightarrow> (case tl_access lib text of
                     None \<Rightarrow> Inl DeserializeErr | Some cfg \<Rightarrow> map_err SchemaErr (access_validate cfg))
      | Serve \<Rightarrow> (case tl_serve lib text of
                     None \<Rightarrow> Inl DeserializeErr | Some cfg \<Rightarrow> map_err SchemaErr (serve_validate cfg)))"

text \<open>\<open>RoleDoc::load\<close> accepts the text: \<open>from_toml\<close> deserializes and validates it.\<close>

definition loads :: "toml_lib \<Rightarrow> role \<Rightarrow> string \<Rightarrow> bool" where
  "loads lib role text \<longleftrightarrow> validate_role_doc lib role text = Inr ()"

section \<open>Reading and the lock\<close>

definition read_optional :: "io_env \<Rightarrow> path \<Rightarrow> fs \<Rightarrow> cfg_error + string option" where
  "read_optional io p fs = (if io_reads io then Inr (map_option f_data (fs p)) else Inl (StoreErr ReadFailed))"

definition require_existing :: "io_env \<Rightarrow> path \<Rightarrow> fs \<Rightarrow> cfg_error + string" where
  "require_existing io p fs =
     and_then (read_optional io p fs) (\<lambda>t. case t of None \<Rightarrow> Inl NoConfig | Some text \<Rightarrow> Inr text)"

text \<open>Taking the lock makes the lock file; it is released when the operation returns.\<close>

definition with_lock :: "io_env \<Rightarrow> path \<Rightarrow> fs \<Rightarrow> (fs \<Rightarrow> (cfg_error + 'a) \<times> fs) \<Rightarrow> (cfg_error + 'a) \<times> fs" where
  "with_lock io p fs body =
     (let lock = sibling p ''.lock'';
          fs1 = (if io_lock_opens io \<and> fs lock = None then fs(lock \<mapsto> private_file) else fs)
      in case lock_acquire io of
           Inl e \<Rightarrow> (Inl (StoreErr e), fs1)
         | Inr _ \<Rightarrow> body fs1)"

definition write_checked :: "io_env \<Rightarrow> path \<Rightarrow> string \<Rightarrow> 'a \<Rightarrow> fs \<Rightarrow> (cfg_error + 'a) \<times> fs" where
  "write_checked io p text value fs =
     (case write_file io p text fs of
        (Inl e, fs') \<Rightarrow> (Inl (StoreErr e), fs')
      | (Inr _, fs') \<Rightarrow> (Inr value, fs'))"

section \<open>Mutations\<close>

definition mutate_deciding ::
    "toml_lib \<Rightarrow> io_env \<Rightarrow> role \<Rightarrow> path \<Rightarrow> (tbl \<Rightarrow> doc_error + 'a edit \<times> tbl) \<Rightarrow> fs \<Rightarrow> (cfg_error + 'a) \<times> fs" where
  "mutate_deciding lib io role p change fs =
     with_lock io p fs (\<lambda>fs.
       case and_then (read_optional io p fs) (\<lambda>t.
            and_then (parse_doc lib (unwrap_or t [])) (\<lambda>doc.
            map_err DocErr (change doc))) of
         Inl e \<Rightarrow> (Inl e, fs)
       | Inr (Keep value, _) \<Rightarrow> (Inr value, fs)
       | Inr (Apply value, doc) \<Rightarrow>
           (let rendered = tl_render lib (strip_retired_fields doc)
            in case validate_role_doc lib role rendered of
                 Inl e \<Rightarrow> (Inl e, fs)
               | Inr _ \<Rightarrow> write_checked io p rendered value fs))"

definition set_service ::
    "toml_lib \<Rightarrow> io_env \<Rightarrow> role \<Rightarrow> path \<Rightarrow> set_request \<Rightarrow> fs \<Rightarrow> (cfg_error + set_outcome) \<times> fs" where
  "set_service lib io role p req fs = mutate_deciding lib io role p (set_change role req) fs"

definition remove_service ::
    "toml_lib \<Rightarrow> io_env \<Rightarrow> role \<Rightarrow> path \<Rightarrow> string \<Rightarrow> fs \<Rightarrow> (cfg_error + unit) \<times> fs" where
  "remove_service lib io role p name fs =
     (case require_existing io p fs of
        Inl e \<Rightarrow> (Inl e, fs)
      | Inr _ \<Rightarrow> mutate_deciding lib io role p (remove_change name) fs)"

datatype rotation_consent = NotGiven | Given

datatype keygen_outcome =
    Generated string bool
  | ConsentNeeded "string option"

definition keygen_change ::
    "'sk key_lib \<Rightarrow> 'sk \<Rightarrow> rotation_consent \<Rightarrow> tbl \<Rightarrow> doc_error + keygen_outcome edit \<times> tbl" where
  "keygen_change kl key consent doc =
     (let existing = existing_secret_key doc
      in if existing \<noteq> None \<and> consent = NotGiven then
           Inr (Keep (ConsentNeeded
             (case existing of
                None \<Rightarrow> None
              | Some s \<Rightarrow> (case resolve_secret_key kl key s of
                             Inl _ \<Rightarrow> None | Inr (k, _) \<Rightarrow> Some (kl_public kl k)))), doc)
         else and_then (ensure_node_table doc) (\<lambda>doc'.
           Inr (Apply (Generated (kl_public kl key) (existing \<noteq> None)),
                set_node_key (encode_secret_key kl key) doc')))"

definition keygen ::
    "toml_lib \<Rightarrow> 'sk key_lib \<Rightarrow> io_env \<Rightarrow> role \<Rightarrow> path \<Rightarrow> 'sk \<Rightarrow> rotation_consent \<Rightarrow> fs
      \<Rightarrow> (cfg_error + keygen_outcome) \<times> fs" where
  "keygen lib kl io role p key consent fs = mutate_deciding lib io role p (keygen_change kl key consent) fs"

text \<open>The key a run generated; the first one stored wins.\<close>

definition persist_generated_key ::
    "toml_lib \<Rightarrow> 'sk key_lib \<Rightarrow> io_env \<Rightarrow> role \<Rightarrow> path \<Rightarrow> 'sk \<Rightarrow> fs \<Rightarrow> (cfg_error + string) \<times> fs" where
  "persist_generated_key lib kl io role p key fs =
     with_lock io p fs (\<lambda>fs.
       case and_then (read_optional io p fs) (\<lambda>t. parse_doc lib (unwrap_or t [])) of
         Inl e \<Rightarrow> (Inl e, fs)
       | Inr doc \<Rightarrow>
           (case existing_secret_key doc of
              Some existing \<Rightarrow>
                (case resolve_secret_key kl key existing of
                   Inl e \<Rightarrow> (Inl (KeyErr e), fs)
                 | Inr _ \<Rightarrow> (Inr existing, fs))
            | None \<Rightarrow>
                (case ensure_node_table doc of
                   Inl e \<Rightarrow> (Inl (DocErr e), fs)
                 | Inr doc \<Rightarrow>
                     (let encoded = encode_secret_key kl key;
                          text = tl_render lib (strip_retired_fields (set_node_key encoded doc))
                      in case validate_role_doc lib role text of
                           Inl e \<Rightarrow> (Inl e, fs)
                         | Inr _ \<Rightarrow> write_checked io p text encoded fs))))"

section \<open>Inspection\<close>

definition identity_has_key :: "toml_lib \<Rightarrow> io_env \<Rightarrow> path \<Rightarrow> fs \<Rightarrow> cfg_error + bool" where
  "identity_has_key lib io p fs =
     and_then (read_optional io p fs) (\<lambda>t.
       Inr (Option.bind (Option.bind t (tl_parse lib)) existing_secret_key \<noteq> None))"

definition list_services :: "toml_lib \<Rightarrow> io_env \<Rightarrow> path \<Rightarrow> fs \<Rightarrow> cfg_error + service_row list option" where
  "list_services lib io p fs =
     and_then (require_existing io p fs) (\<lambda>text.
     and_then (parse_doc lib text) (\<lambda>doc. Inr (list_rows doc)))"

datatype disclosure = Redacted | Reveal

definition show_config :: "toml_lib \<Rightarrow> io_env \<Rightarrow> path \<Rightarrow> disclosure \<Rightarrow> fs \<Rightarrow> cfg_error + string" where
  "show_config lib io p d fs =
     and_then (require_existing io p fs) (\<lambda>text.
       if d = Reveal then Inr text
       else and_then (parse_doc lib text) (\<lambda>doc. Inr (tl_render lib (redact_secrets doc))))"

definition check_config :: "toml_lib \<Rightarrow> io_env \<Rightarrow> role \<Rightarrow> path \<Rightarrow> fs \<Rightarrow> cfg_error + unit" where
  "check_config lib io role p fs =
     and_then (require_existing io p fs) (validate_role_doc lib role)"

section \<open>Editing\<close>

record edit_attempt =
  et_role :: role
  et_path :: path
  et_scratch :: path
  et_original :: "string option"

datatype edit_rejection = Conflict | Invalid

datatype edit_outcome =
    EditUnchanged
  | EditSaved
  | EditRejected edit_rejection "path option"

definition scratch_path :: "nat \<Rightarrow> nat \<Rightarrow> path \<Rightarrow> path" where
  "scratch_path pid attempt p = sibling p (''.edit-'' @ nat_str pid @ ''-'' @ nat_str attempt @ ''.toml'')"

definition prepare_edit :: "io_env \<Rightarrow> nat \<Rightarrow> role \<Rightarrow> path \<Rightarrow> fs \<Rightarrow> (cfg_error + edit_attempt) \<times> fs" where
  "prepare_edit io attempt role p fs =
     (case read_optional io p fs of
        Inl e \<Rightarrow> (Inl e, fs)
      | Inr original \<Rightarrow>
          (let scratch = scratch_path (io_pid io) attempt p
           in write_checked io scratch (unwrap_or original [])
                \<lparr>et_role = role, et_path = p, et_scratch = scratch, et_original = original\<rparr> fs))"

definition keep_rejected :: "io_env \<Rightarrow> path \<Rightarrow> string \<Rightarrow> fs \<Rightarrow> path option \<times> fs" where
  "keep_rejected io p edited fs =
     (let sidecar = sibling p ''.rejected''
      in case write_file io sidecar edited fs of
           (Inr _, fs') \<Rightarrow> (Some sidecar, fs')
         | (Inl _, fs') \<Rightarrow> (None, fs'))"

definition edit_commit :: "toml_lib \<Rightarrow> io_env \<Rightarrow> edit_attempt \<Rightarrow> fs \<Rightarrow> (cfg_error + edit_outcome) \<times> fs" where
  "edit_commit lib io et fs0 =
     (let edited = fs0 (et_scratch et); fs = fs0(et_scratch et := None); p = et_path et
      in case edited of
           None \<Rightarrow> (Inl (StoreErr ReadFailed), fs)
         | Some f \<Rightarrow>
             if f_data f = unwrap_or (et_original et) [] then (Inr EditUnchanged, fs)
             else with_lock io p fs (\<lambda>fs.
               case read_optional io p fs of
                 Inl e \<Rightarrow> (Inl e, fs)
               | Inr now \<Rightarrow>
                   if now \<noteq> et_original et then
                     (let (sidecar, fs') = keep_rejected io p (f_data f) fs
                      in (Inr (EditRejected Conflict sidecar), fs'))
                   else
                     (case and_then (parse_doc lib (f_data f)) (\<lambda>doc.
                             let stripped = strip_retired_fields doc
                             in and_then (validate_role_doc lib (et_role et) (tl_render lib stripped)) (\<lambda>_.
                                  Inr stripped)) of
                        Inr doc \<Rightarrow> write_checked io p (tl_render lib doc) EditSaved fs
                      | Inl _ \<Rightarrow>
                          (let (sidecar, fs') = keep_rejected io p (f_data f) fs
                           in (Inr (EditRejected Invalid sidecar), fs')))))"

section \<open>What an operation does to the file\<close>

text \<open>\<open>kept_or_valid\<close>: the file at \<open>p\<close> is what it was, or a new text that the role loads.\<close>

definition kept_or_valid :: "toml_lib \<Rightarrow> role \<Rightarrow> path \<Rightarrow> fs \<Rightarrow> fs \<Rightarrow> bool" where
  "kept_or_valid lib role p fs fs' \<longleftrightarrow> fs' p = fs p \<or> (\<exists>text. fs' p = Some (stored text) \<and> loads lib role text)"

lemma sibling_ne [simp]: "sibling p s = p \<longleftrightarrow> s = []" "p = sibling p s \<longleftrightarrow> s = []"
  by (auto simp: sibling_def)

lemma tmp_sibling_ne [simp]: "tmp_path io (sibling p s) \<noteq> p" "p \<noteq> tmp_path io (sibling p s)"
  by (simp_all add: tmp_path_def sibling_def)

lemma write_file_cases:
  obtains "write_file io p s fs = (Inr (), fs(p \<mapsto> stored s))"
  | e fs' where "write_file io p s fs = (Inl e, fs')" and "\<forall>q. q \<noteq> tmp_path io p \<longrightarrow> fs' q = fs q"
proof (cases "write_file io p s fs")
  case (Pair r fs')
  with that write_file_ok [of io p s fs fs'] write_file_err [of io p s fs _ fs'] show thesis
    by (cases r) auto
qed

lemma write_checked_cases:
  obtains "write_checked io p s v fs = (Inr v, fs(p \<mapsto> stored s))"
  | e fs' where "write_checked io p s v fs = (Inl (StoreErr e), fs')" and "\<forall>q. q \<noteq> tmp_path io p \<longrightarrow> fs' q = fs q"
  by (rule write_file_cases [of io p s fs]) (auto simp: write_checked_def intro: that)

lemma with_lock_cases:
  obtains e fs1 where "with_lock io p fs body = (Inl (StoreErr e), fs1)" and "\<forall>q. q \<noteq> sibling p ''.lock'' \<longrightarrow> fs1 q = fs q"
  | fs1 where "with_lock io p fs body = body fs1" and "\<forall>q. q \<noteq> sibling p ''.lock'' \<longrightarrow> fs1 q = fs q"
  by (cases "lock_acquire io") (auto simp: with_lock_def Let_def intro: that)

lemma with_lock_rule:
  assumes "\<And>e fs1. fs1 p = fs p \<Longrightarrow> P (Inl (StoreErr e), fs1)" and "\<And>fs1. fs1 p = fs p \<Longrightarrow> P (body fs1)"
  shows "P (with_lock io p fs body)"
  by (rule with_lock_cases [of io p fs body]) (simp_all add: assms)

lemma write_checked_rule:
  assumes "P (Inr v, fs(p \<mapsto> stored s))" and "\<And>e fs'. fs' p = fs p \<Longrightarrow> P (Inl (StoreErr e), fs')"
  shows "P (write_checked io p s v fs)"
  by (rule write_checked_cases [of io p s v fs]) (simp_all add: assms)

lemma with_lock_kept:
  assumes "\<And>fs1. fs1 p = fs p \<Longrightarrow> kept_or_valid lib role p fs1 (snd (body fs1))"
  shows "kept_or_valid lib role p fs (snd (with_lock io p fs body))"
proof (rule with_lock_cases [of io p fs body])
  fix e fs1 assume "with_lock io p fs body = (Inl (StoreErr e), fs1)" "\<forall>q. q \<noteq> sibling p ''.lock'' \<longrightarrow> fs1 q = fs q"
  then show ?thesis by (simp add: kept_or_valid_def)
next
  fix fs1 assume "with_lock io p fs body = body fs1" "\<forall>q. q \<noteq> sibling p ''.lock'' \<longrightarrow> fs1 q = fs q"
  with assms [of fs1] show ?thesis by (simp add: kept_or_valid_def)
qed

lemma write_checked_kept:
  "loads lib role text \<Longrightarrow> kept_or_valid lib role p fs (snd (write_checked io p text v fs))"
  by (rule write_checked_cases [of io p "text" v fs]) (auto simp: kept_or_valid_def)

lemma kept_refl [simp]: "kept_or_valid lib role p fs fs"
  by (simp add: kept_or_valid_def)

lemma keep_rejected_kept: "snd (keep_rejected io p s fs) p = fs p"
  by (rule write_file_cases [of io "sibling p ''.rejected''" s fs]) (auto simp: keep_rejected_def Let_def)

lemma mutate_kept: "kept_or_valid lib role p fs (snd (mutate_deciding lib io role p change fs))"
  unfolding mutate_deciding_def
proof (rule with_lock_kept)
  fix fs1 :: fs
  show "kept_or_valid lib role p fs1 (snd
      (case and_then (read_optional io p fs1) (\<lambda>t. and_then (parse_doc lib (unwrap_or t [])) (\<lambda>doc. map_err DocErr (change doc))) of
         Inl e \<Rightarrow> (Inl e, fs1)
       | Inr (Keep value, _) \<Rightarrow> (Inr value, fs1)
       | Inr (Apply value, doc) \<Rightarrow>
           (let rendered = tl_render lib (strip_retired_fields doc)
            in case validate_role_doc lib role rendered of
                 Inl e \<Rightarrow> (Inl e, fs1)
               | Inr _ \<Rightarrow> write_checked io p rendered value fs1)))"
    by (auto simp: Let_def loads_def write_checked_kept split: sum.split prod.split edit.split)
qed

lemma persist_kept: "kept_or_valid lib role p fs (snd (persist_generated_key lib kl io role p key fs))"
  unfolding persist_generated_key_def
  by (rule with_lock_kept)
    (auto simp: Let_def loads_def write_checked_kept split: sum.split prod.split option.split)

lemma commit_kept:
  assumes "et_scratch et \<noteq> et_path et"
  shows "kept_or_valid lib (et_role et) (et_path et) fs (snd (edit_commit lib io et fs))"
proof (cases "fs (et_scratch et)")
  case None
  with assms show ?thesis by (simp add: edit_commit_def Let_def kept_or_valid_def)
next
  case (Some f)
  let ?fs0 = "fs(et_scratch et := None)"
  have "kept_or_valid lib (et_role et) (et_path et) ?fs0 (snd (edit_commit lib io et fs))"
    unfolding edit_commit_def Let_def Some option.case
  proof (split if_split, intro conjI impI, simp, rule with_lock_kept)
    fix fs1 :: fs
    show "kept_or_valid lib (et_role et) (et_path et) fs1 (snd
        (case read_optional io (et_path et) fs1 of
           Inl e \<Rightarrow> (Inl e, fs1)
         | Inr now \<Rightarrow>
             if now \<noteq> et_original et then
               case keep_rejected io (et_path et) (f_data f) fs1 of
                 (sidecar, fs') \<Rightarrow> (Inr (EditRejected Conflict sidecar), fs')
             else case and_then (parse_doc lib (f_data f)) (\<lambda>doc.
                     and_then (validate_role_doc lib (et_role et) (tl_render lib (strip_retired_fields doc))) (\<lambda>_.
                       Inr (strip_retired_fields doc))) of
                 Inl _ \<Rightarrow> (case keep_rejected io (et_path et) (f_data f) fs1 of
                     (sidecar, fs') \<Rightarrow> (Inr (EditRejected Invalid sidecar), fs'))
               | Inr doc \<Rightarrow> write_checked io (et_path et) (tl_render lib doc) EditSaved fs1))"
    proof -
      have "kept_or_valid lib (et_role et) (et_path et) fs1 (snd (keep_rejected io (et_path et) (f_data f) fs1))"
        by (simp add: kept_or_valid_def keep_rejected_kept)
      then show ?thesis
        by (cases "keep_rejected io (et_path et) (f_data f) fs1")
          (auto simp: loads_def write_checked_kept split: sum.split)
    qed
  qed
  with assms show ?thesis by (simp add: kept_or_valid_def)
qed

section \<open>Properties\<close>

text \<open>The operations of all processes on the files around one configuration, and an editor at work on any
other file. The lock makes each an atomic step; attempts name the configuration they were made for.\<close>

datatype 'sk command =
    CmdSet set_request
  | CmdRemove string
  | CmdKeygen 'sk rotation_consent
  | CmdPersist 'sk
  | CmdPrepare nat
  | CmdCommit nat nat "string option"
  | CmdEditor path string

fun run_command :: "toml_lib \<Rightarrow> 'sk key_lib \<Rightarrow> role \<Rightarrow> path \<Rightarrow> io_env \<times> 'sk command \<Rightarrow> fs \<Rightarrow> fs" where
  "run_command lib kl role p (io, CmdSet req) fs = snd (set_service lib io role p req fs)"
| "run_command lib kl role p (io, CmdRemove name) fs = snd (remove_service lib io role p name fs)"
| "run_command lib kl role p (io, CmdKeygen key consent) fs = snd (keygen lib kl io role p key consent fs)"
| "run_command lib kl role p (io, CmdPersist key) fs = snd (persist_generated_key lib kl io role p key fs)"
| "run_command lib kl role p (io, CmdPrepare n) fs = snd (prepare_edit io n role p fs)"
| "run_command lib kl role p (io, CmdCommit pid n original) fs =
     snd (edit_commit lib io \<lparr>et_role = role, et_path = p, et_scratch = scratch_path pid n p, et_original = original\<rparr> fs)"
| "run_command lib kl role p (io, CmdEditor q s) fs = (if q = p then fs else fs(q \<mapsto> stored s))"

definition absent_or_loads :: "toml_lib \<Rightarrow> role \<Rightarrow> path \<Rightarrow> fs \<Rightarrow> bool" where
  "absent_or_loads lib role p fs \<longleftrightarrow> (case fs p of None \<Rightarrow> True | Some f \<Rightarrow> loads lib role (f_data f))"

lemma scratch_path_ne [simp]: "scratch_path pid n p \<noteq> p"
  by (simp add: scratch_path_def)

lemma write_scratch: "snd (write_checked io (scratch_path pid n p) s v fs) p = fs p"
  by (rule write_checked_cases [of io "scratch_path pid n p" s v fs]) (simp_all add: scratch_path_def)

lemma run_command_kept: "kept_or_valid lib role p fs (run_command lib kl role p (io, cmd) fs)"
proof (cases cmd)
  case (CmdRemove name)
  then show ?thesis by (auto simp: remove_service_def mutate_kept split: sum.split)
next
  case (CmdPrepare n)
  then show ?thesis
    by (simp add: prepare_edit_def kept_or_valid_def Let_def write_scratch split: sum.split)
next
  case (CmdCommit pid n original)
  then show ?thesis
    using commit_kept [of "\<lparr>et_role = role, et_path = p, et_scratch = scratch_path pid n p, et_original = original\<rparr>" lib fs io]
    by simp
next
  case (CmdEditor q s)
  then show ?thesis by (simp add: kept_or_valid_def)
qed (simp_all add: set_service_def keygen_def mutate_kept persist_kept)

text \<open>C18: a configuration never becomes invalid through the program. Whatever commands any number of
processes run on it, in any order and with any failures of the system, racing key generation and edits with a
text editor included, a configuration that is absent or loads stays absent or loads.\<close>

theorem config_stays_valid:
  assumes "absent_or_loads lib role p fs"
  shows "absent_or_loads lib role p (fold (run_command lib kl role p) cmds fs)"
  using assms
proof (induction cmds arbitrary: fs)
  case (Cons c cmds)
  obtain io cmd where c: "c = (io, cmd)" by (cases c)
  have "absent_or_loads lib role p (run_command lib kl role p (io, cmd) fs)"
    using run_command_kept [of lib role p fs kl io cmd] Cons.prems
    by (auto simp: kept_or_valid_def absent_or_loads_def)
  from Cons.IH [OF this] show ?case by (simp add: c)
qed simp

lemma mutate_exact:
  "case mutate_deciding lib io role p change fs of
     (Inl e, fs') \<Rightarrow> fs' p = fs p
   | (Inr v, fs') \<Rightarrow>
       (\<exists>doc edit doc'. tl_parse lib (unwrap_or (map_option f_data (fs p)) []) = Some doc \<and> change doc = Inr (edit, doc') \<and>
          (edit = Keep v \<and> fs' p = fs p \<or>
           edit = Apply v \<and> fs' p = Some (stored (tl_render lib (strip_retired_fields doc'))) \<and>
             loads lib role (tl_render lib (strip_retired_fields doc'))))"
  unfolding mutate_deciding_def
proof (rule with_lock_rule [where p = p and fs = fs], simp)
  fix fs1 :: fs
  assume same: "fs1 p = fs p"
  let ?text = "unwrap_or (map_option f_data (fs p)) []"
  have read: "read_optional io p fs1 = Inr t \<Longrightarrow> t = map_option f_data (fs p)" for t
    by (simp add: read_optional_def same split: if_splits)
  let ?r = "and_then (read_optional io p fs1) (\<lambda>t. and_then (parse_doc lib (unwrap_or t [])) (\<lambda>doc. map_err DocErr (change doc)))"
  show "case (case ?r of
         Inl e \<Rightarrow> (Inl e, fs1)
       | Inr (Keep value, _) \<Rightarrow> (Inr value, fs1)
       | Inr (Apply value, doc) \<Rightarrow>
           (let rendered = tl_render lib (strip_retired_fields doc)
            in case validate_role_doc lib role rendered of
                 Inl e \<Rightarrow> (Inl e, fs1)
               | Inr _ \<Rightarrow> write_checked io p rendered value fs1)) of
     (Inl e, fs') \<Rightarrow> fs' p = fs p
   | (Inr v, fs') \<Rightarrow>
       (\<exists>doc edit doc'. tl_parse lib ?text = Some doc \<and> change doc = Inr (edit, doc') \<and>
          (edit = Keep v \<and> fs' p = fs p \<or>
           edit = Apply v \<and> fs' p = Some (stored (tl_render lib (strip_retired_fields doc'))) \<and>
             loads lib role (tl_render lib (strip_retired_fields doc'))))"
  proof (cases ?r)
    case (Inl e)
    with same show ?thesis by simp
  next
    case (Inr res)
    obtain edit doc' where res: "res = (edit, doc')" by (cases res)
    from Inr obtain doc where doc: "tl_parse lib ?text = Some doc" and change: "change doc = Inr (edit, doc')"
      by (auto simp: res parse_doc_def dest!: read split: option.splits)
    show ?thesis
    proof (cases edit)
      case (Keep v)
      show ?thesis
        unfolding Inr res Keep sum.case prod.case edit.case
        using same doc change by (simp add: Keep)
    next
      case (Apply v)
      let ?new = "tl_render lib (strip_retired_fields doc')"
      show ?thesis
      proof (cases "validate_role_doc lib role ?new")
        case (Inl e)
        show ?thesis
          unfolding Inr res Apply Let_def Inl sum.case prod.case edit.case
          by (simp add: same)
      next
        case valid: (Inr u)
        show ?thesis
          unfolding Inr res Apply Let_def valid sum.case prod.case edit.case
          by (rule write_checked_rule) (use same doc change valid in \<open>simp_all add: Apply loads_def\<close>)
      qed
    qed
  qed
qed

text \<open>A mutation is exact. When it fails or decides to keep the document the file is as it was; when it
applies a change, the file holds the rendered changed document without retired fields, owner only, and the role
loads it.\<close>

theorem mutation_exact:
  "case mutate_deciding lib io role p change fs of
     (Inl e, fs') \<Rightarrow> fs' p = fs p
   | (Inr v, fs') \<Rightarrow>
       (\<exists>doc edit doc'. tl_parse lib (unwrap_or (map_option f_data (fs p)) []) = Some doc \<and> change doc = Inr (edit, doc') \<and>
          (edit = Keep v \<and> fs' p = fs p \<or>
           edit = Apply v \<and> fs' p = Some (stored (tl_render lib (strip_retired_fields doc'))) \<and>
             loads lib role (tl_render lib (strip_retired_fields doc'))))"
  by (rule mutate_exact)

section \<open>Keys\<close>

definition file_doc :: "toml_lib \<Rightarrow> path \<Rightarrow> fs \<Rightarrow> tbl option" where
  "file_doc lib p fs = tl_parse lib (unwrap_or (map_option f_data (fs p)) [])"

definition file_key :: "toml_lib \<Rightarrow> path \<Rightarrow> fs \<Rightarrow> string option" where
  "file_key lib p fs = Option.bind (file_doc lib p fs) existing_secret_key"

text \<open>What \<open>toml_edit\<close> promises of a document it parsed and that was given a key: its text parses to a
document with that key.\<close>

definition key_reads_back :: "toml_lib \<Rightarrow> bool" where
  "key_reads_back lib \<longleftrightarrow>
     (\<forall>text doc doc' key.
        tl_parse lib text = Some doc \<longrightarrow> ensure_node_table doc = Inr doc' \<longrightarrow> key \<noteq> [] \<longrightarrow>
        Option.bind (tl_parse lib (tl_render lib (strip_retired_fields (set_node_key key doc')))) existing_secret_key
          = Some key)"

lemma file_doc_cong: "fs1 p = fs p \<Longrightarrow> file_doc lib p fs1 = file_doc lib p fs"
  by (simp add: file_doc_def)

lemma persist_spec:
  assumes "key_reads_back lib" and "key_lib_ok kl"
  shows "case persist_generated_key lib kl io role p key fs of
     (Inl e, fs') \<Rightarrow> fs' p = fs p
   | (Inr k, fs') \<Rightarrow> file_key lib p fs' = Some k \<and>
       (case file_key lib p fs of Some k0 \<Rightarrow> k = k0 | None \<Rightarrow> k = encode_secret_key kl key)"
  unfolding persist_generated_key_def
proof (rule with_lock_rule [where p = p and fs = fs], simp)
  fix fs1 :: fs
  assume same: "fs1 p = fs p"
  let ?key = "encode_secret_key kl key"
  let ?read = "and_then (read_optional io p fs1) (\<lambda>t. parse_doc lib (unwrap_or t []))"
  show "case (case ?read of
         Inl e \<Rightarrow> (Inl e, fs1)
       | Inr doc \<Rightarrow>
           (case existing_secret_key doc of
              Some existing \<Rightarrow>
                (case resolve_secret_key kl key existing of
                   Inl e \<Rightarrow> (Inl (KeyErr e), fs1)
                 | Inr _ \<Rightarrow> (Inr existing, fs1))
            | None \<Rightarrow>
                (case ensure_node_table doc of
                   Inl e \<Rightarrow> (Inl (DocErr e), fs1)
                 | Inr doc \<Rightarrow>
                     (let encoded = encode_secret_key kl key;
                          text = tl_render lib (strip_retired_fields (set_node_key encoded doc))
                      in case validate_role_doc lib role text of
                           Inl e \<Rightarrow> (Inl e, fs1)
                         | Inr _ \<Rightarrow> write_checked io p text encoded fs1)))) of
     (Inl e, fs') \<Rightarrow> fs' p = fs p
   | (Inr k, fs') \<Rightarrow> file_key lib p fs' = Some k \<and>
       (case file_key lib p fs of Some k0 \<Rightarrow> k = k0 | None \<Rightarrow> k = ?key)"
  proof (cases ?read)
    case (Inl e)
    then show ?thesis by (simp only: sum.case prod.case same)
  next
    case (Inr doc)
    then have doc: "file_doc lib p fs = Some doc"
      by (auto simp: read_optional_def parse_doc_def file_doc_def same split: if_splits option.splits)
    have doc1: "file_doc lib p fs1 = Some doc" using doc by (simp add: file_doc_def same)
    show ?thesis
    proof (cases "existing_secret_key doc")
      case (Some k)
      then show ?thesis
        unfolding Inr sum.case option.case
        by (simp add: Some file_key_def doc1 doc same split: sum.split)
    next
      case None
      show ?thesis
      proof (cases "ensure_node_table doc")
        case (Inl e)
        show ?thesis
          unfolding \<open>?read = Inr doc\<close> None Inl sum.case option.case by (simp add: same)
      next
        case node: (Inr doc')
        let ?text = "tl_render lib (strip_retired_fields (set_node_key ?key doc'))"
        have reread: "Option.bind (tl_parse lib ?text) existing_secret_key = Some ?key"
          using assms doc node encoded_ne [OF assms(2)] by (auto simp: key_reads_back_def file_doc_def)
        show ?thesis
        proof (cases "validate_role_doc lib role ?text")
          case (Inl e)
          show ?thesis
            unfolding \<open>?read = Inr doc\<close> None node Let_def Inl sum.case option.case by (simp add: same)
        next
          case valid: (Inr u)
          show ?thesis
            unfolding \<open>?read = Inr doc\<close> None node Let_def valid sum.case option.case
            by (rule write_checked_rule)
              (use doc in \<open>simp_all add: same file_key_def None file_doc_def reread\<close>)
        qed
      qed
    qed
  qed
qed

text \<open>Several starts with an empty key, one after another under the lock.\<close>

fun run_starts :: "toml_lib \<Rightarrow> 'sk key_lib \<Rightarrow> role \<Rightarrow> path \<Rightarrow> (io_env \<times> 'sk) list \<Rightarrow> fs \<Rightarrow> (cfg_error + string) list" where
  "run_starts lib kl role p [] fs = []"
| "run_starts lib kl role p ((io, key) # starts) fs =
     (let (r, fs') = persist_generated_key lib kl io role p key fs
      in r # run_starts lib kl role p starts fs')"

lemma starts_after_key:
  assumes "key_reads_back lib" and "key_lib_ok kl"
  shows "file_key lib p fs = Some k \<Longrightarrow> Inr a \<in> set (run_starts lib kl role p starts fs) \<Longrightarrow> a = k"
proof (induction starts arbitrary: fs)
  case (Cons s starts)
  obtain io key where s: "s = (io, key)" by (cases s)
  obtain r fs' where r: "persist_generated_key lib kl io role p key fs = (r, fs')" by fastforce
  note spec = persist_spec [OF assms, where io = io and role = role and p = p and key = key and fs = fs, unfolded r]
  have after: "file_key lib p fs' = Some k"
  proof (cases r)
    case (Inl e)
    with spec have "fs' p = fs p" by simp
    with Cons.prems(1) show ?thesis by (simp add: file_key_def file_doc_def)
  next
    case (Inr b)
    with spec Cons.prems(1) show ?thesis by simp
  qed
  have "b = k" if "r = Inr b" for b using spec Cons.prems(1) that by simp
  with Cons.IH [OF after] Cons.prems(2) show ?case by (auto simp: s r)
qed simp

text \<open>C19: racing first starts agree on the identity. However many processes start the role on one
configuration without a key, each with its own fresh key, all that get a key get the same one.\<close>

theorem racing_starts_agree:
  assumes "key_reads_back lib" and "key_lib_ok kl"
    and "Inr a \<in> set (run_starts lib kl role p starts fs)" and "Inr b \<in> set (run_starts lib kl role p starts fs)"
  shows "a = b"
  using assms(3,4)
proof (induction starts arbitrary: fs)
  case (Cons s starts)
  obtain io key where s: "s = (io, key)" by (cases s)
  obtain r fs' where r: "persist_generated_key lib kl io role p key fs = (r, fs')" by fastforce
  note spec = persist_spec [OF assms(1,2), where io = io and role = role and p = p and key = key and fs = fs, unfolded r]
  show ?case
  proof (cases r)
    case (Inl e)
    with Cons show ?thesis by (simp add: s r)
  next
    case (Inr k)
    with spec have "file_key lib p fs' = Some k" by simp
    then have later: "c = k" if "Inr c \<in> set (run_starts lib kl role p starts fs')" for c
      using starts_after_key [OF assms(1,2)] that by blast
    have "c = k" if "Inr c \<in> set (run_starts lib kl role p (s # starts) fs)" for c
      using that later by (auto simp: s r Inr)
    with Cons.prems show ?thesis by blast
  qed
qed simp

text \<open>A key is replaced only with consent. Key generation asks for consent exactly when the file has a key
and none was given, and then leaves the file alone, naming the current identity; a generated key is reported by its
own identity, as rotated exactly when it replaced one, and is the key the file then has. A failure leaves the file
alone.\<close>

theorem keygen_consent:
  assumes "key_reads_back lib" and "key_lib_ok kl"
  shows "case keygen lib kl io role p key consent fs of
     (Inl e, fs') \<Rightarrow> fs' p = fs p
   | (Inr (ConsentNeeded current), fs') \<Rightarrow>
       fs' p = fs p \<and> consent = NotGiven \<and>
       (\<exists>s. file_key lib p fs = Some s \<and>
          current = (case resolve_secret_key kl key s of Inl _ \<Rightarrow> None | Inr (k, _) \<Rightarrow> Some (kl_public kl k)))
   | (Inr (Generated node_id rotated), fs') \<Rightarrow>
       file_key lib p fs' = Some (encode_secret_key kl key) \<and> node_id = kl_public kl key \<and>
       (rotated \<longleftrightarrow> file_key lib p fs \<noteq> None) \<and> (rotated \<longrightarrow> consent = Given)"
proof -
  note exact = mutate_exact [where lib = lib and io = io and role = role and p = p and fs = fs
      and change = "keygen_change kl key consent"]
  obtain r fs' where r: "keygen lib kl io role p key consent fs = (r, fs')" by fastforce
  show ?thesis
  proof (cases r)
    case (Inl e)
    with exact r show ?thesis by (simp add: keygen_def)
  next
    case (Inr v)
    with exact r obtain doc edit doc' where doc: "file_doc lib p fs = Some doc"
      and change: "keygen_change kl key consent doc = Inr (edit, doc')"
      and eff: "edit = Keep v \<and> fs' p = fs p \<or>
        edit = Apply v \<and> fs' p = Some (stored (tl_render lib (strip_retired_fields doc')))"
      by (auto simp: keygen_def file_doc_def)
    show ?thesis
    proof (cases "existing_secret_key doc \<noteq> None \<and> consent = NotGiven")
      case True
      then obtain s where s: "existing_secret_key doc = Some s" and c: "consent = NotGiven" by auto
      with change have "edit = Keep (ConsentNeeded
          (case resolve_secret_key kl key s of Inl _ \<Rightarrow> None | Inr (k, _) \<Rightarrow> Some (kl_public kl k)))"
        by (simp add: keygen_change_def)
      with eff s c doc show ?thesis unfolding r Inr prod.case sum.case by (auto simp: file_key_def)
    next
      case False
      with change obtain doc1 where node: "ensure_node_table doc = Inr doc1"
        and edit: "edit = Apply (Generated (kl_public kl key) (existing_secret_key doc \<noteq> None))"
        and doc': "doc' = set_node_key (encode_secret_key kl key) doc1"
        by (auto simp: keygen_change_def Let_def)
      have reread: "Option.bind (tl_parse lib (tl_render lib (strip_retired_fields doc'))) existing_secret_key
          = Some (encode_secret_key kl key)"
        using assms doc node encoded_ne [OF assms(2)] by (auto simp: key_reads_back_def file_doc_def doc')
      have "consent = Given" if "existing_secret_key doc \<noteq> None" using False that by (cases consent) auto
      with eff edit reread doc show ?thesis
        by (auto simp: r Inr file_key_def file_doc_def)
    qed
  qed
qed

section \<open>The whole command\<close>

text \<open>What the two crates promise together: a document that decodes is what the deserializer reads from its
text, before and after an edit of a service.\<close>

definition serve_text_agrees :: "toml_lib \<Rightarrow> set_request \<Rightarrow> bool" where
  "serve_text_agrees lib req \<longleftrightarrow>
     (\<forall>text doc cfg. tl_parse lib text = Some doc \<longrightarrow> decode_serve doc = Some cfg \<longrightarrow> tl_serve lib text = Some cfg) \<and>
     (\<forall>text doc edit doc' cfg.
        tl_parse lib text = Some doc \<longrightarrow> set_change Serve req doc = Inr (edit, doc') \<longrightarrow>
        decode_serve (strip_retired_fields doc') = Some cfg \<longrightarrow>
        tl_serve lib (tl_render lib (strip_retired_fields doc')) = Some cfg)"


section \<open>Committing an edit\<close>

lemma keep_rejected_cases:
  obtains "keep_rejected io p s fs = (Some (sibling p ''.rejected''), fs(sibling p ''.rejected'' \<mapsto> stored s))"
  | fs' where "keep_rejected io p s fs = (None, fs')" and "fs' p = fs p"
  by (rule write_file_cases [of io "sibling p ''.rejected''" s fs]) (auto simp: keep_rejected_def Let_def intro: that)


section \<open>Witnesses\<close>

text \<open>A TOML library whose documents are a node key or nothing, and a system on which nothing fails.\<close>

definition key_doc :: "string \<Rightarrow> tbl" where
  "key_doc k = Tbl [] [(''node'', [], Tab (Tbl [] [(''secret_key'', [], str_value k)]))]"

definition demo_parse :: "string \<Rightarrow> tbl option" where
  "demo_parse s = Some (case s of [] \<Rightarrow> tbl_new | _ # k \<Rightarrow> key_doc k)"

definition demo_toml :: toml_lib where
  "demo_toml =
     \<lparr>tl_parse = demo_parse,
       tl_render = (\<lambda>d. case existing_secret_key d of Some k \<Rightarrow> CHR ''k'' # k | None \<Rightarrow> []),
       tl_serve = (\<lambda>s. Option.bind (demo_parse s) decode_serve),
       tl_access = (\<lambda>s. Option.bind (demo_parse s) decode_access)\<rparr>"

definition calm :: io_env where
  "calm =
     \<lparr>io_lock_tries = (\<lambda>_. 0), io_lock_delay = (\<lambda>_. 0), io_lock_opens = True, io_reads = True, io_creates = True,
       io_write_stops = None, io_syncs = True, io_renames = True, io_pid = 1, io_stamp = 1\<rparr>"

lemma existing_strip [simp]: "existing_secret_key (strip_retired_fields doc) = existing_secret_key doc"
  by (simp add: existing_secret_key_def strip_retired_fields_def split: option.split)

lemma demo_reads_back: "key_reads_back demo_toml"
  by (auto simp: key_reads_back_def demo_toml_def set_node_key_table(3))
    (simp add: demo_parse_def key_doc_def existing_secret_key_def)

lemma calm_lock: "lock_acquire calm = Inr ()"
  by (simp add: lock_acquire_def calm_def acquire_loop.simps)

lemma calm_write: "write_file calm p s fs = (Inr (), fs(p \<mapsto> stored s))"
  if "fs (tmp_path calm p) = None" and "\<forall>f. fs p = Some f \<longrightarrow> \<not> f_readonly f"
  using that
  by (auto simp: write_file_def write_atomic_def run_ops_def Let_def private_file_def stored_def fun_eq_iff calm_def
      split: option.splits)

abbreviation no_files :: fs where
  "no_files \<equiv> (\<lambda>_. None)"

lemma demo_loads: "validate_role_doc demo_toml Serve (CHR ''k'' # k) = Inr ()"
proof -
  have "decode_serve (key_doc k) = Some \<lparr>sc_node = node_config_default\<lparr>nc_secret_key := k\<rparr>, sc_services = []\<rparr>"
    by (simp add: key_doc_def decode_serve_def decode_node_table_def decode_services_def decode_node_def defaulted_def
        optional_def str_value_def node_config_default_def)
  then show ?thesis
    by (simp add: validate_role_doc_def demo_toml_def demo_parse_def serve_validate_iff serve_config_ok_def node_ok_def
        https_ok_def node_config_default_def)
qed

lemma demo_parse_nil: "demo_parse [] = Some tbl_new"
  by (simp add: demo_parse_def)

lemma demo_first_start:
  "persist_generated_key demo_toml demo_keys calm Serve ''c'' key no_files =
     (Inr (encode_secret_key demo_keys key),
      no_files(sibling ''c'' ''.lock'' \<mapsto> private_file, ''c'' \<mapsto> stored (CHR ''k'' # encode_secret_key demo_keys key)))"
proof -
  let ?fs = "no_files(sibling ''c'' ''.lock'' \<mapsto> private_file)"
  let ?k = "encode_secret_key demo_keys key"
  have node: "ensure_node_table tbl_new = Inr (tset ''node'' (Tab tbl_new) tbl_new)"
    by (simp add: ensure_node_table_def)
  have key: "existing_secret_key (set_node_key ?k (tset ''node'' (Tab tbl_new) tbl_new)) = Some ?k"
    by (rule set_node_key_table(3) [OF node encoded_ne [OF demo_keys_ok]])
  have tmp: "tmp_path calm ''c'' \<noteq> sibling ''c'' ''.lock''"
    by (simp add: tmp_path_def sibling_def calm_def nat_str.simps digit_char_def)
  have "write_file calm ''c'' (CHR ''k'' # ?k) ?fs = (Inr (), ?fs(''c'' \<mapsto> stored (CHR ''k'' # ?k)))"
    by (rule calm_write) (use tmp in \<open>simp_all add: sibling_def\<close>)
  then show ?thesis
    by (simp add: persist_generated_key_def with_lock_def Let_def calm_lock read_optional_def parse_doc_def demo_toml_def
        demo_parse_nil node key sibling_def existing_secret_key_def [of tbl_new] write_checked_def
        demo_loads [unfolded demo_toml_def] calm_def [THEN arg_cong [of _ _ io_lock_opens]]
        calm_def [THEN arg_cong [of _ _ io_reads]])
qed

lemma demo_second_start:
  assumes "fs ''c'' = Some (stored (CHR ''k'' # encode_secret_key demo_keys b))"
  shows "fst (persist_generated_key demo_toml demo_keys calm Serve ''c'' key fs) = Inr (encode_secret_key demo_keys b)"
proof -
  let ?k = "encode_secret_key demo_keys b"
  have "existing_secret_key (key_doc ?k) = Some ?k"
    by (simp add: key_doc_def existing_secret_key_def encoded_ne [OF demo_keys_ok])
  then show ?thesis
    using assms resolve_encoded [OF demo_keys_ok, of key b]
    by (simp add: persist_generated_key_def with_lock_def Let_def calm_lock read_optional_def parse_doc_def demo_toml_def
        demo_parse_def sibling_def calm_def [THEN arg_cong [of _ _ io_reads]])
qed

lemma racing_starts_agree_witness:
  "\<exists>a b. run_starts demo_toml demo_keys Serve ''c'' [(calm, True), (calm, False)] no_files = [Inr a, Inr b] \<and> a = b"
proof -
  obtain fs1 where first: "persist_generated_key demo_toml demo_keys calm Serve ''c'' True no_files =
      (Inr (encode_secret_key demo_keys True), fs1)"
    and content: "fs1 ''c'' = Some (stored (CHR ''k'' # encode_secret_key demo_keys True))"
    using demo_first_start [of True] by (auto simp: sibling_def)
  obtain fs2 b where "persist_generated_key demo_toml demo_keys calm Serve ''c'' False fs1 = (Inr b, fs2)"
    using demo_second_start [of fs1 True False, OF content] by (metis prod.collapse)
  then have run: "run_starts demo_toml demo_keys Serve ''c'' [(calm, True), (calm, False)] no_files =
      [Inr (encode_secret_key demo_keys True), Inr b]"
    using first by simp
  have "encode_secret_key demo_keys True = b"
    by (rule racing_starts_agree [OF demo_reads_back demo_keys_ok, where role = Serve and p = "''c''" and fs = no_files
        and starts = "[(calm, True), (calm, False)]"]) (simp_all only: run list.set insert_iff simp_thms)
  with run show ?thesis by blast
qed

lemma keygen_consent_witness:
  "case keygen demo_toml demo_keys calm Serve ''c'' True NotGiven no_files of
     (Inr (Generated node_id rotated), fs') \<Rightarrow> node_id = ''one'' \<and> \<not> rotated
   | (Inr (ConsentNeeded current), fs') \<Rightarrow> False
   | (Inl e, fs') \<Rightarrow> fs' ''c'' = None"
proof -
  have "file_key demo_toml ''c'' no_files = None"
    by (simp add: file_key_def file_doc_def demo_toml_def demo_parse_nil existing_secret_key_def)
  note none = this
  obtain r fs' where r: "keygen demo_toml demo_keys calm Serve ''c'' True NotGiven no_files = (r, fs')" by fastforce
  note exact = keygen_consent [OF demo_reads_back demo_keys_ok, where io = calm and role = Serve and p = "''c''"
      and key = True and consent = NotGiven and fs = no_files, unfolded r none]
  have pub: "kl_public demo_keys True = ''one''" by (simp add: demo_keys_def)
  show ?thesis
  proof (cases r)
    case (Inr v)
    with exact pub show ?thesis unfolding r by (cases v) simp_all
  qed (use exact r in simp)
qed

lemma config_stays_valid_witness:
  "absent_or_loads demo_toml Serve ''c''
     (fold (run_command demo_toml demo_keys Serve ''c'')
        [(calm, CmdPersist True), (calm, CmdSet demo_set), (calm, CmdEditor ''c.edit'' ''x'')] no_files)"
  by (rule config_stays_valid) (simp add: absent_or_loads_def)

definition demo_attempt :: edit_attempt where
  "demo_attempt = \<lparr>et_role = Serve, et_path = ''c'', et_scratch = ''c.edit'', et_original = None\<rparr>"


text \<open>A library that knows one document and its one edit.\<close>

definition demo_edited :: tbl where
  "demo_edited = (case set_change Serve demo_set demo_doc of Inr (_, d) \<Rightarrow> strip_retired_fields d | Inl _ \<Rightarrow> demo_doc)"

definition edit_toml :: toml_lib where
  "edit_toml =
     \<lparr>tl_parse = (\<lambda>s. if s = [] then Some demo_doc else None), tl_render = (\<lambda>_. ''x''),
       tl_serve = (\<lambda>s. decode_serve (if s = [] then demo_doc else demo_edited)), tl_access = (\<lambda>_. None)\<rparr>"

lemma edit_toml_agrees: "serve_text_agrees edit_toml demo_set"
  by (auto simp: serve_text_agrees_def edit_toml_def demo_edited_def split: if_splits)


end
