(* ===== verification/Ownership.thy ===== *)
theory Ownership
  imports ConfigDoc
begin

text \<open>
  Role ownership (\<open>crates/host/src/ownership.rs\<close>): kernel advisory locks in two tiers, the owner
  records next to them, claiming a role, publishing the identity and probing, as steps of
  processes that interleave, crash and start again.

  A process is an index; its process identifier is that index. A probe's own hold of a lock,
  which lasts microseconds, is the flag \<open>en_contended\<close> of the step it disturbs. A process that
  may create the machine lock file is \<open>elevated\<close>; \<open>machine_tier\<close> says whether the platform has
  that tier.
\<close>

section \<open>Kernel locks and records\<close>

datatype klock = Unlocked | LockedBy nat | SharedBy "nat list"

datatype lock_kind = ExclusiveLock | SharedLock

text \<open>\<open>File::try_lock\<close> and \<open>try_lock_shared\<close>: \<open>None\<close> is would-block.\<close>

fun try_lock :: "lock_kind \<Rightarrow> nat \<Rightarrow> klock \<Rightarrow> klock option" where
  "try_lock ExclusiveLock i Unlocked = Some (LockedBy i)"
| "try_lock SharedLock i Unlocked = Some (SharedBy [i])"
| "try_lock SharedLock i (SharedBy is) = Some (SharedBy (i # is))"
| "try_lock _ _ _ = None"

text \<open>The kernel drops a process's hold when its file is closed, also by its death.\<close>

fun unlock :: "nat \<Rightarrow> klock \<Rightarrow> klock" where
  "unlock i (LockedBy j) = (if j = i then Unlocked else LockedBy j)"
| "unlock i (SharedBy is) = (let rest = removeAll i is in if rest = [] then Unlocked else SharedBy rest)"
| "unlock i Unlocked = Unlocked"

record owner_record =
  ow_role :: role
  ow_pid :: nat
  ow_node_id :: "string option"

datatype tier = UserTier | MachineTier

datatype liveness = NotRunning | RunningAt tier "owner_record option"

fun other_role :: "role \<Rightarrow> role" where
  "other_role Serve = Access"
| "other_role Access = Serve"

lemma other_role_ne [simp]: "other_role r \<noteq> r" "r \<noteq> other_role r"
  by (cases r; simp)+

lemma other_other [simp]: "other_role (other_role r) = r"
  by (cases r) simp_all

section \<open>Messages\<close>

definition describe_owner :: "owner_record option \<Rightarrow> string" where
  "describe_owner ow =
     (case ow of
        None \<Rightarrow> ''owner unknown''
      | Some r \<Rightarrow> (case ow_node_id r of
                     Some n \<Rightarrow> ''pid '' @ nat_str (ow_pid r) @ '', node_id '' @ n
                   | None \<Rightarrow> ''pid '' @ nat_str (ow_pid r)))"

fun tier_label :: "tier \<Rightarrow> string" where
  "tier_label UserTier = ''this user''"
| "tier_label MachineTier = ''the system service or another machine-wide process''"

definition stop_hint_for :: "role \<Rightarrow> string \<Rightarrow> string" where
  "stop_hint_for role flag_suffix =
     ''stop it first (Ctrl+C for a foreground run, `iroh-tunnel '' @ role_name role @ '' service stop''
       @ flag_suffix @ ''` for a service); nothing is stopped automatically''"

definition already_running :: "role \<Rightarrow> string \<Rightarrow> owner_record option \<Rightarrow> string" where
  "already_running role scope ow =
     ''start refused: '' @ role_name role @ '' is already running ('' @ scope @ ''; '' @ describe_owner ow @ ''); ''
       @ stop_hint_for role []"

section \<open>Processes\<close>

datatype machine_claim = MachineExclusive | MachineShared | MachineAbsent

text \<open>Where a process is in \<open>claim\<close>, \<open>publish_identity\<close>, its run and the drop of its claim. The
probe phases carry the owner records read so far.\<close>

datatype phase =
    NotStarted
  | ClaimUser nat
  | ClaimMachine nat
  | RecordUser
  | RecordMachine
  | Claimed
  | PublishMachine
  | ProbeUser
  | ReadUser
  | ProbeMachine "owner_record option list"
  | ReadMachine "owner_record option list"
  | Decide "owner_record option list"
  | Up
  | DropUser
  | DropMachine
  | Closing
  | Gone

record proc =
  pr_user :: nat
  pr_role :: role
  pr_elevated :: bool
  pr_node :: string
  pr_phase :: phase
  pr_machine :: "machine_claim option"

record own_world =
  ow_user_lock :: "nat \<times> role \<Rightarrow> klock"
  ow_machine_file :: "role \<Rightarrow> bool"
  ow_machine_lock :: "role \<Rightarrow> klock"
  ow_user_record :: "nat \<times> role \<Rightarrow> owner_record option"
  ow_machine_record :: "role \<Rightarrow> owner_record option"
  ow_procs :: "proc list"

record own_env =
  en_contended :: bool
  en_writes :: bool

definition ATTEMPTS :: nat where
  "ATTEMPTS = 4"

abbreviation pkey :: "proc \<Rightarrow> nat \<times> role" where
  "pkey p \<equiv> (pr_user p, pr_role p)"

definition set_phase :: "nat \<Rightarrow> phase \<Rightarrow> own_world \<Rightarrow> own_world" where
  "set_phase i ph w = w\<lparr>ow_procs := (ow_procs w)[i := (ow_procs w ! i)\<lparr>pr_phase := ph\<rparr>]\<rparr>"

definition set_machine :: "nat \<Rightarrow> machine_claim \<Rightarrow> phase \<Rightarrow> own_world \<Rightarrow> own_world" where
  "set_machine i mc ph w =
     w\<lparr>ow_procs := (ow_procs w)[i := (ow_procs w ! i)\<lparr>pr_phase := ph, pr_machine := Some mc\<rparr>]\<rparr>"

definition own_record :: "nat \<Rightarrow> proc \<Rightarrow> string option \<Rightarrow> owner_record" where
  "own_record i p node = \<lparr>ow_role = pr_role p, ow_pid = i, ow_node_id = node\<rparr>"

text \<open>\<open>write_owner\<close> is best effort: a failed write leaves the record that was there.\<close>

definition write_owner :: "own_env \<Rightarrow> owner_record \<Rightarrow> owner_record option \<Rightarrow> owner_record option" where
  "write_owner en new old = (if en_writes en then Some new else old)"

definition drop_record :: "nat \<Rightarrow> owner_record option \<Rightarrow> owner_record option" where
  "drop_record i r = (case r of Some ow \<Rightarrow> if ow_pid ow = i then None else r | None \<Rightarrow> None)"

section \<open>Claiming\<close>

definition claim_user :: "bool \<Rightarrow> nat \<Rightarrow> own_env \<Rightarrow> nat \<Rightarrow> own_world \<Rightarrow> own_world" where
  "claim_user machine_tier i en n w =
     (let p = ow_procs w ! i
      in case (if en_contended en then None else try_lock ExclusiveLock i (ow_user_lock w (pkey p))) of
           Some l \<Rightarrow> set_phase i (if machine_tier then ClaimMachine 1 else RecordUser)
                       (w\<lparr>ow_user_lock := (ow_user_lock w)(pkey p := l)\<rparr>)
         | None \<Rightarrow> set_phase i (if n < ATTEMPTS then ClaimUser (Suc n) else Gone) w)"

text \<open>A refused machine claim returns the error, which drops the user lock taken before.\<close>

definition claim_machine :: "nat \<Rightarrow> own_env \<Rightarrow> nat \<Rightarrow> own_world \<Rightarrow> own_world" where
  "claim_machine i en n w =
     (let p = ow_procs w ! i; r = pr_role p
      in if pr_elevated p then
           (let w1 = w\<lparr>ow_machine_file := (ow_machine_file w)(r := True)\<rparr>
            in case (if en_contended en then None else try_lock ExclusiveLock i (ow_machine_lock w r)) of
                 Some l \<Rightarrow> set_machine i MachineExclusive RecordUser
                             (w1\<lparr>ow_machine_lock := (ow_machine_lock w)(r := l)\<rparr>)
               | None \<Rightarrow> set_phase i (if n < ATTEMPTS then ClaimMachine (Suc n) else Closing) w1)
         else if \<not> ow_machine_file w r then set_machine i MachineAbsent RecordUser w
         else case (if en_contended en then None else try_lock SharedLock i (ow_machine_lock w r)) of
                Some l \<Rightarrow> set_machine i MachineShared RecordUser
                            (w\<lparr>ow_machine_lock := (ow_machine_lock w)(r := l)\<rparr>)
              | None \<Rightarrow> set_phase i Closing w)"

definition put_user_record :: "nat \<Rightarrow> own_env \<Rightarrow> string option \<Rightarrow> phase \<Rightarrow> own_world \<Rightarrow> own_world" where
  "put_user_record i en node ph w =
     (let p = ow_procs w ! i
      in set_phase i ph (w\<lparr>ow_user_record := (ow_user_record w)
           (pkey p := write_owner en (own_record i p node) (ow_user_record w (pkey p)))\<rparr>))"

definition put_machine_record :: "nat \<Rightarrow> own_env \<Rightarrow> string option \<Rightarrow> phase \<Rightarrow> own_world \<Rightarrow> own_world" where
  "put_machine_record i en node ph w =
     (let p = ow_procs w ! i; r = pr_role p
      in if pr_machine p = Some MachineExclusive then
           set_phase i ph (w\<lparr>ow_machine_record := (ow_machine_record w)
             (r := write_owner en (own_record i p node) (ow_machine_record w r))\<rparr>)
         else set_phase i ph w)"

section \<open>Probing\<close>

text \<open>\<open>lock_is_held\<close>: whether a hold of the given kind would block; nothing is taken.\<close>

definition lock_is_held :: "own_env \<Rightarrow> lock_kind \<Rightarrow> klock \<Rightarrow> bool" where
  "lock_is_held en kind l \<longleftrightarrow> en_contended en \<or> try_lock kind 0 l = None"

text \<open>A prober that may write the machine lock tests it exclusively, or it would miss shared holders.\<close>

definition probe_kind :: "tier \<Rightarrow> bool \<Rightarrow> lock_kind" where
  "probe_kind t elevated = (if t = MachineTier \<and> elevated then ExclusiveLock else SharedLock)"

definition tier_held :: "own_env \<Rightarrow> proc \<Rightarrow> tier \<Rightarrow> role \<Rightarrow> own_world \<Rightarrow> bool" where
  "tier_held en p t r w =
     (case t of
        UserTier \<Rightarrow> lock_is_held en (probe_kind t (pr_elevated p)) (ow_user_lock w (pr_user p, r))
      | MachineTier \<Rightarrow>
          ow_machine_file w r \<and> lock_is_held en (probe_kind t (pr_elevated p)) (ow_machine_lock w r))"

definition tier_owner :: "proc \<Rightarrow> tier \<Rightarrow> role \<Rightarrow> own_world \<Rightarrow> owner_record option" where
  "tier_owner p t r w =
     (case t of UserTier \<Rightarrow> ow_user_record w (pr_user p, r) | MachineTier \<Rightarrow> ow_machine_record w r)"

definition tier_liveness :: "own_env \<Rightarrow> proc \<Rightarrow> tier \<Rightarrow> role \<Rightarrow> own_world \<Rightarrow> liveness" where
  "tier_liveness en p t r w =
     (if tier_held en p t r w then RunningAt t (tier_owner p t r w) else NotRunning)"

definition probe_tiers :: "bool \<Rightarrow> own_env \<Rightarrow> proc \<Rightarrow> role \<Rightarrow> own_world \<Rightarrow> liveness list" where
  "probe_tiers machine_tier en p r w =
     filter (\<lambda>l. l \<noteq> NotRunning)
       (tier_liveness en p UserTier r w # (if machine_tier then [tier_liveness en p MachineTier r w] else []))"

definition probe :: "bool \<Rightarrow> own_env \<Rightarrow> proc \<Rightarrow> role \<Rightarrow> own_world \<Rightarrow> liveness" where
  "probe machine_tier en p r w =
     (case probe_tiers machine_tier en p r w of [] \<Rightarrow> NotRunning | l # _ \<Rightarrow> l)"

definition ensure_not_running :: "bool \<Rightarrow> own_env \<Rightarrow> proc \<Rightarrow> role \<Rightarrow> own_world \<Rightarrow> string + unit" where
  "ensure_not_running machine_tier en p r w =
     (case probe machine_tier en p r w of
        NotRunning \<Rightarrow> Inr ()
      | RunningAt t ow \<Rightarrow> Inl (already_running r (tier_label t) ow))"

section \<open>One step of a process\<close>

definition same_identity :: "string \<Rightarrow> owner_record option \<Rightarrow> bool" where
  "same_identity node ow \<longleftrightarrow> (case ow of Some r \<Rightarrow> ow_node_id r = Some node | None \<Rightarrow> False)"

definition release_all :: "nat \<Rightarrow> own_world \<Rightarrow> own_world" where
  "release_all i w =
     (let p = ow_procs w ! i
      in w\<lparr>ow_user_lock := (ow_user_lock w)(pkey p := unlock i (ow_user_lock w (pkey p))),
           ow_machine_lock := (ow_machine_lock w)(pr_role p := unlock i (ow_machine_lock w (pr_role p))),
           ow_procs := (ow_procs w)[i := p\<lparr>pr_phase := Gone, pr_machine := None\<rparr>]\<rparr>)"

fun proc_step :: "bool \<Rightarrow> nat \<Rightarrow> own_env \<Rightarrow> phase \<Rightarrow> own_world \<Rightarrow> own_world" where
  "proc_step m i en NotStarted w = set_phase i (ClaimUser 1) w"
| "proc_step m i en (ClaimUser n) w = claim_user m i en n w"
| "proc_step m i en (ClaimMachine n) w = claim_machine i en n w"
| "proc_step m i en RecordUser w = put_user_record i en None RecordMachine w"
| "proc_step m i en RecordMachine w = put_machine_record i en None Claimed w"
| "proc_step m i en Claimed w = put_user_record i en (Some (pr_node (ow_procs w ! i))) PublishMachine w"
| "proc_step m i en PublishMachine w = put_machine_record i en (Some (pr_node (ow_procs w ! i))) ProbeUser w"
| "proc_step m i en ProbeUser w =
     (let p = ow_procs w ! i
      in set_phase i (if tier_held en p UserTier (other_role (pr_role p)) w then ReadUser else ProbeMachine []) w)"
| "proc_step m i en ReadUser w =
     (let p = ow_procs w ! i
      in set_phase i (ProbeMachine [tier_owner p UserTier (other_role (pr_role p)) w]) w)"
| "proc_step m i en (ProbeMachine seen) w =
     (let p = ow_procs w ! i
      in set_phase i (if m \<and> tier_held en p MachineTier (other_role (pr_role p)) w then ReadMachine seen
                      else Decide seen) w)"
| "proc_step m i en (ReadMachine seen) w =
     (let p = ow_procs w ! i
      in set_phase i (Decide (seen @ [tier_owner p MachineTier (other_role (pr_role p)) w])) w)"
| "proc_step m i en (Decide seen) w =
     set_phase i (if list_ex (same_identity (pr_node (ow_procs w ! i))) seen then DropUser else Up) w"
| "proc_step m i en Up w = set_phase i DropUser w"
| "proc_step m i en DropUser w =
     (let k = pkey (ow_procs w ! i)
      in set_phase i DropMachine (w\<lparr>ow_user_record := (ow_user_record w)(k := drop_record i (ow_user_record w k))\<rparr>))"
| "proc_step m i en DropMachine w =
     (let p = ow_procs w ! i; r = pr_role p
      in set_phase i Closing
           (if pr_machine p = Some MachineExclusive then
              w\<lparr>ow_machine_record := (ow_machine_record w)(r := drop_record i (ow_machine_record w r))\<rparr>
            else w))"
| "proc_step m i en Closing w = release_all i w"
| "proc_step m i en Gone w = w"

definition own_act :: "bool \<Rightarrow> nat \<Rightarrow> own_env \<Rightarrow> own_world \<Rightarrow> own_world" where
  "own_act m i en w = proc_step m i en (pr_phase (ow_procs w ! i)) w"

text \<open>The executions: any process takes its next step, or dies and the kernel drops its locks. With
\<open>reliable\<close>, every owner record that is written reaches its file.\<close>

inductive own_run :: "bool \<Rightarrow> bool \<Rightarrow> own_world \<Rightarrow> own_world \<Rightarrow> bool" for m reliable where
  own_start: "own_run m reliable w w"
| own_step: "own_run m reliable w0 w \<Longrightarrow> i < length (ow_procs w) \<Longrightarrow> (reliable \<longrightarrow> en_writes en) \<Longrightarrow>
    own_run m reliable w0 (own_act m i en w)"
| own_crash: "own_run m reliable w0 w \<Longrightarrow> i < length (ow_procs w) \<Longrightarrow>
    own_run m reliable w0 (release_all i w)"

section \<open>Invariants\<close>

definition holds_user :: "phase \<Rightarrow> bool" where
  "holds_user ph \<longleftrightarrow> (case ph of NotStarted \<Rightarrow> False | ClaimUser _ \<Rightarrow> False | Gone \<Rightarrow> False | _ \<Rightarrow> True)"

definition past_claim :: "phase \<Rightarrow> bool" where
  "past_claim ph \<longleftrightarrow>
     (case ph of NotStarted \<Rightarrow> False | ClaimUser _ \<Rightarrow> False | ClaimMachine _ \<Rightarrow> False | Closing \<Rightarrow> False | Gone \<Rightarrow> False
      | _ \<Rightarrow> True)"

definition published :: "phase \<Rightarrow> bool" where
  "published ph \<longleftrightarrow>
     (case ph of PublishMachine \<Rightarrow> True | ProbeUser \<Rightarrow> True | ReadUser \<Rightarrow> True | ProbeMachine _ \<Rightarrow> True
      | ReadMachine _ \<Rightarrow> True | Decide _ \<Rightarrow> True | Up \<Rightarrow> True | _ \<Rightarrow> False)"

text \<open>\<open>clean\<close>: the user tier of the other role was probed and did not show this identity.\<close>

definition clean :: "string \<Rightarrow> phase \<Rightarrow> bool" where
  "clean node ph \<longleftrightarrow>
     (case ph of ProbeMachine seen \<Rightarrow> \<not> list_ex (same_identity node) seen
      | ReadMachine seen \<Rightarrow> \<not> list_ex (same_identity node) seen
      | Decide seen \<Rightarrow> \<not> list_ex (same_identity node) seen
      | Up \<Rightarrow> True | _ \<Rightarrow> False)"

lemmas phase_defs = holds_user_def past_claim_def published_def clean_def

abbreviation at_proc :: "own_world \<Rightarrow> nat \<Rightarrow> proc" where
  "at_proc w i \<equiv> ow_procs w ! i"

definition inv_user :: "own_world \<Rightarrow> bool" where
  "inv_user w \<longleftrightarrow>
     (\<forall>u r is. ow_user_lock w (u, r) \<noteq> SharedBy is) \<and>
     (\<forall>u r i. ow_user_lock w (u, r) = LockedBy i \<longrightarrow>
        i < length (ow_procs w) \<and> pr_user (at_proc w i) = u \<and> pr_role (at_proc w i) = r \<and>
        holds_user (pr_phase (at_proc w i))) \<and>
     (\<forall>i < length (ow_procs w). holds_user (pr_phase (at_proc w i)) \<longrightarrow> ow_user_lock w (pkey (at_proc w i)) = LockedBy i)"

definition machine_ok :: "own_world \<Rightarrow> nat \<Rightarrow> bool" where
  "machine_ok w i \<longleftrightarrow>
     (pr_machine (at_proc w i) = Some MachineExclusive \<longrightarrow> ow_machine_lock w (pr_role (at_proc w i)) = LockedBy i) \<and>
     (pr_machine (at_proc w i) = Some MachineShared \<longrightarrow>
        (\<exists>is. ow_machine_lock w (pr_role (at_proc w i)) = SharedBy is \<and> i \<in> set is))"

definition inv_machine :: "bool \<Rightarrow> own_world \<Rightarrow> bool" where
  "inv_machine m w \<longleftrightarrow>
     (\<forall>i < length (ow_procs w). machine_ok w i \<and>
        (m \<and> past_claim (pr_phase (at_proc w i)) \<longrightarrow>
           pr_machine (at_proc w i) \<noteq> None \<and>
           (pr_elevated (at_proc w i) \<longrightarrow> pr_machine (at_proc w i) = Some MachineExclusive)))"

definition inv_record :: "own_world \<Rightarrow> bool" where
  "inv_record w \<longleftrightarrow>
     (\<forall>i < length (ow_procs w). published (pr_phase (at_proc w i)) \<longrightarrow>
        ow_user_record w (pkey (at_proc w i)) = Some (own_record i (at_proc w i) (Some (pr_node (at_proc w i)))))"

definition rivals :: "proc \<Rightarrow> proc \<Rightarrow> bool" where
  "rivals p q \<longleftrightarrow> pr_user q = pr_user p \<and> pr_role q = other_role (pr_role p) \<and> pr_node q = pr_node p"

definition inv_identity :: "own_world \<Rightarrow> bool" where
  "inv_identity w \<longleftrightarrow>
     (\<forall>i < length (ow_procs w). \<forall>j < length (ow_procs w). rivals (at_proc w i) (at_proc w j) \<longrightarrow>
        \<not> (clean (pr_node (at_proc w i)) (pr_phase (at_proc w i)) \<and> clean (pr_node (at_proc w j)) (pr_phase (at_proc w j))))"

lemma inv_userD:
  assumes "inv_user w"
  shows "i < length (ow_procs w) \<Longrightarrow> holds_user (pr_phase (at_proc w i)) \<Longrightarrow> ow_user_lock w (pkey (at_proc w i)) = LockedBy i"
    and "ow_user_lock w (u, r) = LockedBy i \<Longrightarrow>
      i < length (ow_procs w) \<and> pr_user (at_proc w i) = u \<and> pr_role (at_proc w i) = r \<and> holds_user (pr_phase (at_proc w i))"
    and "ow_user_lock w (u, r) \<noteq> SharedBy is"
  using assms by (auto simp: inv_user_def)

section \<open>What a step changes\<close>

lemma set_phase_sel [simp]:
  "ow_user_lock (set_phase i ph w) = ow_user_lock w" "ow_machine_file (set_phase i ph w) = ow_machine_file w"
  "ow_machine_lock (set_phase i ph w) = ow_machine_lock w" "ow_user_record (set_phase i ph w) = ow_user_record w"
  "ow_machine_record (set_phase i ph w) = ow_machine_record w"
  "ow_procs (set_phase i ph w) = (ow_procs w)[i := (at_proc w i)\<lparr>pr_phase := ph\<rparr>]"
  by (simp_all add: set_phase_def)

lemma set_machine_sel [simp]:
  "ow_user_lock (set_machine i mc ph w) = ow_user_lock w" "ow_machine_file (set_machine i mc ph w) = ow_machine_file w"
  "ow_machine_lock (set_machine i mc ph w) = ow_machine_lock w" "ow_user_record (set_machine i mc ph w) = ow_user_record w"
  "ow_machine_record (set_machine i mc ph w) = ow_machine_record w"
  "ow_procs (set_machine i mc ph w) = (ow_procs w)[i := (at_proc w i)\<lparr>pr_phase := ph, pr_machine := Some mc\<rparr>]"
  by (simp_all add: set_machine_def)

text \<open>Only the stepping process changes, and only its phase and its machine claim.\<close>

definition same_proc :: "proc \<Rightarrow> proc \<Rightarrow> bool" where
  "same_proc p q \<longleftrightarrow>
     pr_user q = pr_user p \<and> pr_role q = pr_role p \<and> pr_elevated q = pr_elevated p \<and> pr_node q = pr_node p"

definition only_proc :: "nat \<Rightarrow> own_world \<Rightarrow> own_world \<Rightarrow> bool" where
  "only_proc i w w' \<longleftrightarrow>
     length (ow_procs w') = length (ow_procs w) \<and> (\<forall>j. j \<noteq> i \<longrightarrow> at_proc w' j = at_proc w j) \<and>
     same_proc (at_proc w i) (at_proc w' i)"

lemma only_proc_intros:
  "i < length (ow_procs w) \<Longrightarrow> ow_procs w1 = ow_procs w \<Longrightarrow> only_proc i w (set_phase i ph w1)"
  "i < length (ow_procs w) \<Longrightarrow> ow_procs w1 = ow_procs w \<Longrightarrow> only_proc i w (set_machine i mc ph w1)"
  "i < length (ow_procs w) \<Longrightarrow> only_proc i w (release_all i w)"
  "only_proc i w w"
  by (simp_all add: only_proc_def same_proc_def release_all_def Let_def)

lemma own_act_frame: "i < length (ow_procs w) \<Longrightarrow> only_proc i w (own_act m i en w)"
  unfolding own_act_def
  by (cases "pr_phase (at_proc w i)")
    (auto simp: claim_user_def claim_machine_def put_user_record_def put_machine_record_def Let_def
      intro!: only_proc_intros split: option.split)

section \<open>The user lock\<close>

lemma inv_user_same:
  assumes "inv_user w" and "only_proc i w w'" and "ow_user_lock w' = ow_user_lock w"
    and "holds_user (pr_phase (at_proc w' i)) = holds_user (pr_phase (at_proc w i))"
  shows "inv_user w'"
proof -
  have "length (ow_procs w') = length (ow_procs w)"
    and "pr_user (at_proc w' j) = pr_user (at_proc w j) \<and> pr_role (at_proc w' j) = pr_role (at_proc w j) \<and>
      holds_user (pr_phase (at_proc w' j)) = holds_user (pr_phase (at_proc w j))" for j
    using assms(2,4) by (cases "j = i"; simp add: only_proc_def same_proc_def)+
  with assms(1,3) show ?thesis by (simp add: inv_user_def)
qed

lemma inv_user_new:
  assumes inv: "inv_user w" and i: "i < length (ow_procs w)" and frame: "only_proc i w w'"
    and free: "ow_user_lock w (pkey (at_proc w i)) = Unlocked"
    and lock: "ow_user_lock w' = (ow_user_lock w)(pkey (at_proc w i) := LockedBy i)"
    and holds: "\<not> holds_user (pr_phase (at_proc w i))" "holds_user (pr_phase (at_proc w' i))"
  shows "inv_user w'"
  unfolding inv_user_def
proof (intro conjI allI impI)
  have other: "at_proc w' j = at_proc w j" if "j \<noteq> i" for j using frame that by (simp add: only_proc_def)
  have len: "length (ow_procs w') = length (ow_procs w)" using frame by (simp add: only_proc_def)
  have self: "pr_user (at_proc w' i) = pr_user (at_proc w i)" "pr_role (at_proc w' i) = pr_role (at_proc w i)"
    using frame by (simp_all add: only_proc_def same_proc_def)
  fix u r
  show "ow_user_lock w' (u, r) \<noteq> SharedBy is" for "is"
    using inv_userD(3) [OF inv] by (simp add: lock)
  fix j
  {
    assume j: "ow_user_lock w' (u, r) = LockedBy j"
    have "j < length (ow_procs w') \<and> pr_user (at_proc w' j) = u \<and> pr_role (at_proc w' j) = r \<and> holds_user (pr_phase (at_proc w' j))"
    proof (cases "(u, r) = pkey (at_proc w i)")
      case True
      with j have "j = i" by (simp add: lock)
      with True i len self holds show ?thesis by simp
    next
      case False
      with j have old: "ow_user_lock w (u, r) = LockedBy j" by (simp add: lock split: if_splits)
      from inv_userD(2) [OF inv old] holds(1) have "j \<noteq> i" by auto
      with inv_userD(2) [OF inv old] other len show ?thesis by simp
    qed
    then show "j < length (ow_procs w')" and "pr_user (at_proc w' j) = u" and "pr_role (at_proc w' j) = r"
      and "holds_user (pr_phase (at_proc w' j))" by simp_all
  }
  assume j: "j < length (ow_procs w')" "holds_user (pr_phase (at_proc w' j))"
  show "ow_user_lock w' (pkey (at_proc w' j)) = LockedBy j"
  proof (cases "j = i")
    case True
    with self show ?thesis by (simp add: lock)
  next
    case False
    with j other len have "ow_user_lock w (pkey (at_proc w j)) = LockedBy j" by (intro inv_userD(1) [OF inv]) simp_all
    with free other [OF False] show ?thesis by (auto simp: lock)
  qed
qed

lemma inv_user_claim:
  assumes "inv_user w" and i: "i < length (ow_procs w)" and "pr_phase (at_proc w i) = ClaimUser n"
  shows "inv_user (claim_user m i en n w)"
proof (cases "if en_contended en then None else try_lock ExclusiveLock i (ow_user_lock w (pkey (at_proc w i)))")
  case None
  have "inv_user (set_phase i (if n < ATTEMPTS then ClaimUser (Suc n) else Gone) w)"
    by (rule inv_user_same [OF assms(1) only_proc_intros(1) [OF i refl]])
      (use i assms(3) in \<open>simp_all add: holds_user_def\<close>)
  then show ?thesis by (simp only: claim_user_def Let_def None option.case)
next
  case (Some l)
  then have free: "ow_user_lock w (pkey (at_proc w i)) = Unlocked" and l: "l = LockedBy i"
    using inv_userD(3) [OF assms(1)] by (cases "ow_user_lock w (pkey (at_proc w i))"; auto split: if_splits)+
  let ?w = "set_phase i (if m then ClaimMachine 1 else RecordUser) (w\<lparr>ow_user_lock := (ow_user_lock w)(pkey (at_proc w i) := l)\<rparr>)"
  have "inv_user ?w"
    by (rule inv_user_new [OF assms(1) i only_proc_intros(1) [OF i] free])
      (use i assms(3) l in \<open>simp_all add: holds_user_def\<close>)
  then show ?thesis by (simp only: claim_user_def Let_def Some option.case)
qed

lemma inv_user_release:
  assumes "inv_user w" and i: "i < length (ow_procs w)"
  shows "inv_user (release_all i w)"
proof -
  have lock: "ow_user_lock (release_all i w) (u, r) =
      (if ow_user_lock w (u, r) = LockedBy i then Unlocked else ow_user_lock w (u, r))" for u r
    using inv_userD(2) [OF assms(1), of u r i] inv_userD(3) [OF assms(1)]
    by (cases "ow_user_lock w (u, r)") (auto simp: release_all_def Let_def)
  have "ow_procs (release_all i w) = (ow_procs w)[i := (at_proc w i)\<lparr>pr_phase := Gone, pr_machine := None\<rparr>]"
    by (simp add: release_all_def Let_def)
  with assms lock show ?thesis
    by (auto simp: inv_user_def holds_user_def nth_list_update split: if_splits)
qed

lemma inv_user_act:
  assumes "inv_user w" and i: "i < length (ow_procs w)"
  shows "inv_user (own_act m i en w)"
proof (cases "pr_phase (at_proc w i)")
  case (ClaimUser n)
  then show ?thesis using inv_user_claim [OF assms ClaimUser] by (simp add: own_act_def)
next
  case Closing
  then show ?thesis using inv_user_release [OF assms] by (simp add: own_act_def)
qed (rule inv_user_same [OF assms(1) own_act_frame [OF i]];
    insert i; auto simp: own_act_def claim_machine_def put_user_record_def put_machine_record_def Let_def holds_user_def
      split: option.split; fail)+

section \<open>The machine lock\<close>

definition machine_past :: "bool \<Rightarrow> proc \<Rightarrow> bool" where
  "machine_past m p \<longleftrightarrow>
     (m \<and> past_claim (pr_phase p) \<longrightarrow>
        pr_machine p \<noteq> None \<and> (pr_elevated p \<longrightarrow> pr_machine p = Some MachineExclusive))"

lemma inv_machine_alt: "inv_machine m w \<longleftrightarrow> (\<forall>i < length (ow_procs w). machine_ok w i \<and> machine_past m (at_proc w i))"
  by (simp add: inv_machine_def machine_past_def)

text \<open>A step that leaves the machine lock and the claim alone keeps the invariant.\<close>

lemma inv_machine_same:
  assumes inv: "inv_machine m w" and frame: "only_proc i w w'" and lock: "ow_machine_lock w' = ow_machine_lock w"
    and claim: "pr_machine (at_proc w' i) = pr_machine (at_proc w i)" and past: "machine_past m (at_proc w' i)"
  shows "inv_machine m w'"
  unfolding inv_machine_alt
proof (intro allI impI conjI)
  fix j assume j: "j < length (ow_procs w')"
  then have j': "j < length (ow_procs w)" using frame by (simp add: only_proc_def)
  have "pr_machine (at_proc w' j) = pr_machine (at_proc w j)" "pr_role (at_proc w' j) = pr_role (at_proc w j)"
    using frame claim by (cases "j = i"; simp add: only_proc_def same_proc_def)+
  moreover have "machine_ok w j" using inv j' by (simp add: inv_machine_alt)
  ultimately show "machine_ok w' j"
    by (simp add: machine_ok_def lock)
  show "machine_past m (at_proc w' j)"
    using inv j' past frame by (cases "j = i") (simp_all add: inv_machine_alt only_proc_def)
qed

text \<open>A successful machine claim, of either kind.\<close>

lemma inv_machine_claimed:
  assumes inv: "inv_machine m w" and i: "i < length (ow_procs w)" and w1: "ow_procs w1 = ow_procs w"
    and lock: "ow_machine_lock w1 = (ow_machine_lock w)(pr_role (at_proc w i) := l)"
    and kind: "try_lock kind i (ow_machine_lock w (pr_role (at_proc w i))) = Some l"
    and mc: "mc = (if kind = ExclusiveLock then MachineExclusive else MachineShared)"
    and el: "pr_elevated (at_proc w i) \<longrightarrow> kind = ExclusiveLock"
  shows "inv_machine m (set_machine i mc RecordUser w1)"
  unfolding inv_machine_alt
proof (intro allI impI conjI)
  let ?w = "set_machine i mc RecordUser w1"
  fix j assume j: "j < length (ow_procs ?w)"
  then have j': "j < length (ow_procs w)" by (simp add: w1)
  show "machine_past m (at_proc ?w j)"
    using inv j' i el by (cases "j = i") (simp_all add: inv_machine_alt machine_past_def w1 mc)
  show "machine_ok ?w j"
  proof (cases "j = i")
    case True
    with i kind show ?thesis
      by (cases "(kind, i, ow_machine_lock w (pr_role (at_proc w i)))" rule: try_lock.cases)
        (auto simp: machine_ok_def w1 lock mc)
  next
    case False
    have old: "machine_ok w j" using inv j' by (simp add: inv_machine_alt)
    show ?thesis
    proof (cases "pr_role (at_proc w j) = pr_role (at_proc w i)")
      case True
      with old kind False show ?thesis
        by (cases "(kind, i, ow_machine_lock w (pr_role (at_proc w i)))" rule: try_lock.cases)
          (auto simp: machine_ok_def w1 lock)
    next
      case False
      with old \<open>j \<noteq> i\<close> show ?thesis by (simp add: machine_ok_def w1 lock)
    qed
  qed
qed

lemma removeAll_Nil: "removeAll i xs = [] \<Longrightarrow> j \<in> set xs \<Longrightarrow> j = i"
  by (induction xs) (auto split: if_splits)

lemma inv_machine_release:
  assumes inv: "inv_machine m w" and i: "i < length (ow_procs w)"
  shows "inv_machine m (release_all i w)"
  unfolding inv_machine_alt
proof (intro allI impI conjI)
  let ?w = "release_all i w"
  have procs: "ow_procs ?w = (ow_procs w)[i := (at_proc w i)\<lparr>pr_phase := Gone, pr_machine := None\<rparr>]"
    and lock: "ow_machine_lock ?w = (ow_machine_lock w)(pr_role (at_proc w i) := unlock i (ow_machine_lock w (pr_role (at_proc w i))))"
    by (simp_all add: release_all_def Let_def)
  fix j assume j: "j < length (ow_procs ?w)"
  then have j': "j < length (ow_procs w)" by (simp add: procs)
  show "machine_past m (at_proc ?w j)"
    using inv j' i by (cases "j = i") (simp_all add: inv_machine_alt machine_past_def procs past_claim_def)
  show "machine_ok ?w j"
  proof (cases "j = i")
    case True
    with i show ?thesis by (simp add: machine_ok_def procs)
  next
    case False
    have old: "machine_ok w j" using inv j' by (simp add: inv_machine_alt)
    show ?thesis
    proof (cases "pr_role (at_proc w j) = pr_role (at_proc w i)")
      case True
      with old False show ?thesis
        by (cases "ow_machine_lock w (pr_role (at_proc w i))")
          (auto simp: machine_ok_def procs lock Let_def
            dest: removeAll_Nil)
    next
      case other: False
      with old False show ?thesis by (simp add: machine_ok_def procs lock)
    qed
  qed
qed

lemma inv_machine_claim:
  assumes inv: "inv_machine m w" and i: "i < length (ow_procs w)" and ph: "pr_phase (at_proc w i) = ClaimMachine n"
  shows "inv_machine m (claim_machine i en n w)"
proof -
  let ?r = "pr_role (at_proc w i)"
  have keep: "inv_machine m (set_phase i ph' w1)"
    if "ow_procs w1 = ow_procs w" "ow_machine_lock w1 = ow_machine_lock w" "\<not> past_claim ph'" for ph' w1
    by (rule inv_machine_same [OF inv only_proc_intros(1) [OF i that(1)]])
      (use that i in \<open>simp_all add: machine_past_def\<close>)
  consider (up) "pr_elevated (at_proc w i)" | (absent) "\<not> pr_elevated (at_proc w i)" "\<not> ow_machine_file w ?r"
    | (down) "\<not> pr_elevated (at_proc w i)" "ow_machine_file w ?r" by blast
  then show ?thesis
  proof cases
    case up
    show ?thesis
    proof (cases "if en_contended en then None else try_lock ExclusiveLock i (ow_machine_lock w ?r)")
      case None
      have "inv_machine m (set_phase i (if n < ATTEMPTS then ClaimMachine (Suc n) else Closing)
          (w\<lparr>ow_machine_file := (ow_machine_file w)(?r := True)\<rparr>))"
        by (rule keep) (simp_all add: past_claim_def)
      then show ?thesis using up by (simp only: claim_machine_def Let_def None option.case if_True)
    next
      case (Some l)
      then have l: "try_lock ExclusiveLock i (ow_machine_lock w ?r) = Some l" by (simp split: if_splits)
      have "inv_machine m (set_machine i MachineExclusive RecordUser
          (w\<lparr>ow_machine_file := (ow_machine_file w)(?r := True), ow_machine_lock := (ow_machine_lock w)(?r := l)\<rparr>))"
        by (rule inv_machine_claimed [OF inv i _ _ l]) simp_all
      then show ?thesis using up by (simp only: claim_machine_def Let_def Some option.case if_True)
    qed
  next
    case absent
    have "machine_ok (set_machine i MachineAbsent RecordUser w) j \<and>
        machine_past m (at_proc (set_machine i MachineAbsent RecordUser w) j)" if "j < length (ow_procs w)" for j
      using inv i that absent
      by (cases "j = i") (simp_all add: inv_machine_alt machine_ok_def machine_past_def)
    then show ?thesis using absent by (simp add: claim_machine_def Let_def inv_machine_alt)
  next
    case down
    show ?thesis
    proof (cases "if en_contended en then None else try_lock SharedLock i (ow_machine_lock w ?r)")
      case None
      have "inv_machine m (set_phase i Closing w)" by (rule keep) (simp_all add: past_claim_def)
      then show ?thesis using down by (simp only: claim_machine_def Let_def None option.case if_False simp_thms)
    next
      case (Some l)
      then have l: "try_lock SharedLock i (ow_machine_lock w ?r) = Some l" by (simp split: if_splits)
      have "inv_machine m (set_machine i MachineShared RecordUser (w\<lparr>ow_machine_lock := (ow_machine_lock w)(?r := l)\<rparr>))"
        by (rule inv_machine_claimed [OF inv i _ _ l]) (use down in simp_all)
      then show ?thesis using down by (simp only: claim_machine_def Let_def Some option.case if_False simp_thms)
    qed
  qed
qed

lemma inv_machine_act:
  assumes inv: "inv_machine m w" and i: "i < length (ow_procs w)"
  shows "inv_machine m (own_act m i en w)"
proof -
  have past: "machine_past m (at_proc w i)" using inv i by (simp add: inv_machine_alt)
  note same = inv_machine_same [OF inv own_act_frame [OF i]]
  show ?thesis
  proof (cases "pr_phase (at_proc w i)")
    case (ClaimMachine n)
    with inv_machine_claim [OF inv i ClaimMachine] show ?thesis by (simp add: own_act_def)
  next
    case Closing
    with inv_machine_release [OF inv i] show ?thesis by (simp add: own_act_def)
  next
    case (ClaimUser n)
    show ?thesis
      by (rule same) (use i past ClaimUser in
        \<open>auto simp: own_act_def claim_user_def Let_def machine_past_def past_claim_def split: option.split\<close>)
  qed (rule same; use i past in
      \<open>auto simp: own_act_def put_user_record_def put_machine_record_def Let_def machine_past_def past_claim_def\<close>)+
qed

section \<open>Records and identities\<close>

lemma published_holds: "published ph \<Longrightarrow> holds_user ph"
  by (cases ph) (simp_all add: phase_defs)

lemma clean_published: "clean node ph \<Longrightarrow> published ph"
  by (cases ph) (simp_all add: phase_defs)

lemma same_key_same_proc:
  "inv_user w \<Longrightarrow> i < length (ow_procs w) \<Longrightarrow> j < length (ow_procs w) \<Longrightarrow> holds_user (pr_phase (at_proc w i)) \<Longrightarrow>
     holds_user (pr_phase (at_proc w j)) \<Longrightarrow> pkey (at_proc w i) = pkey (at_proc w j) \<Longrightarrow> i = j"
  by (metis inv_userD(1) klock.inject(1))

lemma inv_record_step:
  assumes user: "inv_user w" and inv: "inv_record w" and i: "i < length (ow_procs w)" and frame: "only_proc i w w'"
    and others: "\<And>k. k \<noteq> pkey (at_proc w i) \<or> \<not> holds_user (pr_phase (at_proc w i)) \<Longrightarrow> ow_user_record w' k = ow_user_record w k"
    and self: "published (pr_phase (at_proc w' i)) \<Longrightarrow>
      ow_user_record w' (pkey (at_proc w i)) = Some (own_record i (at_proc w i) (Some (pr_node (at_proc w i))))"
  shows "inv_record w'"
  unfolding inv_record_def
proof (intro allI impI)
  fix j assume j: "j < length (ow_procs w')" and pub: "published (pr_phase (at_proc w' j))"
  show "ow_user_record w' (pkey (at_proc w' j)) = Some (own_record j (at_proc w' j) (Some (pr_node (at_proc w' j))))"
  proof (cases "j = i")
    case True
    with self pub frame show ?thesis by (simp add: only_proc_def same_proc_def own_record_def)
  next
    case False
    with frame j pub have j': "j < length (ow_procs w)" "published (pr_phase (at_proc w j))" "at_proc w' j = at_proc w j"
      by (simp_all add: only_proc_def)
    then have "pkey (at_proc w j) \<noteq> pkey (at_proc w i) \<or> \<not> holds_user (pr_phase (at_proc w i))"
      using same_key_same_proc [OF user i j'(1)] published_holds False by metis
    with others inv j' show ?thesis by (simp add: inv_record_def)
  qed
qed

lemma inv_record_act:
  assumes "inv_user w" and inv: "inv_record w" and i: "i < length (ow_procs w)" and en: "en_writes en"
  shows "inv_record (own_act m i en w)"
proof (rule inv_record_step [OF assms(1) inv i own_act_frame [OF i]])
  have self: "published (pr_phase (at_proc w i)) \<Longrightarrow>
      ow_user_record w (pkey (at_proc w i)) = Some (own_record i (at_proc w i) (Some (pr_node (at_proc w i))))"
    using inv i by (simp add: inv_record_def)
  show "ow_user_record (own_act m i en w) k = ow_user_record w k"
    if "k \<noteq> pkey (at_proc w i) \<or> \<not> holds_user (pr_phase (at_proc w i))" for k
    using that
    by (cases "pr_phase (at_proc w i)")
      (auto simp: own_act_def claim_user_def claim_machine_def put_user_record_def put_machine_record_def Let_def
        release_all_def holds_user_def split: option.split)
  show "ow_user_record (own_act m i en w) (pkey (at_proc w i)) = Some (own_record i (at_proc w i) (Some (pr_node (at_proc w i))))"
    if "published (pr_phase (at_proc (own_act m i en w) i))"
    using that i en self
    by (cases "pr_phase (at_proc w i)")
      (auto simp: own_act_def claim_user_def claim_machine_def put_user_record_def put_machine_record_def Let_def
        release_all_def published_def write_owner_def split: option.splits if_splits)
qed

lemma inv_record_release:
  "inv_user w \<Longrightarrow> inv_record w \<Longrightarrow> i < length (ow_procs w) \<Longrightarrow> inv_record (release_all i w)"
  by (rule inv_record_step [OF _ _ _ only_proc_intros(3)])
    (auto simp: release_all_def Let_def published_def only_proc_intros)

lemma clean_act:
  assumes "i < length (ow_procs w)" and "clean (pr_node (at_proc w i)) (pr_phase (at_proc (own_act m i en w) i))"
  shows "clean (pr_node (at_proc w i)) (pr_phase (at_proc w i))
    \<or> pr_phase (at_proc w i) = ProbeUser \<and> \<not> tier_held en (at_proc w i) UserTier (other_role (pr_role (at_proc w i))) w
    \<or> pr_phase (at_proc w i) = ReadUser \<and>
        \<not> same_identity (pr_node (at_proc w i)) (ow_user_record w (pr_user (at_proc w i), other_role (pr_role (at_proc w i))))"
  using assms
  by (cases "pr_phase (at_proc w i)")
    (auto simp: own_act_def claim_user_def claim_machine_def put_user_record_def put_machine_record_def Let_def
      release_all_def clean_def tier_owner_def split: option.splits if_splits)

lemma clean_seen:
  assumes "inv_user w" and "inv_record w" and j: "j < length (ow_procs w)" and "rivals p (at_proc w j)"
    and "clean (pr_node p) (pr_phase (at_proc w j))"
  shows "tier_held en p UserTier (other_role (pr_role p)) w"
    and "same_identity (pr_node p) (ow_user_record w (pr_user p, other_role (pr_role p)))"
proof -
  have key: "pkey (at_proc w j) = (pr_user p, other_role (pr_role p))" and node: "pr_node (at_proc w j) = pr_node p"
    using assms(4) by (simp_all add: rivals_def)
  have pub: "published (pr_phase (at_proc w j))" by (rule clean_published [OF assms(5)])
  from inv_userD(1) [OF assms(1) j published_holds [OF pub]] key
  show "tier_held en p UserTier (other_role (pr_role p)) w"
    by (simp add: tier_held_def lock_is_held_def probe_kind_def)
  from assms(2) j pub key node
  show "same_identity (pr_node p) (ow_user_record w (pr_user p, other_role (pr_role p)))"
    by (auto simp: inv_record_def same_identity_def own_record_def)
qed

lemma rivals_sym: "rivals p q \<Longrightarrow> rivals q p"
  by (simp add: rivals_def)

lemma inv_identity_step:
  assumes inv: "inv_identity w" and i: "i < length (ow_procs w)" and frame: "only_proc i w w'"
    and new: "\<And>j. j < length (ow_procs w) \<Longrightarrow> rivals (at_proc w i) (at_proc w j) \<Longrightarrow>
      clean (pr_node (at_proc w i)) (pr_phase (at_proc w j)) \<Longrightarrow>
      clean (pr_node (at_proc w i)) (pr_phase (at_proc w' i)) \<Longrightarrow> clean (pr_node (at_proc w i)) (pr_phase (at_proc w i))"
  shows "inv_identity w'"
proof -
  have len: "length (ow_procs w') = length (ow_procs w)" and other: "\<And>j. j \<noteq> i \<Longrightarrow> at_proc w' j = at_proc w j"
    and self: "same_proc (at_proc w i) (at_proc w' i)"
    using frame by (simp_all add: only_proc_def)
  have clash: False
    if "j < length (ow_procs w)" "j \<noteq> i" "rivals (at_proc w i) (at_proc w j)"
      "clean (pr_node (at_proc w i)) (pr_phase (at_proc w j))" "clean (pr_node (at_proc w i)) (pr_phase (at_proc w' i))" for j
  proof -
    from new [OF that(1,3,4,5)] inv i that(1,3,4) show False by (auto simp: inv_identity_def rivals_def)
  qed
  have static: "pr_node (at_proc w' i) = pr_node (at_proc w i)"
    "pr_user (at_proc w' i) = pr_user (at_proc w i)" "pr_role (at_proc w' i) = pr_role (at_proc w i)"
    "rivals (at_proc w' i) q \<longleftrightarrow> rivals (at_proc w i) q" "rivals q (at_proc w' i) \<longleftrightarrow> rivals q (at_proc w i)" for q
    using self by (auto simp: same_proc_def rivals_def)
  show ?thesis
    unfolding inv_identity_def
  proof (intro allI impI notI, elim conjE)
    fix a b
    assume ab: "a < length (ow_procs w')" "b < length (ow_procs w')" "rivals (at_proc w' a) (at_proc w' b)"
      "clean (pr_node (at_proc w' a)) (pr_phase (at_proc w' a))" "clean (pr_node (at_proc w' b)) (pr_phase (at_proc w' b))"
    consider "a = i" "b = i" | "a = i" "b \<noteq> i" | "a \<noteq> i" "b = i" | "a \<noteq> i" "b \<noteq> i" by blast
    then show False
    proof cases
      case 1
      with ab(3) show False by (simp add: rivals_def)
    next
      case 2
      with ab clash [of b] show False by (simp add: len static other rivals_def)
    next
      case 3
      with ab(3) have r: "rivals (at_proc w i) (at_proc w a)" by (simp add: static other rivals_sym)
      then have "pr_node (at_proc w a) = pr_node (at_proc w i)" by (simp add: rivals_def)
      with 3 ab clash [of a, OF _ _ r] show False by (simp add: len static other)
    next
      case 4
      with ab inv show False by (simp add: len other inv_identity_def)
    qed
  qed
qed

lemma inv_identity_act:
  assumes "inv_user w" and "inv_record w" and inv: "inv_identity w" and i: "i < length (ow_procs w)"
  shows "inv_identity (own_act m i en w)"
proof (rule inv_identity_step [OF inv i own_act_frame [OF i]])
  fix j
  assume j: "j < length (ow_procs w)" "rivals (at_proc w i) (at_proc w j)" "clean (pr_node (at_proc w i)) (pr_phase (at_proc w j))"
    and "clean (pr_node (at_proc w i)) (pr_phase (at_proc (own_act m i en w) i))"
  from clean_act [OF i this(4)] clean_seen [OF assms(1,2) j]
  show "clean (pr_node (at_proc w i)) (pr_phase (at_proc w i))" by blast
qed

lemma inv_identity_release:
  "inv_identity w \<Longrightarrow> i < length (ow_procs w) \<Longrightarrow> inv_identity (release_all i w)"
  by (rule inv_identity_step [OF _ _ only_proc_intros(3)]) (auto simp: release_all_def Let_def clean_def)

section \<open>Executions\<close>

text \<open>The state of the machine before any of the processes starts: no lock is held; files and records may be
left over from anything.\<close>

definition own_fresh :: "own_world \<Rightarrow> bool" where
  "own_fresh w \<longleftrightarrow>
     (\<forall>u r. ow_user_lock w (u, r) = Unlocked) \<and> (\<forall>r. ow_machine_lock w r = Unlocked) \<and>
     (\<forall>p \<in> set (ow_procs w). pr_phase p = NotStarted \<and> pr_machine p = None)"

lemma own_run_invs:
  assumes "own_run m reliable w0 w" and "own_fresh w0"
  shows "inv_user w \<and> inv_machine m w \<and> (reliable \<longrightarrow> inv_record w \<and> inv_identity w)"
  using assms
proof (induction rule: own_run.induct)
  case (own_start w)
  then have "pr_phase (at_proc w i) = NotStarted \<and> pr_machine (at_proc w i) = None" if "i < length (ow_procs w)" for i
    using that by (simp add: own_fresh_def)
  with own_start show ?case
    by (auto simp: inv_user_def inv_machine_def machine_ok_def inv_record_def inv_identity_def phase_defs own_fresh_def)
next
  case (own_step w0 w i en)
  then show ?case by (auto simp: inv_user_act inv_machine_act inv_record_act inv_identity_act)
next
  case (own_crash w0 w i)
  then show ?case by (auto simp: inv_user_release inv_machine_release inv_record_release inv_identity_release)
qed

text \<open>C22: a role runs once. However starts, stops, kills and probes interleave, two processes past their claim
of one role belong to different users, and none of the two holds the machine lock exclusively unless the other
found no machine lock file; where the platform has the machine tier, an elevated process holds it exclusively.\<close>

theorem role_runs_once:
  assumes "own_run m reliable w0 w" and "own_fresh w0"
    and "i < length (ow_procs w)" and "j < length (ow_procs w)" and "i \<noteq> j"
    and "past_claim (pr_phase (at_proc w i))" and "past_claim (pr_phase (at_proc w j))"
    and "pr_role (at_proc w i) = pr_role (at_proc w j)"
  shows "pr_user (at_proc w i) \<noteq> pr_user (at_proc w j)
    \<and> (m \<and> pr_elevated (at_proc w i) \<longrightarrow> \<not> pr_elevated (at_proc w j) \<and> pr_machine (at_proc w j) = Some MachineAbsent)"
proof -
  have inv: "inv_user w" "inv_machine m w" using own_run_invs [OF assms(1,2)] by simp_all
  have holds: "past_claim ph \<Longrightarrow> holds_user ph" for ph by (cases ph) (simp_all add: phase_defs)
  have "pr_user (at_proc w i) \<noteq> pr_user (at_proc w j)"
    using same_key_same_proc [OF inv(1) assms(3,4) holds holds] assms(5-8) by auto
  moreover have "\<not> pr_elevated (at_proc w j) \<and> pr_machine (at_proc w j) = Some MachineAbsent"
    if "m" and "pr_elevated (at_proc w i)"
  proof -
    have lock: "ow_machine_lock w (pr_role (at_proc w i)) = LockedBy i"
      using inv(2) assms(3,6) that by (simp add: inv_machine_def machine_ok_def)
    have ok: "machine_ok w j" "pr_machine (at_proc w j) \<noteq> None"
      "pr_elevated (at_proc w j) \<longrightarrow> pr_machine (at_proc w j) = Some MachineExclusive"
      using inv(2) assms(4,7) that(1) by (simp_all add: inv_machine_def)
    then obtain mc where mc: "pr_machine (at_proc w j) = Some mc" by blast
    with ok lock assms(5,8) show ?thesis by (cases mc) (auto simp: machine_ok_def)
  qed
  ultimately show ?thesis by blast
qed

text \<open>C23: one identity never runs in both roles of a user. When every owner record reaches its file, two
processes of one user with the same node identifier are never up in different roles, however their starts race,
and even if processes die in between.\<close>

theorem identity_runs_once:
  assumes "own_run m True w0 w" and "own_fresh w0"
    and "i < length (ow_procs w)" and "j < length (ow_procs w)"
    and "pr_user (at_proc w i) = pr_user (at_proc w j)" and "pr_role (at_proc w i) \<noteq> pr_role (at_proc w j)"
    and "pr_node (at_proc w i) = pr_node (at_proc w j)"
  shows "\<not> (pr_phase (at_proc w i) = Up \<and> pr_phase (at_proc w j) = Up)"
proof -
  have "inv_identity w" using own_run_invs [OF assms(1,2)] by simp
  moreover have "rivals (at_proc w i) (at_proc w j)"
    using assms(5-7) by (cases "pr_role (at_proc w i)"; cases "pr_role (at_proc w j)") (simp_all add: rivals_def)
  moreover have "clean n Up" for n by (simp add: clean_def)
  ultimately show ?thesis using assms(3,4) unfolding inv_identity_def by metis
qed

lemma holds_user_iff:
  assumes "inv_user w"
  shows "ow_user_lock w (u, r) \<noteq> Unlocked \<longleftrightarrow>
    (\<exists>j < length (ow_procs w). pr_user (at_proc w j) = u \<and> pr_role (at_proc w j) = r \<and> holds_user (pr_phase (at_proc w j)))"
proof
  assume "ow_user_lock w (u, r) \<noteq> Unlocked"
  then obtain j where "ow_user_lock w (u, r) = LockedBy j"
    using inv_userD(3) [OF assms] by (cases "ow_user_lock w (u, r)") auto
  from inv_userD(2) [OF assms this] show "\<exists>j < length (ow_procs w). pr_user (at_proc w j) = u \<and> pr_role (at_proc w j) = r
      \<and> holds_user (pr_phase (at_proc w j))" by blast
next
  assume "\<exists>j < length (ow_procs w). pr_user (at_proc w j) = u \<and> pr_role (at_proc w j) = r \<and> holds_user (pr_phase (at_proc w j))"
  then show "ow_user_lock w (u, r) \<noteq> Unlocked" using inv_userD(1) [OF assms] by force
qed


section \<open>Runs\<close>

text \<open>Executions as lists of turns; \<open>k\<close> turns of process \<open>i\<close> in a row.\<close>

definition turns :: "bool \<Rightarrow> own_env \<Rightarrow> nat \<Rightarrow> nat \<Rightarrow> own_world \<Rightarrow> own_world" where
  "turns m en i k w = ((own_act m i en) ^^ k) w"

lemma own_act_len: "i < length (ow_procs w) \<Longrightarrow> length (ow_procs (own_act m i en w)) = length (ow_procs w)"
  using own_act_frame by (simp add: only_proc_def)

lemma run_turns:
  "own_run m reliable w0 w \<Longrightarrow> i < length (ow_procs w) \<Longrightarrow> (reliable \<longrightarrow> en_writes en) \<Longrightarrow>
     own_run m reliable w0 (turns m en i k w) \<and> length (ow_procs (turns m en i k w)) = length (ow_procs w)"
  by (induction k) (auto simp: turns_def own_act_len intro: own_step)

definition quiet :: own_env where
  "quiet = \<lparr>en_contended = False, en_writes = True\<rparr>"

definition full_disk :: own_env where
  "full_disk = \<lparr>en_contended = False, en_writes = False\<rparr>"

definition one_key :: "bool \<Rightarrow> own_world" where
  "one_key elevated =
     \<lparr>ow_user_lock = (\<lambda>_. Unlocked), ow_machine_file = (\<lambda>_. True), ow_machine_lock = (\<lambda>_. Unlocked),
       ow_user_record = (\<lambda>_. None), ow_machine_record = (\<lambda>_. None),
       ow_procs = [\<lparr>pr_user = 1, pr_role = Access, pr_elevated = False, pr_node = ''k'', pr_phase = NotStarted, pr_machine = None\<rparr>,
                   \<lparr>pr_user = (if elevated then 0 else 1), pr_role = Serve, pr_elevated = elevated, pr_node = ''k'',
                     pr_phase = NotStarted, pr_machine = None\<rparr>]\<rparr>"

lemma one_key_fresh: "own_fresh (one_key e)"
  by (auto simp: own_fresh_def one_key_def)

lemma two_turns:
  assumes "reliable \<longrightarrow> en_writes en"
  shows "own_run m reliable (one_key e) (turns m en 1 b (turns m en 0 a (one_key e)))"
proof -
  have "length (ow_procs (one_key e)) = 2" by (simp add: one_key_def)
  with run_turns [OF own_start, where w = "one_key e" and i = 0 and k = a, OF _ assms] show ?thesis
    using run_turns [where i = 1 and k = b, OF _ _ assms] by simp
qed

lemma second_start_refused:
  "map pr_phase (ow_procs (turns False quiet 1 13 (turns False quiet 0 9 (one_key False)))) = [Up, Gone]"
  by code_simp

lemma first_only:
  "map pr_phase (ow_procs (turns False quiet 1 1 (turns False quiet 0 9 (one_key False)))) = [Up, ClaimUser 1]"
  by code_simp

text \<open>The limits of the identity check. When the owner records cannot be written, or when a user process
publishes below the tier where the system service looks for it, both roles run with one key.\<close>

lemma unwritten_records_break_identity:
  "own_run False False (one_key False) (turns False full_disk 1 10 (turns False full_disk 0 9 (one_key False)))"
  "map pr_phase (ow_procs (turns False full_disk 1 10 (turns False full_disk 0 9 (one_key False)))) = [Up, Up]"
proof -
  show "own_run False False (one_key False) (turns False full_disk 1 10 (turns False full_disk 0 9 (one_key False)))"
    by (rule two_turns) simp
  show "map pr_phase (ow_procs (turns False full_disk 1 10 (turns False full_disk 0 9 (one_key False)))) = [Up, Up]"
    by code_simp
qed

lemma system_service_misses_user_identity:
  "own_run True True (one_key True) (turns True quiet 1 11 (turns True quiet 0 10 (one_key True)))"
  "map pr_phase (ow_procs (turns True quiet 1 11 (turns True quiet 0 10 (one_key True)))) = [Up, Up]"
proof -
  show "own_run True True (one_key True) (turns True quiet 1 11 (turns True quiet 0 10 (one_key True)))"
    by (rule two_turns) (simp add: quiet_def)
  show "map pr_phase (ow_procs (turns True quiet 1 11 (turns True quiet 0 10 (one_key True)))) = [Up, Up]"
    by code_simp
qed

section \<open>Witnesses\<close>

lemma identity_runs_once_witness:
  "\<exists>w. own_run False True (one_key False) w \<and> map pr_phase (ow_procs w) = [Up, Gone] \<and>
     \<not> (pr_phase (at_proc w 0) = Up \<and> pr_phase (at_proc w 1) = Up)"
proof -
  obtain w where run: "own_run False True (one_key False) w"
    and data: "map (\<lambda>p. (pr_user p, pr_role p, pr_node p, pr_phase p)) (ow_procs w) =
      [(1, Access, ''k'', Up), (1, Serve, ''k'', Gone)]"
  proof
    show "own_run False True (one_key False) (turns False quiet 1 13 (turns False quiet 0 9 (one_key False)))"
      by (rule two_turns) (simp add: quiet_def)
    show "map (\<lambda>p. (pr_user p, pr_role p, pr_node p, pr_phase p))
        (ow_procs (turns False quiet 1 13 (turns False quiet 0 9 (one_key False)))) =
      [(1, Access, ''k'', Up), (1, Serve, ''k'', Gone)]" by code_simp
  qed
  then obtain a b where w: "ow_procs w = [a, b]" and ab: "pr_user a = 1" "pr_role a = Access" "pr_node a = ''k''"
    "pr_phase a = Up" "pr_user b = 1" "pr_role b = Serve" "pr_node b = ''k''" "pr_phase b = Gone"
    by (auto simp: map_eq_Cons_conv)
  from identity_runs_once [OF run one_key_fresh, of 0 1] run ab show ?thesis
    by (intro exI [of _ w]) (simp add: w)
qed


text \<open>A user process that claimed before the machine lock file existed, and the elevated process that
then created it, run one role at once.\<close>

definition late_service :: own_world where
  "late_service =
     \<lparr>ow_user_lock = (\<lambda>_. Unlocked), ow_machine_file = (\<lambda>_. False), ow_machine_lock = (\<lambda>_. Unlocked),
       ow_user_record = (\<lambda>_. None), ow_machine_record = (\<lambda>_. None),
       ow_procs = [\<lparr>pr_user = 1, pr_role = Serve, pr_elevated = False, pr_node = ''a'', pr_phase = NotStarted, pr_machine = None\<rparr>,
                   \<lparr>pr_user = 0, pr_role = Serve, pr_elevated = True, pr_node = ''b'', pr_phase = NotStarted, pr_machine = None\<rparr>]\<rparr>"

lemma late_service_fresh: "own_fresh late_service"
  by (auto simp: own_fresh_def late_service_def)

lemma role_runs_once_witness:
  "\<exists>w. own_run True True late_service w \<and> map pr_phase (ow_procs w) = [Up, Up] \<and>
     pr_elevated (at_proc w 1) \<and> pr_machine (at_proc w 0) = Some MachineAbsent"
proof -
  let ?t = "turns True quiet 1 10 (turns True quiet 0 10 late_service)"
  obtain w where run: "own_run True True late_service w"
    and data: "map (\<lambda>p. (pr_role p, pr_phase p, pr_elevated p)) (ow_procs w) = [(Serve, Up, False), (Serve, Up, True)]"
  proof
    have two: "length (ow_procs late_service) = 2" by (simp add: late_service_def)
    have q: "True \<longrightarrow> en_writes quiet" by (simp add: quiet_def)
    from run_turns [OF own_start _ q, where w = late_service and i = 0 and k = 10] two
    show "own_run True True late_service ?t"
      using run_turns [OF _ _ q, where i = 1 and k = 10] by simp
    show "map (\<lambda>p. (pr_role p, pr_phase p, pr_elevated p)) (ow_procs ?t) = [(Serve, Up, False), (Serve, Up, True)]"
      by code_simp
  qed
  then obtain a b where w: "ow_procs w = [a, b]" and ab: "pr_role a = Serve" "pr_phase a = Up"
    "pr_role b = Serve" "pr_phase b = Up" "pr_elevated b"
    by (auto simp: map_eq_Cons_conv)
  from role_runs_once [OF run late_service_fresh, of 1 0] ab run show ?thesis
    by (intro exI [of _ w]) (simp add: w past_claim_def)
qed

end
