(* ===== verification/Trust.thy ===== *)
theory Trust
  imports TextLib ConfigOps
begin

text \<open>
  The trust policy of a system service (\<open>crates/host/src/service/trust.rs\<close>): the checked
  descent from the root directory to a file, reading through it, publishing and removing a
  file in a checked directory, and loading a configuration.

  A file tree is a map of inodes with the root directory at number 0. Everybody who is neither
  root nor the trusted user is an adversary, whose possible moves are the relation \<open>adversary\<close>.
\<close>

section \<open>Inodes\<close>

datatype body = DirBody "string \<Rightarrow> nat option" | FileBody string | LinkBody string | OtherBody

record inode =
  i_owner :: u32
  i_perm :: u32
  i_body :: body

type_synonym tree = "nat \<Rightarrow> inode option"

definition S_IFMT :: u32 where
  "S_IFMT = 0xF000"

definition S_IFDIR :: u32 where
  "S_IFDIR = 0x4000"

definition S_IFREG :: u32 where
  "S_IFREG = 0x8000"

definition S_ISVTX :: u32 where
  "S_ISVTX = 0x200"

definition WRITABLE_BY_OTHERS :: u32 where
  "WRITABLE_BY_OTHERS = 0x12"

unbundle bit_operations_syntax

text \<open>\<open>fstat\<close>: the type bits come from what the inode is.\<close>

definition st_mode :: "inode \<Rightarrow> u32" where
  "st_mode ino =
     (case i_body ino of DirBody _ \<Rightarrow> 0x4000 | FileBody _ \<Rightarrow> 0x8000 | LinkBody _ \<Rightarrow> 0xA000 | OtherBody \<Rightarrow> 0x1000)
       OR (i_perm ino AND 0xFFF)"

record entry =
  e_ino :: nat
  e_path :: path
  e_owner :: u32
  e_mode :: u32

definition entry_new :: "nat \<Rightarrow> inode \<Rightarrow> path \<Rightarrow> entry" where
  "entry_new i ino p = \<lparr>e_ino = i, e_path = p, e_owner = i_owner ino, e_mode = st_mode ino\<rparr>"

datatype trust_error =
    CannotOpenRoot
  | NotAbsolute path
  | NotCanonical path
  | NotPlain path bool
  | UnsafeDirectory path bool path
  | WrongKind path bool
  | UnsafeFinal path bool
  | DirMissing path
  | ReadRefused path
  | CannotCreate string
  | CannotWrite string
  | CannotFinalize string
  | CannotRemove string
  | NulByte string

section \<open>The checked descent\<close>

definition trusted :: "u32 \<Rightarrow> u32 \<Rightarrow> bool" where
  "trusted owner trusted_uid \<longleftrightarrow> owner = 0 \<or> owner = trusted_uid"

text \<open>\<open>openat\<close> by root with \<open>O_NOFOLLOW\<close>: refused for a missing name, a symbolic link, and, when a directory
is asked for, for anything else; a name with a NUL byte is not a name.\<close>

definition open_child :: "tree \<Rightarrow> nat \<Rightarrow> string \<Rightarrow> bool \<Rightarrow> (nat \<times> inode) option" where
  "open_child fs parent name directory =
     (case fs parent of
        Some p \<Rightarrow>
          (case i_body p of
             DirBody es \<Rightarrow>
               if CHR 0x00 \<in> set name then None
               else (case es name of
                       None \<Rightarrow> None
                     | Some j \<Rightarrow>
                         (case fs j of
                            None \<Rightarrow> None
                          | Some ino \<Rightarrow>
                              (case i_body ino of
                                 LinkBody _ \<Rightarrow> None
                               | DirBody _ \<Rightarrow> Some (j, ino)
                               | _ \<Rightarrow> if directory then None else Some (j, ino))))
           | _ \<Rightarrow> None)
      | None \<Rightarrow> None)"

definition check_parent :: "entry \<Rightarrow> entry \<Rightarrow> u32 \<Rightarrow> trust_error + unit" where
  "check_parent parent child trusted_uid =
     (let bad_owner = \<not> trusted (e_owner parent) trusted_uid;
          writable = (e_mode parent AND WRITABLE_BY_OTHERS \<noteq> 0);
          sticky_protects = (e_mode parent AND S_ISVTX \<noteq> 0 \<and> trusted (e_owner child) trusted_uid)
      in if bad_owner \<or> writable \<and> \<not> sticky_protects
         then Inl (UnsafeDirectory (e_path parent) bad_owner (e_path child))
         else Inr ())"

definition check_final :: "entry \<Rightarrow> u32 \<Rightarrow> bool \<Rightarrow> trust_error + unit" where
  "check_final entry trusted_uid want_dir =
     (let kind = e_mode entry AND S_IFMT
      in if want_dir \<and> kind \<noteq> S_IFDIR \<or> \<not> want_dir \<and> kind \<noteq> S_IFREG then Inl (WrongKind (e_path entry) want_dir)
         else if \<not> trusted (e_owner entry) trusted_uid \<or> e_mode entry AND WRITABLE_BY_OTHERS \<noteq> 0
         then Inl (UnsafeFinal (e_path entry) want_dir)
         else Inr ())"

fun walk_from :: "tree \<Rightarrow> u32 \<Rightarrow> bool \<Rightarrow> entry \<Rightarrow> string list \<Rightarrow> trust_error + entry" where
  "walk_from fs uid want_dir current [] =
     (case check_final current uid want_dir of Inl e \<Rightarrow> Inl e | Inr _ \<Rightarrow> Inr current)"
| "walk_from fs uid want_dir current (name # names) =
     (let directory = (names \<noteq> [] \<or> want_dir); child_path = path_join (e_path current) name
      in case open_child fs (e_ino current) name directory of
           None \<Rightarrow> Inl (NotPlain child_path directory)
         | Some (j, ino) \<Rightarrow>
             (let child = entry_new j ino child_path
              in case check_parent current child uid of
                   Inl e \<Rightarrow> Inl e
                 | Inr _ \<Rightarrow> walk_from fs uid want_dir child names))"

fun normal_names :: "path \<Rightarrow> comp list \<Rightarrow> trust_error + string list" where
  "normal_names p [] = Inr []"
| "normal_names p (RootDir # cs) = normal_names p cs"
| "normal_names p (NormalComp n # cs) = map_sum id (\<lambda>ns. n # ns) (normal_names p cs)"
| "normal_names p (_ # cs) = Inl (NotCanonical p)"

definition is_absolute :: "path \<Rightarrow> bool" where
  "is_absolute p \<longleftrightarrow> (case components p of RootDir # _ \<Rightarrow> True | _ \<Rightarrow> False)"

definition walk :: "tree \<Rightarrow> path \<Rightarrow> u32 \<Rightarrow> bool \<Rightarrow> trust_error + entry" where
  "walk fs p trusted_uid want_dir =
     (if \<not> is_absolute p then Inl (NotAbsolute p)
      else case normal_names p (components p) of
        Inl e \<Rightarrow> Inl e
      | Inr names \<Rightarrow>
          (case fs 0 of
             None \<Rightarrow> Inl CannotOpenRoot
           | Some root \<Rightarrow> walk_from fs trusted_uid want_dir (entry_new 0 root ''/'') names))"

section \<open>Reading, publishing and removing\<close>

definition read_file :: "tree \<Rightarrow> nat \<Rightarrow> string option" where
  "read_file fs i =
     (case fs i of
        Some ino \<Rightarrow> (case i_body ino of FileBody s \<Rightarrow> if utf8_valid (bytes_of s) then Some s else None | _ \<Rightarrow> None)
      | None \<Rightarrow> None)"

definition read_verified :: "tree \<Rightarrow> path \<Rightarrow> u32 \<Rightarrow> trust_error + string" where
  "read_verified fs p trusted_uid =
     (case walk fs p trusted_uid False of
        Inl e \<Rightarrow> Inl e
      | Inr entry \<Rightarrow> (case read_file fs (e_ino entry) of Some s \<Rightarrow> Inr s | None \<Rightarrow> Inl (ReadRefused p)))"

text \<open>\<open>exists\<close> is what \<open>Path::exists\<close> says, which follows links.\<close>

definition verify_dir :: "tree \<Rightarrow> bool \<Rightarrow> path \<Rightarrow> u32 \<Rightarrow> trust_error + unit" where
  "verify_dir fs exists p trusted_uid =
     (if \<not> exists then Inl (DirMissing p) else map_sum id (\<lambda>_. ()) (walk fs p trusted_uid True))"

definition dir_update :: "nat \<Rightarrow> string \<Rightarrow> nat option \<Rightarrow> tree \<Rightarrow> tree" where
  "dir_update d name j fs =
     (case fs d of
        Some ino \<Rightarrow> (case i_body ino of
                       DirBody es \<Rightarrow> fs(d \<mapsto> ino\<lparr>i_body := DirBody (es(name := j))\<rparr>)
                     | _ \<Rightarrow> fs)
      | None \<Rightarrow> fs)"

definition dir_lookup :: "tree \<Rightarrow> nat \<Rightarrow> string \<Rightarrow> nat option" where
  "dir_lookup fs d name =
     (case fs d of Some ino \<Rightarrow> (case i_body ino of DirBody es \<Rightarrow> es name | _ \<Rightarrow> None) | None \<Rightarrow> None)"

text \<open>What the system does with the calls of \<open>publish\<close>: the number a created inode gets, how much of a failing
write arrives, whether the rename and the cleanup work.\<close>

record publish_env =
  pu_creates :: bool
  pu_fresh :: nat
  pu_write_stops :: "nat option"
  pu_renames :: bool
  pu_unlinks :: bool
  pu_umask :: u32

definition cstring :: "string \<Rightarrow> trust_error + string" where
  "cstring s = (if CHR 0x00 \<in> set s then Inl (NulByte s) else Inr s)"

definition publish ::
    "publish_env \<Rightarrow> tree \<Rightarrow> path \<Rightarrow> u32 \<Rightarrow> string \<Rightarrow> string \<Rightarrow> string \<Rightarrow> (trust_error + unit) \<times> tree" where
  "publish env fs dir trusted_uid name temp contents =
     (case walk fs dir trusted_uid True of
        Inl e \<Rightarrow> (Inl e, fs)
      | Inr entry \<Rightarrow>
          (let d = e_ino entry
           in if isl (cstring temp) then (Inl (NulByte temp), fs)
              else if isl (cstring name) then (Inl (NulByte name), fs)
              else if \<not> pu_creates env \<or> dir_lookup fs d temp \<noteq> None then (Inl (CannotCreate temp), fs)
              else
                (let j = pu_fresh env;
                     file = (\<lambda>s. \<lparr>i_owner = 0, i_perm = 0x1A4 AND NOT (pu_umask env), i_body = FileBody s\<rparr>);
                     created = (\<lambda>s. (dir_update d temp (Some j) fs)(j \<mapsto> file s));
                     undo = (\<lambda>t. if pu_unlinks env then dir_update d temp None t else t)
                 in case pu_write_stops env of
                      Some n \<Rightarrow> (Inl (CannotWrite temp), undo (created (take n contents)))
                    | None \<Rightarrow>
                        if \<not> pu_renames env then (Inl (CannotFinalize name), undo (created contents))
                        else (Inr (), dir_update d temp None (dir_update d name (Some j) (created contents))))))"

definition read_in :: "tree \<Rightarrow> path \<Rightarrow> u32 \<Rightarrow> string \<Rightarrow> string option" where
  "read_in fs dir trusted_uid name =
     (case walk fs dir trusted_uid True of
        Inl _ \<Rightarrow> None
      | Inr entry \<Rightarrow>
          (case open_child fs (e_ino entry) name False of
             None \<Rightarrow> None
           | Some (j, _) \<Rightarrow> read_file fs j))"

definition remove_in :: "bool \<Rightarrow> tree \<Rightarrow> path \<Rightarrow> u32 \<Rightarrow> string \<Rightarrow> (trust_error + unit) \<times> tree" where
  "remove_in unlinks fs dir trusted_uid name =
     (case walk fs dir trusted_uid True of
        Inl e \<Rightarrow> (Inl e, fs)
      | Inr entry \<Rightarrow>
          (case (cstring name, dir_lookup fs (e_ino entry) name) of
             (Inl e, _) \<Rightarrow> (Inl e, fs)
           | (Inr _, None) \<Rightarrow> (Inr (), fs)
           | (Inr _, Some _) \<Rightarrow>
               if unlinks then (Inr (), dir_update (e_ino entry) name None fs) else (Inl (CannotRemove name), fs)))"

section \<open>Loading a configuration\<close>

datatype load_error = TrustRefused trust_error | UidNotNumeric | UidNotText | Unpinned | LoadFailed | NoSecretKey path

text \<open>The environment of a process: whether it runs as root, its variables, and for the trusted uid whether the
variable is set to something that is not text.\<close>

record service_env =
  sv_root :: bool
  sv_var :: "string \<Rightarrow> string option"
  sv_not_unicode :: bool

definition ENV_TRUSTED_UID :: string where
  "ENV_TRUSTED_UID = ''IROH_TUNNEL_TRUSTED_UID''"

definition ENV_STATE_DIR :: string where
  "ENV_STATE_DIR = ''IROH_TUNNEL_STATE_DIR''"

definition trusted_uid_from_env :: "service_env \<Rightarrow> load_error + u32 option" where
  "trusted_uid_from_env env =
     (if sv_not_unicode env then Inl UidNotText
      else case sv_var env ENV_TRUSTED_UID of
        None \<Rightarrow> Inr None
      | Some value \<Rightarrow>
          (case parse_uint (2 ^ 32) (str_trim value) of
             Some n \<Rightarrow> Inr (Some (word_of_nat n))
           | None \<Rightarrow> Inl UidNotNumeric))"

definition is_unpinned_service :: "bool \<Rightarrow> (string \<Rightarrow> bool) \<Rightarrow> bool" where
  "is_unpinned_service root env_set \<longleftrightarrow>
     root \<and> list_ex env_set [''INVOCATION_ID'', ''XPC_SERVICE_NAME'']"

text \<open>\<open>plain\<close> is the unverified load, \<open>parse\<close> the document of a text and \<open>key\<close> its secret key.\<close>

definition load_config ::
    "service_env \<Rightarrow> tree \<Rightarrow> bool \<Rightarrow> (string \<Rightarrow> 'c option) \<Rightarrow> ('c \<Rightarrow> string) \<Rightarrow> 'c option \<Rightarrow> path \<Rightarrow> load_error + 'c" where
  "load_config env fs state_exists parse key plain p =
     (case trusted_uid_from_env env of
        Inl e \<Rightarrow> Inl e
      | Inr None \<Rightarrow>
          if is_unpinned_service (sv_root env) (\<lambda>n. sv_var env n \<noteq> None) then Inl Unpinned
          else (case plain of Some c \<Rightarrow> Inr c | None \<Rightarrow> Inl LoadFailed)
      | Inr (Some uid) \<Rightarrow>
          (case (case sv_var env ENV_STATE_DIR of
                   None \<Rightarrow> Inr ()
                 | Some state \<Rightarrow> if state = [] then Inr () else verify_dir fs state_exists state uid) of
             Inl e \<Rightarrow> Inl (TrustRefused e)
           | Inr _ \<Rightarrow>
               (case read_verified fs p uid of
                  Inl e \<Rightarrow> Inl (TrustRefused e)
                | Inr txt \<Rightarrow>
                    (case parse txt of
                       None \<Rightarrow> Inl LoadFailed
                     | Some cfg \<Rightarrow> if key cfg = [] then Inl (NoSecretKey p) else Inr cfg))))"

section \<open>The adversary\<close>

text \<open>
  What a user other than root and the trusted one may do. Write to a file that is theirs or that
  group or others may write (whether they are in the group is not asked), change the mode of what
  is theirs, create inodes of their own, and put, replace or remove an entry of a directory that is
  theirs or writable by group or others, except that in a sticky directory an existing entry can be
  touched only by the owner of the directory or of the entry.
\<close>

definition may_write :: "u32 \<Rightarrow> inode \<Rightarrow> bool" where
  "may_write u ino \<longleftrightarrow> i_owner ino = u \<or> i_perm ino AND WRITABLE_BY_OTHERS \<noteq> 0"

definition may_replace :: "u32 \<Rightarrow> tree \<Rightarrow> inode \<Rightarrow> nat option \<Rightarrow> bool" where
  "may_replace u fs dir old \<longleftrightarrow>
     (case old of
        None \<Rightarrow> True
      | Some j \<Rightarrow> i_perm dir AND S_ISVTX = 0 \<or> i_owner dir = u \<or> (\<exists>c. fs j = Some c \<and> i_owner c = u))"

inductive adv_move :: "u32 \<Rightarrow> tree \<Rightarrow> tree \<Rightarrow> bool" for uid where
  adv_write: "\<not> trusted u uid \<Longrightarrow> fs i = Some ino \<Longrightarrow> may_write u ino \<Longrightarrow> i_body ino = FileBody s \<Longrightarrow>
    adv_move uid fs (fs(i \<mapsto> ino\<lparr>i_body := FileBody s'\<rparr>))"
| adv_chmod: "\<not> trusted u uid \<Longrightarrow> fs i = Some ino \<Longrightarrow> i_owner ino = u \<Longrightarrow>
    adv_move uid fs (fs(i \<mapsto> ino\<lparr>i_perm := m\<rparr>))"
| adv_create: "\<not> trusted u uid \<Longrightarrow> fs i = None \<Longrightarrow>
    adv_move uid fs (fs(i \<mapsto> \<lparr>i_owner = u, i_perm = m, i_body = b\<rparr>))"
| adv_entry: "\<not> trusted u uid \<Longrightarrow> fs d = Some ino \<Longrightarrow> may_write u ino \<Longrightarrow> i_body ino = DirBody es \<Longrightarrow>
    may_replace u fs ino (es n) \<Longrightarrow> adv_move uid fs (fs(d \<mapsto> ino\<lparr>i_body := DirBody (es(n := j))\<rparr>))"

abbreviation adversary :: "u32 \<Rightarrow> tree \<Rightarrow> tree \<Rightarrow> bool" where
  "adversary uid \<equiv> (adv_move uid)\<^sup>*\<^sup>*"

section \<open>What the adversary cannot change\<close>

fun body_kind :: "body \<Rightarrow> nat" where
  "body_kind (DirBody _) = 0"
| "body_kind (FileBody _) = 1"
| "body_kind (LinkBody _) = 2"
| "body_kind OtherBody = 3"

lemma body_kind_iff:
  "body_kind b = 0 \<longleftrightarrow> (\<exists>es. b = DirBody es)" "body_kind b = 1 \<longleftrightarrow> (\<exists>s. b = FileBody s)"
  "body_kind b = 2 \<longleftrightarrow> (\<exists>s. b = LinkBody s)"
  by (cases b; simp)+

text \<open>One inode, before and after: the owner and the kind stay, and so does the mode of what a trusted user owns.\<close>

definition kept :: "u32 \<Rightarrow> inode \<Rightarrow> inode \<Rightarrow> bool" where
  "kept uid a b \<longleftrightarrow>
     i_owner b = i_owner a \<and> body_kind (i_body b) = body_kind (i_body a) \<and>
     (trusted (i_owner a) uid \<longrightarrow> i_perm b = i_perm a)"

lemma move_inode: "adv_move uid fs fs' \<Longrightarrow> fs i = Some a \<Longrightarrow> \<exists>b. fs' i = Some b \<and> kept uid a b"
  by (induction rule: adv_move.induct) (auto simp: kept_def)

lemma adv_inode: "adversary uid fs fs' \<Longrightarrow> fs i = Some a \<Longrightarrow> \<exists>b. fs' i = Some b \<and> kept uid a b"
proof (induction rule: rtranclp_induct)
  case base
  then show ?case by (simp add: kept_def)
next
  case (step y z)
  then obtain b where "y i = Some b" "kept uid a b" by blast
  with move_inode [OF step.hyps(2)] show ?case by (fastforce simp: kept_def)
qed

text \<open>A file of a trusted user that others may not write.\<close>

lemma move_file:
  assumes "adv_move uid fs fs'" "fs i = Some a" "trusted (i_owner a) uid" "i_perm a AND WRITABLE_BY_OTHERS = 0"
  shows "\<exists>b. fs' i = Some b \<and> kept uid a b \<and> i_body b = i_body a"
  using assms by (induction rule: adv_move.induct) (auto simp: kept_def may_write_def)

lemma adv_file:
  assumes "adversary uid fs fs'" "fs i = Some a" "trusted (i_owner a) uid" "i_perm a AND WRITABLE_BY_OTHERS = 0"
  shows "\<exists>b. fs' i = Some b \<and> kept uid a b \<and> i_body b = i_body a"
  using assms(1)
proof (induction rule: rtranclp_induct)
  case base
  then show ?case using assms(2) by (simp add: kept_def)
next
  case (step y z)
  then obtain b where b: "y i = Some b" "kept uid a b" "i_body b = i_body a" by blast
  then have "trusted (i_owner b) uid" "i_perm b AND WRITABLE_BY_OTHERS = 0"
    using assms(3,4) by (simp_all add: kept_def)
  from move_file [OF step.hyps(2) b(1) this] b assms(3) show ?case by (auto simp: kept_def)
qed

text \<open>An entry of a directory of a trusted user, when the directory is not writable by others, or is sticky and
the entry is a trusted user's.\<close>

definition entry_safe :: "u32 \<Rightarrow> inode \<Rightarrow> inode \<Rightarrow> bool" where
  "entry_safe uid dir child \<longleftrightarrow>
     trusted (i_owner dir) uid \<and>
     (i_perm dir AND WRITABLE_BY_OTHERS = 0 \<or> i_perm dir AND S_ISVTX \<noteq> 0 \<and> trusted (i_owner child) uid)"

lemma move_entry:
  assumes "adv_move uid fs fs'" "fs d = Some dir" "i_body dir = DirBody es" "es n = Some j" "fs j = Some c"
    and "entry_safe uid dir c"
  shows "\<exists>dir' es'. fs' d = Some dir' \<and> i_body dir' = DirBody es' \<and> es' n = Some j"
  using assms
  by (induction rule: adv_move.induct) (auto simp: may_write_def may_replace_def entry_safe_def)

lemma entry_safe_kept:
  "entry_safe uid dir c \<Longrightarrow> kept uid dir dir' \<Longrightarrow> kept uid c c' \<Longrightarrow> entry_safe uid dir' c'"
  by (auto simp: entry_safe_def kept_def)

lemma adv_entry_kept:
  assumes "adversary uid fs fs'" "fs d = Some dir" "i_body dir = DirBody es" "es n = Some j" "fs j = Some c"
    and "entry_safe uid dir c"
  shows "\<exists>dir' es'. fs' d = Some dir' \<and> i_body dir' = DirBody es' \<and> es' n = Some j"
  using assms(1)
proof (induction rule: rtranclp_induct)
  case base
  then show ?case using assms(2-4) by blast
next
  case (step y z)
  then obtain dir' es' where d: "y d = Some dir'" "i_body dir' = DirBody es'" "es' n = Some j" by blast
  obtain c' where c: "y j = Some c'" "kept uid c c'" using adv_inode [OF step.hyps(1) assms(5)] by blast
  have "kept uid dir dir'" using adv_inode [OF step.hyps(1) assms(2)] d(1) by auto
  then have "entry_safe uid dir' c'" using entry_safe_kept assms(6) c(2) by blast
  from move_entry [OF step.hyps(2) d c(1) this] show ?case .
qed

section \<open>Modes\<close>

lemma st_mode_simps [simp]:
  "st_mode ino AND WRITABLE_BY_OTHERS = i_perm ino AND WRITABLE_BY_OTHERS"
  "st_mode ino AND S_ISVTX = i_perm ino AND S_ISVTX"
proof -
  have "(i_perm ino AND 0xFFF) AND 0x12 = i_perm ino AND (0xFFF AND 0x12)" by (rule and.assoc)
  then have "(i_perm ino AND 0xFFF) AND 0x12 = i_perm ino AND 0x12" by simp
  then show "st_mode ino AND WRITABLE_BY_OTHERS = i_perm ino AND WRITABLE_BY_OTHERS"
    by (cases "i_body ino") (simp_all add: st_mode_def WRITABLE_BY_OTHERS_def bit.conj_disj_distrib2)
  have "(i_perm ino AND 0xFFF) AND 0x200 = i_perm ino AND (0xFFF AND 0x200)" by (rule and.assoc)
  then have "(i_perm ino AND 0xFFF) AND 0x200 = i_perm ino AND 0x200" by simp
  then show "st_mode ino AND S_ISVTX = i_perm ino AND S_ISVTX"
    by (cases "i_body ino") (simp_all add: st_mode_def S_ISVTX_def bit.conj_disj_distrib2)
qed

lemma st_mode_kind:
  "st_mode ino AND S_IFMT = S_IFDIR \<longleftrightarrow> body_kind (i_body ino) = 0"
  "st_mode ino AND S_IFMT = S_IFREG \<longleftrightarrow> body_kind (i_body ino) = 1"
proof -
  have "(i_perm ino AND 0xFFF) AND 0xF000 = i_perm ino AND (0xFFF AND 0xF000)" by (rule and.assoc)
  then have "(i_perm ino AND 0xFFF) AND 0xF000 = 0" by simp
  then show "st_mode ino AND S_IFMT = S_IFDIR \<longleftrightarrow> body_kind (i_body ino) = 0"
    "st_mode ino AND S_IFMT = S_IFREG \<longleftrightarrow> body_kind (i_body ino) = 1"
    by (cases "i_body ino"; simp add: st_mode_def S_IFMT_def S_IFDIR_def S_IFREG_def bit.conj_disj_distrib2)+
qed

lemma entry_new_sel [simp]:
  "e_ino (entry_new i ino p) = i" "e_path (entry_new i ino p) = p" "e_owner (entry_new i ino p) = i_owner ino"
  "e_mode (entry_new i ino p) = st_mode ino"
  by (simp_all add: entry_new_def)

lemma entry_new_kept: "kept uid a b \<Longrightarrow> trusted (i_owner a) uid \<Longrightarrow> entry_new i b p = entry_new i a p"
  by (cases "i_body a"; cases "i_body b") (simp_all add: entry_new_def kept_def st_mode_def)

lemma check_parent_safe:
  "check_parent (entry_new d dir p) (entry_new j c q) uid = Inr () \<longleftrightarrow> entry_safe uid dir c"
  by (auto simp: check_parent_def entry_safe_def Let_def)

lemma check_final_Inr:
  "check_final (entry_new i ino p) uid want_dir = Inr () \<longleftrightarrow>
     body_kind (i_body ino) = (if want_dir then 0 else 1) \<and> trusted (i_owner ino) uid \<and>
     i_perm ino AND WRITABLE_BY_OTHERS = 0"
  by (auto simp: check_final_def Let_def st_mode_kind)

lemma open_child_Some:
  "open_child fs d n directory = Some (j, ino) \<longleftrightarrow>
     (\<exists>dir es. fs d = Some dir \<and> i_body dir = DirBody es \<and> CHR 0x00 \<notin> set n \<and> es n = Some j \<and> fs j = Some ino \<and>
        body_kind (i_body ino) \<noteq> 2 \<and> (directory \<longrightarrow> body_kind (i_body ino) = 0))"
  by (auto simp: open_child_def split: option.splits body.splits)

section \<open>Races\<close>

text \<open>The descent as it really happens: before every \<open>openat\<close>, and between it and the \<open>fstat\<close> of the new handle,
the adversary may have moved. The last tree is the one at the end of the descent.\<close>

inductive race :: "u32 \<Rightarrow> bool \<Rightarrow> tree \<Rightarrow> entry \<Rightarrow> string list \<Rightarrow> entry \<Rightarrow> tree \<Rightarrow> bool" for uid want_dir where
  race_done: "check_final current uid want_dir = Inr () \<Longrightarrow> race uid want_dir fs current [] current fs"
| race_next: "adversary uid fs fs1 \<Longrightarrow>
    open_child fs1 (e_ino current) name (names \<noteq> [] \<or> want_dir) = Some (j, opened) \<Longrightarrow>
    adversary uid fs1 fs2 \<Longrightarrow> fs2 j = Some ino \<Longrightarrow>
    check_parent current (entry_new j ino (path_join (e_path current) name)) uid = Inr () \<Longrightarrow>
    race uid want_dir fs2 (entry_new j ino (path_join (e_path current) name)) names e fs' \<Longrightarrow>
    race uid want_dir fs current (name # names) e fs'"

inductive_cases race_NilE: "race uid want_dir fs current [] e fs'"
inductive_cases race_ConsE: "race uid want_dir fs current (n # ns) e fs'"

text \<open>A handle the descent goes on from is a trusted user's.\<close>

lemma race_trusted: "race uid want_dir fs (entry_new i a p) names e fs' \<Longrightarrow> trusted (i_owner a) uid"
proof (cases names)
  case Nil
  moreover assume "race uid want_dir fs (entry_new i a p) names e fs'"
  ultimately show ?thesis by (auto elim!: race_NilE simp: check_final_Inr)
next
  case (Cons n ns)
  moreover assume "race uid want_dir fs (entry_new i a p) names e fs'"
  ultimately show ?thesis by (auto elim!: race_ConsE simp: check_parent_safe entry_safe_def)
qed

lemma race_later: "race uid want_dir fs current names e fs' \<Longrightarrow> adversary uid fs fs'"
  by (induction rule: race.induct) auto

text \<open>A handle that was checked describes its inode at every later time.\<close>

lemma handle_stays:
  assumes "adversary uid fs fs'" "fs i = Some a" "trusted (i_owner a) uid"
  shows "\<exists>b. fs' i = Some b \<and> kept uid a b \<and> entry_new i b p = entry_new i a p"
  using adv_inode [OF assms(1,2)] entry_new_kept [OF _ assms(3)] by blast

lemma race_sound:
  assumes "race uid want_dir fs current names e fs'" "fs i = Some a" "current = entry_new i a p"
    and "adversary uid fs' late"
  shows "walk_from late uid want_dir current names = Inr e \<and>
    (\<exists>b. fs' (e_ino e) = Some b \<and> body_kind (i_body b) = (if want_dir then 0 else 1) \<and> trusted (i_owner b) uid \<and>
       i_perm b AND WRITABLE_BY_OTHERS = 0)"
  using assms
proof (induction arbitrary: i a p rule: race.induct)
  case (race_done current fs)
  have c: "check_final (entry_new i a p) uid want_dir = Inr ()" using race_done by simp
  then have "body_kind (i_body a) = (if want_dir then 0 else 1) \<and> trusted (i_owner a) uid \<and>
      i_perm a AND WRITABLE_BY_OTHERS = 0" by (simp add: check_final_Inr)
  with c race_done show ?case by simp
next
  case (race_next fs fs1 current name names j opened fs2 ino e fs')
  let ?child = "entry_new j ino (path_join (e_path current) name)"
  have ih: "walk_from late uid want_dir ?child names = Inr e \<and>
      (\<exists>b. fs' (e_ino e) = Some b \<and> body_kind (i_body b) = (if want_dir then 0 else 1) \<and> trusted (i_owner b) uid \<and>
         i_perm b AND WRITABLE_BY_OTHERS = 0)"
    using race_next.IH [OF race_next.hyps(4) refl race_next.prems(3)] .
  have cur: "current = entry_new i a p" by (rule race_next.prems(2))
  have safe: "entry_safe uid a ino" using race_next.hyps(5) by (simp add: cur check_parent_safe)
  then have trust: "trusted (i_owner a) uid" by (simp add: entry_safe_def)
  obtain dir es where dir: "fs1 i = Some dir" "i_body dir = DirBody es" "CHR 0x00 \<notin> set name" "es name = Some j"
      "fs1 j = Some opened" "body_kind (i_body opened) \<noteq> 2" "names \<noteq> [] \<or> want_dir \<longrightarrow> body_kind (i_body opened) = 0"
    using race_next.hyps(2) by (auto simp: open_child_Some cur)
  have "kept uid a dir" using adv_inode [OF race_next.hyps(1) race_next.prems(1)] dir(1) by auto
  moreover have opened: "kept uid opened ino" using adv_inode [OF race_next.hyps(3) dir(5)] race_next.hyps(4) by auto
  ultimately have dsafe: "entry_safe uid dir opened" using safe by (auto simp: entry_safe_def kept_def)
  have to_late: "adversary uid fs2 late" using race_later [OF race_next.hyps(6)] race_next.prems(3) by simp
  then have all: "adversary uid fs1 late" using race_next.hyps(3) by simp
  obtain dir' es' where dir': "late i = Some dir'" "i_body dir' = DirBody es'" "es' name = Some j"
    using adv_entry_kept [OF all dir(1,2,4,5) dsafe] by blast
  have ino_trust: "trusted (i_owner ino) uid" by (rule race_trusted [OF race_next.hyps(6)])
  obtain ino' where ino': "late j = Some ino'" "kept uid ino ino'"
      "entry_new j ino' (path_join (e_path current) name) = ?child"
    using handle_stays [OF to_late race_next.hyps(4) ino_trust] by blast
  have "body_kind (i_body ino') = body_kind (i_body opened)" using opened ino'(2) by (simp add: kept_def)
  then have "open_child late (e_ino current) name (names \<noteq> [] \<or> want_dir) = Some (j, ino')"
    using dir dir' ino'(1) by (auto simp: open_child_Some cur)
  with ih ino'(3) race_next.hyps(5) show ?case by simp
qed

lemma walk_is_race:
  "walk_from fs uid want_dir current names = Inr e \<Longrightarrow> race uid want_dir fs current names e fs"
proof (induction names arbitrary: current)
  case Nil
  then show ?case by (auto split: sum.splits intro: race_done)
next
  case (Cons n ns)
  then obtain j ino where "open_child fs (e_ino current) n (ns \<noteq> [] \<or> want_dir) = Some (j, ino)"
      "check_parent current (entry_new j ino (path_join (e_path current) n)) uid = Inr ()"
      "walk_from fs uid want_dir (entry_new j ino (path_join (e_path current) n)) ns = Inr e"
    by (auto simp: Let_def split: option.splits sum.splits)
  with Cons.IH show ?case
    by (intro race_next [where ?fs1.0 = fs and ?fs2.0 = fs]) (auto simp: open_child_Some)
qed

text \<open>C32: checking and using a file cannot be raced. Root descends to a file while users other than root and the
trusted one act between all of its system calls. If the descent accepts, then at every later time, whatever those
users have done by then, the path still leads to the very inode that was opened, and the text read through the
handle is the text the file had when it was checked.\<close>

theorem verified_read_cannot_be_raced:
  assumes "race uid False before (entry_new 0 root ''/'') names e checked" and "before 0 = Some root"
    and "adversary uid checked late"
  shows "walk_from late uid False (entry_new 0 root ''/'') names = Inr e
    \<and> read_file late (e_ino e) = read_file checked (e_ino e)
    \<and> (\<exists>ino s. late (e_ino e) = Some ino \<and> i_body ino = FileBody s \<and> trusted (i_owner ino) uid)"
proof -
  have r: "walk_from late uid False (entry_new 0 root ''/'') names = Inr e"
    using race_sound [OF assms(1,2) refl assms(3)] by simp
  obtain b where b: "checked (e_ino e) = Some b" "body_kind (i_body b) = 1" "trusted (i_owner b) uid"
      "i_perm b AND WRITABLE_BY_OTHERS = 0"
    using race_sound [OF assms(1,2) refl assms(3)] by auto
  then obtain s where s: "i_body b = FileBody s" using body_kind_iff(2) by blast
  obtain b' where "late (e_ino e) = Some b'" "kept uid b b'" "i_body b' = i_body b"
    using adv_file [OF assms(3) b(1,3,4)] by blast
  with r b(1,3) s show ?thesis by (auto simp: read_file_def kept_def)
qed

text \<open>The same for the atomic descent.\<close>

lemma read_verified_stable:
  assumes "read_verified fs p uid = Inr s" and "adversary uid fs fs'"
  shows "read_verified fs' p uid = Inr s"
proof -
  obtain names root e where w: "is_absolute p" "normal_names p (components p) = Inr names" "fs 0 = Some root"
      "walk_from fs uid False (entry_new 0 root ''/'') names = Inr e" "read_file fs (e_ino e) = Some s"
    using assms(1) by (auto simp: read_verified_def walk_def split: sum.splits option.splits if_splits)
  note race = walk_is_race [OF w(4)]
  have late: "walk_from fs' uid False (entry_new 0 root ''/'') names = Inr e" "read_file fs' (e_ino e) = Some s"
    using race_sound [OF race w(3) refl assms(2)] w(5) adv_file [OF assms(2)] by (fastforce simp: read_file_def)+
  have "trusted (i_owner root) uid" by (rule race_trusted [OF race])
  then obtain root' where "fs' 0 = Some root'" "entry_new 0 root' ''/'' = entry_new 0 root ''/''"
    using handle_stays [OF assms(2) w(3)] by blast
  with late w(1,2) show ?thesis by (simp add: read_verified_def walk_def)
qed

section \<open>Publishing\<close>

lemma dir_update_other [simp]: "i \<noteq> d \<Longrightarrow> dir_update d n j fs i = fs i"
  by (auto simp: dir_update_def split: option.split body.split)

lemma dir_lookup_update:
  "fs d = Some ino \<Longrightarrow> i_body ino = DirBody es \<Longrightarrow>
     dir_lookup (dir_update d n j fs) d m = (if m = n then j else dir_lookup fs d m)"
  by (simp add: dir_update_def dir_lookup_def)

lemma dir_update_dir:
  "fs d = Some ino \<Longrightarrow> i_body ino = DirBody es \<Longrightarrow>
     dir_update d n j fs d = Some (ino\<lparr>i_body := DirBody (es(n := j))\<rparr>)"
  by (simp add: dir_update_def)

lemma dir_lookup_other [simp]: "i \<noteq> d \<Longrightarrow> dir_lookup (fs(i := x)) d n = dir_lookup fs d n"
  by (simp add: dir_lookup_def)

lemma walk_dir:
  assumes "walk fs p uid True = Inr e"
  shows "\<exists>ino es. fs (e_ino e) = Some ino \<and> i_body ino = DirBody es"
proof -
  obtain names root where w: "fs 0 = Some root" "walk_from fs uid True (entry_new 0 root ''/'') names = Inr e"
    using assms by (auto simp: walk_def split: sum.splits option.splits if_splits)
  from race_sound [OF walk_is_race [OF w(2)] w(1) refl rtranclp.rtrancl_refl] show ?thesis
    by (auto simp: body_kind_iff)
qed

text \<open>C33: publishing a status file as root writes nothing but that file. Whatever else is in the directory, links
planted by its owner included, every inode that existed and is not the directory is unchanged, and of the
directory only the entries of the file and of the temporary file. A successful publication leaves a new file of
root's with exactly the contents under the name; a failed one leaves the name as it was.\<close>

theorem publish_confined:
  assumes "fs (pu_fresh env) = None" and "name \<noteq> temp"
  shows "case publish env fs dir uid name temp contents of (r, fs') \<Rightarrow>
     (case walk fs dir uid True of
        Inl e \<Rightarrow> r = Inl e \<and> fs' = fs
      | Inr entry \<Rightarrow>
          (\<forall>i. i = e_ino entry \<or> fs i = None \<or> fs' i = fs i) \<and>
          (\<forall>n. n = name \<or> n = temp \<or> dir_lookup fs' (e_ino entry) n = dir_lookup fs (e_ino entry) n) \<and>
          (case r of
             Inr _ \<Rightarrow> dir_lookup fs' (e_ino entry) name = Some (pu_fresh env) \<and>
               dir_lookup fs' (e_ino entry) temp = None \<and>
               (\<exists>perm. fs' (pu_fresh env) = Some \<lparr>i_owner = 0, i_perm = perm, i_body = FileBody contents\<rparr>)
           | Inl _ \<Rightarrow> dir_lookup fs' (e_ino entry) name = dir_lookup fs (e_ino entry) name))"
proof (cases "walk fs dir uid True")
  case (Inl e)
  then show ?thesis by (simp add: publish_def)
next
  case (Inr entry)
  let ?d = "e_ino entry" and ?j = "pu_fresh env"
  obtain ino es where d: "fs ?d = Some ino" "i_body ino = DirBody es" using walk_dir [OF Inr] by blast
  then have j: "?d \<noteq> ?j" using assms(1) by auto
  have d1: "(dir_update ?d temp (Some ?j) fs)(?j \<mapsto> f) = dir_update ?d temp (Some ?j) (fs(?j \<mapsto> f))" for f
    using j d by (auto simp: dir_update_def fun_eq_iff)
  have df: "(fs(?j \<mapsto> f)) ?d = Some ino" for f using d j by simp
  note l1 = dir_lookup_update [where fs = "fs(?j \<mapsto> f)" for f, OF df d(2)]
  have u1: "dir_update ?d n k (fs(?j \<mapsto> f)) ?d = Some (ino\<lparr>i_body := DirBody (es(n := k))\<rparr>)" for n k f
    by (rule dir_update_dir [where fs = "fs(?j \<mapsto> f)", OF df d(2)])
  have l2: "dir_lookup (dir_update ?d n2 k2 (dir_update ?d n k (fs(?j \<mapsto> f)))) ?d m =
      (if m = n2 then k2 else dir_lookup (dir_update ?d n k (fs(?j \<mapsto> f))) ?d m)" for n2 k2 n k f m
    by (rule dir_lookup_update [where fs = "dir_update ?d n k (fs(?j \<mapsto> f))", OF u1]) simp
  have u2: "dir_update ?d n2 k2 (dir_update ?d n k (fs(?j \<mapsto> f))) ?d =
      Some (ino\<lparr>i_body := DirBody (es(n := k, n2 := k2))\<rparr>)" for n2 k2 n k f
    using dir_update_dir [where fs = "dir_update ?d n k (fs(?j \<mapsto> f))", OF u1] by simp
  have l3: "dir_lookup (dir_update ?d n3 k3 (dir_update ?d n2 k2 (dir_update ?d n k (fs(?j \<mapsto> f))))) ?d m =
      (if m = n3 then k3 else dir_lookup (dir_update ?d n2 k2 (dir_update ?d n k (fs(?j \<mapsto> f)))) ?d m)" for n3 k3 n2 k2 n k f m
    by (rule dir_lookup_update [where fs = "dir_update ?d n2 k2 (dir_update ?d n k (fs(?j \<mapsto> f)))", OF u2]) simp
  show ?thesis
    using Inr d assms j
    by (auto simp: publish_def Let_def d1 l1 l2 l3 split: option.split if_split_asm)
qed

section \<open>Loading\<close>


section \<open>Witnesses\<close>

text \<open>A configuration below a sticky directory; user 2000 puts a file of theirs next to it.\<close>

definition demo_tree :: tree where
  "demo_tree =
     [0 \<mapsto> \<lparr>i_owner = 0, i_perm = 0x1ED, i_body = DirBody [''tmp'' \<mapsto> 1]\<rparr>,
      1 \<mapsto> \<lparr>i_owner = 0, i_perm = 0x3FF, i_body = DirBody [''u'' \<mapsto> 2]\<rparr>,
      2 \<mapsto> \<lparr>i_owner = 1000, i_perm = 0x1ED, i_body = DirBody [''c'' \<mapsto> 3]\<rparr>,
      3 \<mapsto> \<lparr>i_owner = 1000, i_perm = 0x180, i_body = FileBody ''cfg''\<rparr>]"

definition demo_root :: inode where
  "demo_root = \<lparr>i_owner = 0, i_perm = 0x1ED, i_body = DirBody [''tmp'' \<mapsto> 1]\<rparr>"

definition demo_entry :: entry where
  "demo_entry = entry_new 3 \<lparr>i_owner = 1000, i_perm = 0x180, i_body = FileBody ''cfg''\<rparr> ''/tmp/u/c''"

lemma demo_walk: "walk_from demo_tree 1000 False (entry_new 0 demo_root ''/'') [''tmp'', ''u'', ''c''] = Inr demo_entry"
  by (simp add: demo_tree_def demo_root_def demo_entry_def open_child_def entry_new_def check_parent_def check_final_def
      trusted_def st_mode_def WRITABLE_BY_OTHERS_def S_ISVTX_def S_IFMT_def S_IFREG_def path_join_def ends_with_def)

lemma demo_move:
  "\<exists>late. adversary 1000 demo_tree late \<and> late 1 \<noteq> demo_tree 1"
proof -
  let ?dir = "\<lparr>i_owner = 0, i_perm = 0x3FF, i_body = DirBody [''u'' \<mapsto> 2]\<rparr>"
  let ?late = "demo_tree(1 \<mapsto> ?dir\<lparr>i_body := DirBody ([''u'' \<mapsto> 2](''x'' := Some 3))\<rparr>)"
  have "adv_move 1000 demo_tree ?late"
    by (rule adv_entry [where u = 2000])
      (simp_all add: demo_tree_def trusted_def may_write_def may_replace_def WRITABLE_BY_OTHERS_def)
  moreover have "?late 1 \<noteq> demo_tree 1" by (simp add: demo_tree_def fun_eq_iff)
  ultimately show ?thesis by blast
qed

lemma verified_read_cannot_be_raced_witness:
  "\<exists>late. adversary 1000 demo_tree late \<and> late 1 \<noteq> demo_tree 1 \<and> read_file late 3 = Some ''cfg''"
proof -
  obtain late where late: "adversary 1000 demo_tree late" "late 1 \<noteq> demo_tree 1" using demo_move by blast
  have rt: "demo_tree 0 = Some demo_root" by (simp add: demo_tree_def demo_root_def)
  have "read_file demo_tree 3 = Some ''cfg''"
    by (simp add: read_file_def demo_tree_def bytes_of_def)
  with verified_read_cannot_be_raced [OF walk_is_race [OF demo_walk] rt late(1)] late show ?thesis
    by (auto simp: demo_entry_def)
qed

lemma publish_confined_witness:
  "\<exists>r fs'. publish \<lparr>pu_creates = True, pu_fresh = 9, pu_write_stops = None, pu_renames = True, pu_unlinks = True, pu_umask = 0\<rparr>
      demo_tree ''/tmp/u'' 1000 ''s'' ''t'' ''x'' = (r, fs') \<and> fs' 3 = demo_tree 3"
proof -
  let ?env = "\<lparr>pu_creates = True, pu_fresh = 9, pu_write_stops = None, pu_renames = True, pu_unlinks = True, pu_umask = 0\<rparr>"
  have free: "demo_tree (pu_fresh ?env) = None" by (simp add: demo_tree_def)
  obtain r fs' where p: "publish ?env demo_tree ''/tmp/u'' 1000 ''s'' ''t'' ''x'' = (r, fs')"
    by (cases "publish ?env demo_tree ''/tmp/u'' 1000 ''s'' ''t'' ''x''")
  have "components ''/tmp/u'' = [RootDir, NormalComp ''tmp'', NormalComp ''u'']" by code_simp
  then have "walk demo_tree ''/tmp/u'' 1000 True =
      Inr (entry_new 2 \<lparr>i_owner = 1000, i_perm = 0x1ED, i_body = DirBody [''c'' \<mapsto> 3]\<rparr> ''/tmp/u'')"
    by (simp add: walk_def is_absolute_def demo_tree_def open_child_def entry_new_def check_parent_def check_final_def
        trusted_def st_mode_def WRITABLE_BY_OTHERS_def S_ISVTX_def S_IFMT_def S_IFDIR_def path_join_def ends_with_def)
  with publish_confined [where fs = demo_tree and env = ?env and name = "''s''" and temp = "''t''" and dir = "''/tmp/u''" and uid = 1000 and contents = "''x''", OF free] p
  have "\<forall>i. i = 2 \<or> demo_tree i = None \<or> fs' i = demo_tree i" by simp
  from spec [OF this, of 3] have "fs' 3 = demo_tree 3" by (simp add: demo_tree_def)
  with p show ?thesis by blast
qed


end
