(* ===== verification/StatusFile.thy ===== *)
theory StatusFile
  imports ServeRun AccessRun Ownership Update Trust "HOL-Library.Monad_Syntax" "HOL-Library.Countable"
begin

text \<open>
  Status files (\<open>crates/host/src/status\<close>): the schema and its conversion from what the engine
  observes, its JSON form as serde derives it, the writer, reading and judging a snapshot, and the
  removal of a process's own file.

  The text form of JSON is a parameter (\<open>json_lib\<close>); the values of the derived implementations,
  with the skipped, defaulted and flattened fields, are modelled.
\<close>

section \<open>JSON\<close>

datatype json =
    JNull
  | JBool bool
  | JInt int
  | JFloat string
  | JStr string
  | JArr "json list"
  | JObj "(string \<times> json) list"

record json_lib =
  jl_print :: "json \<Rightarrow> string"
  jl_parse :: "string \<Rightarrow> json option"

text \<open>A derived struct reads an object, or an array by position; unknown fields are ignored, a repeated one is
an error.\<close>

fun fields_of :: "string list \<Rightarrow> json \<Rightarrow> (string \<times> json) list option" where
  "fields_of names (JObj o1) = Some o1"
| "fields_of names (JArr xs) = (if length xs \<le> length names then Some (zip names xs) else None)"
| "fields_of names _ = None"

fun object_of :: "json \<Rightarrow> (string \<times> json) list option" where
  "object_of (JObj o1) = Some o1"
| "object_of _ = None"

definition find_field :: "string \<Rightarrow> (string \<times> json) list \<Rightarrow> json option option" where
  "find_field k o1 = (case filter (\<lambda>f. fst f = k) o1 of [] \<Rightarrow> Some None | [f] \<Rightarrow> Some (Some (snd f)) | _ \<Rightarrow> None)"

definition req :: "(json \<Rightarrow> 'a option) \<Rightarrow> string \<Rightarrow> (string \<times> json) list \<Rightarrow> 'a option" where
  "req f k o1 = do { found \<leftarrow> find_field k o1; v \<leftarrow> found; f v }"

definition opt :: "(json \<Rightarrow> 'a option) \<Rightarrow> string \<Rightarrow> (string \<times> json) list \<Rightarrow> 'a option option" where
  "opt f k o1 =
     do {
       found \<leftarrow> find_field k o1;
       case found of
         None \<Rightarrow> Some None
       | Some v \<Rightarrow> if v = JNull then Some None else map_option Some (f v)
     }"

fun as_string :: "json \<Rightarrow> string option" where
  "as_string (JStr s) = Some s"
| "as_string _ = None"

fun as_flag :: "json \<Rightarrow> bool option" where
  "as_flag (JBool b) = Some b"
| "as_flag _ = None"

fun as_uint :: "nat \<Rightarrow> json \<Rightarrow> nat option" where
  "as_uint bound (JInt n) = (if 0 \<le> n \<and> nat n < bound then Some (nat n) else None)"
| "as_uint bound _ = None"

definition as_u64 :: "json \<Rightarrow> u64 option" where
  "as_u64 j = map_option word_of_nat (as_uint (2 ^ 64) j)"

fun omap :: "('a \<Rightarrow> 'b option) \<Rightarrow> 'a list \<Rightarrow> 'b list option" where
  "omap f [] = Some []"
| "omap f (x # xs) = do { y \<leftarrow> f x; ys \<leftarrow> omap f xs; Some (y # ys) }"

fun as_list :: "(json \<Rightarrow> 'a option) \<Rightarrow> json \<Rightarrow> 'a list option" where
  "as_list f (JArr xs) = omap f xs"
| "as_list f _ = None"

definition of_u64 :: "u64 \<Rightarrow> json" where
  "of_u64 w = JInt (int (unat w))"

definition of_option :: "('a \<Rightarrow> json) \<Rightarrow> 'a option \<Rightarrow> json" where
  "of_option f v = (case v of None \<Rightarrow> JNull | Some x \<Rightarrow> f x)"

definition of_list :: "('a \<Rightarrow> json) \<Rightarrow> 'a list \<Rightarrow> json" where
  "of_list f xs = JArr (map f xs)"

text \<open>\<open>skip_serializing_if = "Option::is_none"\<close>.\<close>

definition unless_none :: "string \<Rightarrow> ('a \<Rightarrow> json) \<Rightarrow> 'a option \<Rightarrow> (string \<times> json) list" where
  "unless_none k f v = (case v of None \<Rightarrow> [] | Some x \<Rightarrow> [(k, f x)])"

section \<open>The schema\<close>

datatype status_kind = KRelay | KDirect

record transport_status =
  tst_kind :: status_kind
  tst_addr :: string
  tst_active :: bool

record peer_path_report =
  ppr_peer :: string
  ppr_transports :: "transport_status list"
  ppr_local_bound_addrs :: "string list"

record udp_drops =
  ud_oversize :: u64
  ud_malformed :: u64
  ud_unknown_flow :: u64
  ud_upstream_error :: u64
  ud_cap :: u64
  ud_queue_full :: u64
  ud_limit_shrink :: u64
  ud_quarantine_reply :: u64
  ud_foreign_source :: u64

record udp_status =
  us_active_flows :: u64
  us_quarantined_flows :: u64
  us_datagram_limit :: "u64 option"
  us_drops :: udp_drops

record service_status =
  svs_name :: string
  svs_protocol :: string
  svs_local_addr :: string
  svs_active_connections :: u64
  svs_udp :: "udp_status option"

record peer_connection_status =
  pcs_path :: peer_path_report
  pcs_services :: "string list"

record status_file =
  sf_node_id :: string
  sf_home_relay :: "string option"
  sf_pid :: nat
  sf_started_at :: nat
  sf_services :: "service_status list"
  sf_connections :: "peer_connection_status list"

record access_service_status =
  ass_name :: string
  ass_listen_addr :: string
  ass_peer :: string
  ass_transports :: "transport_status list"
  ass_local_bound_addrs :: "string list"
  ass_udp :: "udp_status option"

record access_status_file =
  asf_node_id :: string
  asf_pid :: nat
  asf_started_at :: nat
  asf_services :: "access_service_status list"

datatype status_payload = ServeStatus status_file | AccessStatus access_status_file

fun payload_pid :: "status_payload \<Rightarrow> nat" where
  "payload_pid (ServeStatus f) = sf_pid f"
| "payload_pid (AccessStatus f) = asf_pid f"

fun payload_started_at :: "status_payload \<Rightarrow> nat" where
  "payload_started_at (ServeStatus f) = sf_started_at f"
| "payload_started_at (AccessStatus f) = asf_started_at f"

fun payload_role :: "status_payload \<Rightarrow> role" where
  "payload_role (ServeStatus _) = Serve"
| "payload_role (AccessStatus _) = Access"

section \<open>From observations\<close>

fun status_kind_of :: "transport_kind \<Rightarrow> status_kind" where
  "status_kind_of Relay = KRelay"
| "status_kind_of Direct = KDirect"

definition transport_status_of :: "transport_observation \<Rightarrow> transport_status" where
  "transport_status_of t = \<lparr>tst_kind = status_kind_of (tr_kind t), tst_addr = tr_addr t, tst_active = tr_active t\<rparr>"

definition path_report_of :: "peer_path_observation \<Rightarrow> peer_path_report" where
  "path_report_of p =
     \<lparr>ppr_peer = pp_peer p, ppr_transports = map transport_status_of (pp_transports p),
      ppr_local_bound_addrs = pp_local_bound_addrs p\<rparr>"

definition udp_status_of :: "udp_observation \<Rightarrow> udp_status" where
  "udp_status_of u =
     \<lparr>us_active_flows = uo_active_flows u, us_quarantined_flows = uo_quarantined_flows u,
      us_datagram_limit = uo_datagram_limit u,
      us_drops =
        \<lparr>ud_oversize = dc_oversize (uo_drops u), ud_malformed = dc_malformed (uo_drops u),
         ud_unknown_flow = dc_unknown_flow (uo_drops u), ud_upstream_error = dc_upstream_error (uo_drops u),
         ud_cap = dc_cap (uo_drops u), ud_queue_full = dc_queue_full (uo_drops u),
         ud_limit_shrink = dc_limit_shrink (uo_drops u), ud_quarantine_reply = dc_quarantine_reply (uo_drops u),
         ud_foreign_source = dc_foreign_source (uo_drops u)\<rparr>\<rparr>"

definition status_file_of :: "serve_observation \<Rightarrow> status_file" where
  "status_file_of ob =
     \<lparr>sf_node_id = sob_node_id ob, sf_home_relay = sob_home_relay ob, sf_pid = sob_pid ob,
      sf_started_at = sob_started_at ob,
      sf_services = map (\<lambda>s. \<lparr>svs_name = so_name s, svs_protocol = so_protocol s, svs_local_addr = so_local_addr s,
          svs_active_connections = so_active_connections s, svs_udp = map_option udp_status_of (so_udp s)\<rparr>) (sob_services ob),
      sf_connections = map (\<lambda>c. \<lparr>pcs_path = path_report_of (pc_path c), pcs_services = pc_services c\<rparr>) (sob_connections ob)\<rparr>"

definition access_status_file_of :: "access_observation \<Rightarrow> access_status_file" where
  "access_status_file_of ob =
     \<lparr>asf_node_id = ao_node_id ob, asf_pid = ao_pid ob, asf_started_at = ao_started_at ob,
      asf_services = map (\<lambda>s. \<lparr>ass_name = aso_name s, ass_listen_addr = aso_listen_addr s, ass_peer = aso_peer s,
          ass_transports = map transport_status_of (aso_transports s), ass_local_bound_addrs = aso_local_bound_addrs s,
          ass_udp = map_option udp_status_of (aso_udp s)\<rparr>) (ao_services ob)\<rparr>"

section \<open>Serialization\<close>

fun kind_to_json :: "status_kind \<Rightarrow> json" where
  "kind_to_json KRelay = JStr ''relay''"
| "kind_to_json KDirect = JStr ''direct''"

definition transport_to_json :: "transport_status \<Rightarrow> json" where
  "transport_to_json t =
     JObj [(''kind'', kind_to_json (tst_kind t)), (''addr'', JStr (tst_addr t)), (''active'', JBool (tst_active t))]"

definition path_fields :: "peer_path_report \<Rightarrow> (string \<times> json) list" where
  "path_fields p =
     [(''peer'', JStr (ppr_peer p)), (''transports'', of_list transport_to_json (ppr_transports p)),
      (''local_bound_addrs'', of_list JStr (ppr_local_bound_addrs p))]"

definition drops_to_json :: "udp_drops \<Rightarrow> json" where
  "drops_to_json d =
     JObj [(''oversize'', of_u64 (ud_oversize d)), (''malformed'', of_u64 (ud_malformed d)),
           (''unknown_flow'', of_u64 (ud_unknown_flow d)), (''upstream_error'', of_u64 (ud_upstream_error d)),
           (''cap'', of_u64 (ud_cap d)), (''queue_full'', of_u64 (ud_queue_full d)),
           (''limit_shrink'', of_u64 (ud_limit_shrink d)), (''quarantine_reply'', of_u64 (ud_quarantine_reply d)),
           (''foreign_source'', of_u64 (ud_foreign_source d))]"

definition udp_to_json :: "udp_status \<Rightarrow> json" where
  "udp_to_json u =
     JObj [(''active_flows'', of_u64 (us_active_flows u)), (''quarantined_flows'', of_u64 (us_quarantined_flows u)),
           (''datagram_limit'', of_option of_u64 (us_datagram_limit u)), (''drops'', drops_to_json (us_drops u))]"

definition service_to_json :: "service_status \<Rightarrow> json" where
  "service_to_json s =
     JObj ([(''name'', JStr (svs_name s)), (''protocol'', JStr (svs_protocol s)), (''local_addr'', JStr (svs_local_addr s)),
            (''active_connections'', of_u64 (svs_active_connections s))] @ unless_none ''udp'' udp_to_json (svs_udp s))"

text \<open>\<open>#[serde(flatten)]\<close>: the fields of the path are fields of the row.\<close>

definition connection_to_json :: "peer_connection_status \<Rightarrow> json" where
  "connection_to_json c = JObj (path_fields (pcs_path c) @ [(''services'', of_list JStr (pcs_services c))])"

definition status_to_json :: "status_file \<Rightarrow> json" where
  "status_to_json f =
     JObj [(''node_id'', JStr (sf_node_id f)), (''home_relay'', of_option JStr (sf_home_relay f)),
           (''pid'', JInt (int (sf_pid f))), (''started_at'', JInt (int (sf_started_at f))),
           (''services'', of_list service_to_json (sf_services f)),
           (''connections'', of_list connection_to_json (sf_connections f))]"

definition access_service_to_json :: "access_service_status \<Rightarrow> json" where
  "access_service_to_json s =
     JObj ([(''name'', JStr (ass_name s)), (''listen_addr'', JStr (ass_listen_addr s)), (''peer'', JStr (ass_peer s)),
            (''transports'', of_list transport_to_json (ass_transports s)),
            (''local_bound_addrs'', of_list JStr (ass_local_bound_addrs s))] @ unless_none ''udp'' udp_to_json (ass_udp s))"

definition access_status_to_json :: "access_status_file \<Rightarrow> json" where
  "access_status_to_json f =
     JObj [(''node_id'', JStr (asf_node_id f)), (''pid'', JInt (int (asf_pid f))),
           (''started_at'', JInt (int (asf_started_at f))), (''services'', of_list access_service_to_json (asf_services f))]"

text \<open>The inner schema is written; the payload's tag is not.\<close>

fun payload_to_json :: "status_payload \<Rightarrow> json" where
  "payload_to_json (ServeStatus f) = status_to_json f"
| "payload_to_json (AccessStatus f) = access_status_to_json f"

section \<open>Deserialization\<close>

fun kind_from_json :: "json \<Rightarrow> status_kind option" where
  "kind_from_json (JStr s) = (if s = ''relay'' then Some KRelay else if s = ''direct'' then Some KDirect else None)"
| "kind_from_json (JObj [(s, JNull)]) = (if s = ''relay'' then Some KRelay else if s = ''direct'' then Some KDirect else None)"
| "kind_from_json _ = None"

definition transport_from_json :: "json \<Rightarrow> transport_status option" where
  "transport_from_json j =
     do {
       o1 \<leftarrow> fields_of [''kind'', ''addr'', ''active''] j;
       k \<leftarrow> req kind_from_json ''kind'' o1;
       a \<leftarrow> req as_string ''addr'' o1;
       act \<leftarrow> req as_flag ''active'' o1;
       Some \<lparr>tst_kind = k, tst_addr = a, tst_active = act\<rparr>
     }"

definition path_from_fields :: "(string \<times> json) list \<Rightarrow> peer_path_report option" where
  "path_from_fields o1 =
     do {
       p \<leftarrow> req as_string ''peer'' o1;
       ts \<leftarrow> req (as_list transport_from_json) ''transports'' o1;
       ls \<leftarrow> req (as_list as_string) ''local_bound_addrs'' o1;
       Some \<lparr>ppr_peer = p, ppr_transports = ts, ppr_local_bound_addrs = ls\<rparr>
     }"

definition drops_from_json :: "json \<Rightarrow> udp_drops option" where
  "drops_from_json j =
     do {
       o1 \<leftarrow> fields_of [''oversize'', ''malformed'', ''unknown_flow'', ''upstream_error'', ''cap'', ''queue_full'',
                      ''limit_shrink'', ''quarantine_reply'', ''foreign_source''] j;
       a \<leftarrow> req as_u64 ''oversize'' o1;
       b \<leftarrow> req as_u64 ''malformed'' o1;
       c \<leftarrow> req as_u64 ''unknown_flow'' o1;
       d \<leftarrow> req as_u64 ''upstream_error'' o1;
       e \<leftarrow> req as_u64 ''cap'' o1;
       f \<leftarrow> req as_u64 ''queue_full'' o1;
       g \<leftarrow> req as_u64 ''limit_shrink'' o1;
       h \<leftarrow> req as_u64 ''quarantine_reply'' o1;
       i \<leftarrow> req as_u64 ''foreign_source'' o1;
       Some \<lparr>ud_oversize = a, ud_malformed = b, ud_unknown_flow = c, ud_upstream_error = d, ud_cap = e,
             ud_queue_full = f, ud_limit_shrink = g, ud_quarantine_reply = h, ud_foreign_source = i\<rparr>
     }"

definition udp_from_json :: "json \<Rightarrow> udp_status option" where
  "udp_from_json j =
     do {
       o1 \<leftarrow> fields_of [''active_flows'', ''quarantined_flows'', ''datagram_limit'', ''drops''] j;
       a \<leftarrow> req as_u64 ''active_flows'' o1;
       q \<leftarrow> req as_u64 ''quarantined_flows'' o1;
       l \<leftarrow> opt as_u64 ''datagram_limit'' o1;
       d \<leftarrow> req drops_from_json ''drops'' o1;
       Some \<lparr>us_active_flows = a, us_quarantined_flows = q, us_datagram_limit = l, us_drops = d\<rparr>
     }"

definition service_from_json :: "json \<Rightarrow> service_status option" where
  "service_from_json j =
     do {
       o1 \<leftarrow> fields_of [''name'', ''protocol'', ''local_addr'', ''active_connections'', ''udp''] j;
       n \<leftarrow> req as_string ''name'' o1;
       p \<leftarrow> req as_string ''protocol'' o1;
       l \<leftarrow> req as_string ''local_addr'' o1;
       a \<leftarrow> req as_u64 ''active_connections'' o1;
       u \<leftarrow> opt udp_from_json ''udp'' o1;
       Some \<lparr>svs_name = n, svs_protocol = p, svs_local_addr = l, svs_active_connections = a, svs_udp = u\<rparr>
     }"

definition connection_from_json :: "json \<Rightarrow> peer_connection_status option" where
  "connection_from_json j =
     do {
       o1 \<leftarrow> object_of j;
       s \<leftarrow> req (as_list as_string) ''services'' o1;
       p \<leftarrow> path_from_fields o1;
       Some \<lparr>pcs_path = p, pcs_services = s\<rparr>
     }"

definition status_from_json :: "json \<Rightarrow> status_file option" where
  "status_from_json j =
     do {
       o1 \<leftarrow> fields_of [''node_id'', ''home_relay'', ''pid'', ''started_at'', ''services'', ''connections''] j;
       n \<leftarrow> req as_string ''node_id'' o1;
       h \<leftarrow> opt as_string ''home_relay'' o1;
       p \<leftarrow> req (as_uint (2 ^ 32)) ''pid'' o1;
       t \<leftarrow> req (as_uint (2 ^ 64)) ''started_at'' o1;
       s \<leftarrow> req (as_list service_from_json) ''services'' o1;
       c \<leftarrow> req (as_list connection_from_json) ''connections'' o1;
       Some \<lparr>sf_node_id = n, sf_home_relay = h, sf_pid = p, sf_started_at = t, sf_services = s, sf_connections = c\<rparr>
     }"

definition access_service_from_json :: "json \<Rightarrow> access_service_status option" where
  "access_service_from_json j =
     do {
       o1 \<leftarrow> fields_of [''name'', ''listen_addr'', ''peer'', ''transports'', ''local_bound_addrs'', ''udp''] j;
       n \<leftarrow> req as_string ''name'' o1;
       l \<leftarrow> req as_string ''listen_addr'' o1;
       p \<leftarrow> req as_string ''peer'' o1;
       ts \<leftarrow> req (as_list transport_from_json) ''transports'' o1;
       ls \<leftarrow> req (as_list as_string) ''local_bound_addrs'' o1;
       u \<leftarrow> opt udp_from_json ''udp'' o1;
       Some \<lparr>ass_name = n, ass_listen_addr = l, ass_peer = p, ass_transports = ts, ass_local_bound_addrs = ls, ass_udp = u\<rparr>
     }"

definition access_status_from_json :: "json \<Rightarrow> access_status_file option" where
  "access_status_from_json j =
     do {
       o1 \<leftarrow> fields_of [''node_id'', ''pid'', ''started_at'', ''services''] j;
       n \<leftarrow> req as_string ''node_id'' o1;
       p \<leftarrow> req (as_uint (2 ^ 32)) ''pid'' o1;
       t \<leftarrow> req (as_uint (2 ^ 64)) ''started_at'' o1;
       s \<leftarrow> req (as_list access_service_from_json) ''services'' o1;
       Some \<lparr>asf_node_id = n, asf_pid = p, asf_started_at = t, asf_services = s\<rparr>
     }"

definition parse_payload :: "json_lib \<Rightarrow> role \<Rightarrow> string \<Rightarrow> status_payload option" where
  "parse_payload lib r body =
     do {
       j \<leftarrow> jl_parse lib body;
       (case r of
          Serve \<Rightarrow> map_option ServeStatus (status_from_json j)
        | Access \<Rightarrow> map_option AccessStatus (access_status_from_json j))
     }"

text \<open>\<open>StatusFilePid\<close>: only the process identifier.\<close>

definition pid_of_body :: "json_lib \<Rightarrow> string \<Rightarrow> nat option" where
  "pid_of_body lib body = do { j \<leftarrow> jl_parse lib body; o1 \<leftarrow> fields_of [''pid''] j; req (as_uint (2 ^ 32)) ''pid'' o1 }"

section \<open>Round trips\<close>

lemma field_simps [simp]:
  "find_field k [] = Some None"
  "find_field k ((k', v) # o1) = (if k' = k then (if list_ex (\<lambda>f. fst f = k) o1 then None else Some (Some v)) else find_field k o1)"
  by (auto simp: find_field_def filter_empty_conv list_ex_iff split: list.split)

lemma as_u64_of [simp]: "as_u64 (of_u64 w) = Some w"
proof -
  have "unat w < 2 ^ LENGTH(64)" by (rule unsigned_less)
  then show ?thesis by (simp add: as_u64_def of_u64_def)
qed

lemma omap_map: "(\<And>x. x \<in> set xs \<Longrightarrow> f (g x) = Some x) \<Longrightarrow> omap f (map g xs) = Some xs"
  by (induction xs) auto

lemma as_list_of: "(\<And>x. x \<in> set xs \<Longrightarrow> f (g x) = Some x) \<Longrightarrow> as_list f (of_list g xs) = Some xs"
  by (simp add: of_list_def omap_map)

lemma as_list_strings [simp]: "as_list as_string (of_list JStr xs) = Some xs"
  by (rule as_list_of) simp

lemma transport_roundtrip [simp]: "transport_from_json (transport_to_json t) = Some t"
  by (cases "tst_kind t") (simp_all add: transport_from_json_def transport_to_json_def req_def)

lemma as_list_transports [simp]: "as_list transport_from_json (of_list transport_to_json ts) = Some ts"
  by (rule as_list_of) simp

lemma drops_roundtrip [simp]: "drops_from_json (drops_to_json d) = Some d"
  by (simp add: drops_from_json_def drops_to_json_def req_def)

lemma of_u64_ne_null [simp]: "of_u64 w \<noteq> JNull"
  by (simp add: of_u64_def)

lemma udp_roundtrip [simp]: "udp_from_json (udp_to_json u) = Some u"
  by (cases "us_datagram_limit u")
    (simp_all add: udp_from_json_def udp_to_json_def req_def opt_def of_option_def)

lemma udp_to_json_ne_null [simp]: "udp_to_json u \<noteq> JNull"
  by (simp add: udp_to_json_def)

lemma service_roundtrip [simp]: "service_from_json (service_to_json s) = Some s"
  by (cases "svs_udp s")
    (simp_all add: service_from_json_def service_to_json_def req_def opt_def unless_none_def)

lemma path_roundtrip [simp]: "path_from_fields (path_fields p @ [(''services'', x)]) = Some p"
  by (simp add: path_from_fields_def path_fields_def req_def)

lemma connection_roundtrip [simp]: "connection_from_json (connection_to_json c) = Some c"
proof -
  have "req (as_list as_string) ''services'' (path_fields (pcs_path c) @ [(''services'', of_list JStr (pcs_services c))]) =
      Some (pcs_services c)"
    by (simp add: req_def path_fields_def)
  then show ?thesis by (simp add: connection_from_json_def connection_to_json_def)
qed

lemma access_service_roundtrip [simp]: "access_service_from_json (access_service_to_json s) = Some s"
  by (cases "ass_udp s")
    (simp_all add: access_service_from_json_def access_service_to_json_def req_def opt_def unless_none_def)

lemma as_list_rows [simp]:
  "as_list service_from_json (of_list service_to_json ss) = Some ss"
  "as_list connection_from_json (of_list connection_to_json cs) = Some cs"
  "as_list access_service_from_json (of_list access_service_to_json xs) = Some xs"
  by (rule as_list_of, simp)+

text \<open>The ranges of \<open>u32\<close> and \<open>u64\<close>.\<close>

definition payload_in_range :: "status_payload \<Rightarrow> bool" where
  "payload_in_range v \<longleftrightarrow> payload_pid v < 2 ^ 32 \<and> payload_started_at v < 2 ^ 64"

lemma status_roundtrip:
  "payload_in_range (ServeStatus f) \<Longrightarrow> status_from_json (status_to_json f) = Some f"
  by (cases "sf_home_relay f")
    (simp_all add: status_from_json_def status_to_json_def req_def opt_def of_option_def payload_in_range_def)

lemma access_status_roundtrip:
  "payload_in_range (AccessStatus f) \<Longrightarrow> access_status_from_json (access_status_to_json f) = Some f"
  by (simp add: access_status_from_json_def access_status_to_json_def req_def payload_in_range_def)

text \<open>What is assumed of the JSON text: printing and parsing are inverse.\<close>

definition json_ok :: "json_lib \<Rightarrow> bool" where
  "json_ok lib \<longleftrightarrow> (\<forall>j. jl_parse lib (jl_print lib j) = Some j)"

lemma parse_payload_printed:
  "json_ok lib \<Longrightarrow> payload_in_range v \<Longrightarrow>
     parse_payload lib (payload_role v) (jl_print lib (payload_to_json v)) = Some v"
  by (cases v) (simp_all add: parse_payload_def json_ok_def status_roundtrip access_status_roundtrip)

lemma pid_of_printed:
  "json_ok lib \<Longrightarrow> payload_in_range v \<Longrightarrow>
     pid_of_body lib (jl_print lib (payload_to_json v)) = Some (payload_pid v)"
  by (cases v)
    (simp_all add: pid_of_body_def json_ok_def status_to_json_def access_status_to_json_def req_def payload_in_range_def)

section \<open>The writer\<close>

definition LEGACY_STATUS_FILE_NAME :: string where
  "LEGACY_STATUS_FILE_NAME = ''status.json''"

text \<open>\<open>path_with\<close>: \<open>absolute\<close> is \<open>std::path::absolute\<close> and \<open>default_dir\<close> the default state directory.\<close>

datatype status_error =
    RoleMismatch role role
  | NoStateDir
  | EnvRefused load_error
  | DirNotCreated path
  | TempFailed path
  | RenameFailed path
  | PublishFailed trust_error
  | StatusReadFailed path

definition status_path_with ::
    "role \<Rightarrow> (path \<Rightarrow> path option) \<Rightarrow> path option \<Rightarrow> path option \<Rightarrow> status_error + path" where
  "status_path_with r absolute default_dir state_dir_override =
     (case (case state_dir_override of
              Some d \<Rightarrow> if d = [] then default_dir else absolute d
            | None \<Rightarrow> default_dir) of
        Some d \<Rightarrow> Inr (path_join d (status_file_name r))
      | None \<Rightarrow> Inl NoStateDir)"

record save_env =
  sa_mkdir :: bool
  sa_create :: bool
  sa_write_stops :: "nat option"
  sa_sync :: bool
  sa_rename :: bool
  sa_cleanup :: bool
  sa_legacy :: bool
  sa_pid :: nat
  sa_counter :: nat
  sa_mode :: nat

definition status_temp :: "save_env \<Rightarrow> role \<Rightarrow> string" where
  "status_temp env r = status_file_name r @ ''.tmp.'' @ nat_str (sa_pid env) @ ''.'' @ nat_str (sa_counter env)"

text \<open>The system calls of a save by path, and its result. A temporary file that could not be written stays;
one that could not be renamed is removed.\<close>

definition save_ops :: "save_env \<Rightarrow> role \<Rightarrow> path \<Rightarrow> string \<Rightarrow> x_op list \<times> (status_error + path)" where
  "save_ops env r dir content =
     (let file = path_join dir (status_file_name r);
          temp = path_join dir (status_temp env r);
          o1 = [XCreate temp (sa_mode env)]
      in if \<not> sa_mkdir env then ([], Inl (DirNotCreated dir))
         else if \<not> sa_create env then ([], Inl (TempFailed temp))
         else case sa_write_stops env of
           Some n \<Rightarrow> (o1 @ [XWrite temp (take n content)], Inl (TempFailed temp))
         | None \<Rightarrow>
             (let o2 = o1 @ [XWrite temp content]
              in if \<not> sa_sync env then (o2, Inl (TempFailed temp))
                 else if \<not> sa_rename env then
                   (o2 @ [XSync temp] @ (if sa_cleanup env then [XRemove temp] else []), Inl (RenameFailed file))
                 else
                   (o2 @ [XSync temp, XRename temp file] @
                      (if sa_legacy env then [XRemove (path_join dir LEGACY_STATUS_FILE_NAME)] else []),
                    Inr file)))"

text \<open>The host has files as paths see them and, for the checked handles of a system service, the inode tree.\<close>

record host_files =
  hf_files :: xfs
  hf_tree :: tree

definition save_to ::
    "service_env \<Rightarrow> publish_env \<Rightarrow> save_env \<Rightarrow> json_lib \<Rightarrow> role \<Rightarrow> path \<Rightarrow> status_payload \<Rightarrow> host_files
      \<Rightarrow> (status_error + path) \<times> host_files" where
  "save_to sv pu env lib r dir v hf =
     (if r \<noteq> payload_role v then (Inl (RoleMismatch r (payload_role v)), hf)
      else
        (let content = jl_print lib (payload_to_json v)
         in case trusted_uid_from_env sv of
              Inl e \<Rightarrow> (Inl (EnvRefused e), hf)
            | Inr (Some uid) \<Rightarrow>
                (case publish pu (hf_tree hf) dir uid (status_file_name r) (status_temp env r) content of
                   (Inl e, t) \<Rightarrow> (Inl (PublishFailed e), hf\<lparr>hf_tree := t\<rparr>)
                 | (Inr _, t) \<Rightarrow>
                     (Inr (path_join dir (status_file_name r)),
                      hf\<lparr>hf_tree := snd (remove_in (sa_legacy env) t dir uid LEGACY_STATUS_FILE_NAME)\<rparr>))
            | Inr None \<Rightarrow>
                (case save_ops env r dir content of
                   (ops, res) \<Rightarrow> (res, hf\<lparr>hf_files := x_run ops (hf_files hf)\<rparr>))))"

section \<open>Removing and reading\<close>

text \<open>Removal on a graceful or forced stop, only of a file that names this process.\<close>

definition remove_own_status_file ::
    "service_env \<Rightarrow> bool \<Rightarrow> json_lib \<Rightarrow> nat \<Rightarrow> path \<Rightarrow> string \<Rightarrow> host_files \<Rightarrow> host_files" where
  "remove_own_status_file sv removes lib pid dir name hf =
     (case trusted_uid_from_env sv of
        Inr (Some uid) \<Rightarrow>
          (case read_in (hf_tree hf) dir uid name of
             Some body \<Rightarrow>
               if pid_of_body lib body = Some pid
               then hf\<lparr>hf_tree := snd (remove_in removes (hf_tree hf) dir uid name)\<rparr> else hf
           | None \<Rightarrow> hf)
      | _ \<Rightarrow>
          (case hf_files hf (path_join dir name) of
             Some f \<Rightarrow>
               if utf8_valid (bytes_of (x_data f)) \<and> pid_of_body lib (x_data f) = Some pid \<and> removes
               then hf\<lparr>hf_files := (hf_files hf)(path_join dir name := None)\<rparr> else hf
           | None \<Rightarrow> hf))"

datatype snapshot_state = SnapshotAbsent | SnapshotPresent string status_payload | SnapshotInvalid

record role_status =
  rst_role :: role
  rst_path :: path
  rst_liveness :: liveness
  rst_snapshot :: snapshot_state

text \<open>\<open>readable\<close>: the read does not fail for a reason other than a missing file.\<close>

definition read_role_status_at ::
    "json_lib \<Rightarrow> bool \<Rightarrow> role \<Rightarrow> path \<Rightarrow> liveness \<Rightarrow> xfs \<Rightarrow> status_error + role_status" where
  "read_role_status_at lib readable r p live fs =
     (case fs p of
        None \<Rightarrow> Inr \<lparr>rst_role = r, rst_path = p, rst_liveness = live, rst_snapshot = SnapshotAbsent\<rparr>
      | Some f \<Rightarrow>
          if \<not> readable \<or> \<not> utf8_valid (bytes_of (x_data f)) then Inl (StatusReadFailed p)
          else Inr \<lparr>rst_role = r, rst_path = p, rst_liveness = live,
                    rst_snapshot = (case parse_payload lib r (x_data f) of
                                      Some v \<Rightarrow> SnapshotPresent (x_data f) v
                                    | None \<Rightarrow> SnapshotInvalid)\<rparr>)"

datatype freshness = FreshCurrent | LiveWithoutSnapshot | AbsentNotRunning | Unreadable | StalePid "nat option" | OwnerUnknown

fun freshness_of :: "snapshot_state \<Rightarrow> liveness \<Rightarrow> freshness" where
  "freshness_of SnapshotInvalid _ = Unreadable"
| "freshness_of SnapshotAbsent NotRunning = AbsentNotRunning"
| "freshness_of SnapshotAbsent (RunningAt _ _) = LiveWithoutSnapshot"
| "freshness_of (SnapshotPresent raw v) NotRunning = StalePid None"
| "freshness_of (SnapshotPresent raw v) (RunningAt t (Some ow)) =
     (if ow_pid ow \<noteq> payload_pid v then StalePid (Some (ow_pid ow)) else FreshCurrent)"
| "freshness_of (SnapshotPresent raw v) (RunningAt t None) = OwnerUnknown"

definition freshness :: "role_status \<Rightarrow> freshness" where
  "freshness s = freshness_of (rst_snapshot s) (rst_liveness s)"

section \<open>Saving\<close>

lemma path_join_inj [simp]: "path_join d a = path_join d b \<longleftrightarrow> a = b"
  by (simp add: path_join_def)

lemma names_apart [simp]:
  "status_temp env r \<noteq> status_file_name r'" "status_file_name r' \<noteq> status_temp env r"
  "status_temp env r \<noteq> LEGACY_STATUS_FILE_NAME" "LEGACY_STATUS_FILE_NAME \<noteq> status_temp env r"
  "status_file_name r \<noteq> LEGACY_STATUS_FILE_NAME" "LEGACY_STATUS_FILE_NAME \<noteq> status_file_name r"
  by (cases r; cases r'; simp add: status_temp_def LEGACY_STATUS_FILE_NAME_def)+

definition saved_file :: "save_env \<Rightarrow> string \<Rightarrow> exe_file" where
  "saved_file env content = \<lparr>x_data = content, x_mode = sa_mode env, x_synced = True\<rparr>"

lemma save_ops_prefix:
  fixes env r dir content n fs
  defines "now \<equiv> x_run (take n (fst (save_ops env r dir content))) fs"
  shows "(now (path_join dir (status_file_name r)) = fs (path_join dir (status_file_name r)) \<or>
      now (path_join dir (status_file_name r)) = Some (saved_file env content)) \<and>
    (\<forall>q. q = path_join dir (status_file_name r) \<or> q = path_join dir (status_temp env r) \<or>
       q = path_join dir LEGACY_STATUS_FILE_NAME \<or> now q = fs q)"
  by (auto simp: now_def save_ops_def Let_def take_Cons' saved_file_def split: option.split)

lemma save_ops_result:
  assumes "save_ops env r dir content = (ops, res)"
  shows "(case res of
      Inr p \<Rightarrow> p = path_join dir (status_file_name r) \<and> x_run ops fs p = Some (saved_file env content)
    | Inl _ \<Rightarrow> x_run ops fs (path_join dir (status_file_name r)) = fs (path_join dir (status_file_name r)))"
  using assms by (auto simp: save_ops_def Let_def saved_file_def split: option.splits if_splits)

text \<open>A status file is never half written. At any moment of a save, and after a power failure at that moment,
the file is the old one, if that had reached the disk, or the complete new snapshot; no file but it, the
temporary one and the legacy one was touched; and the save reports success exactly when the new snapshot is in place.\<close>

theorem status_save_atomic:
  assumes "case fs (path_join dir (status_file_name r)) of Some old \<Rightarrow> x_synced old | None \<Rightarrow> True"
    and "x_crash (x_run (take n (fst (save_ops env r dir content))) fs) fs'"
  shows "(fs' (path_join dir (status_file_name r)) = fs (path_join dir (status_file_name r)) \<or>
      fs' (path_join dir (status_file_name r)) = Some (saved_file env content)) \<and>
    (\<forall>q. q = path_join dir (status_file_name r) \<or> q = path_join dir (status_temp env r) \<or>
       q = path_join dir LEGACY_STATUS_FILE_NAME \<or> x_run (take n (fst (save_ops env r dir content))) fs q = fs q) \<and>
    (case snd (save_ops env r dir content) of
       Inr p \<Rightarrow> p = path_join dir (status_file_name r) \<and>
         x_run (fst (save_ops env r dir content)) fs p = Some (saved_file env content)
     | Inl _ \<Rightarrow> x_run (fst (save_ops env r dir content)) fs (path_join dir (status_file_name r)) =
         fs (path_join dir (status_file_name r)))"
proof -
  let ?file = "path_join dir (status_file_name r)" and ?now = "x_run (take n (fst (save_ops env r dir content))) fs"
  note pre = save_ops_prefix [of n env r dir content fs]
  have "?now ?file = Some f \<Longrightarrow> x_synced f" for f
    using pre assms(1) by (auto simp: saved_file_def split: option.splits)
  then have "fs' ?file = ?now ?file"
    using assms(2) unfolding x_crash_def by (cases "?now ?file") (auto dest: spec [of _ ?file])
  moreover have "(case snd (save_ops env r dir content) of
       Inr p \<Rightarrow> p = ?file \<and> x_run (fst (save_ops env r dir content)) fs p = Some (saved_file env content)
     | Inl _ \<Rightarrow> x_run (fst (save_ops env r dir content)) fs ?file = fs ?file)"
    by (rule save_ops_result) simp
  ultimately show ?thesis using pre by simp
qed


section \<open>Removing\<close>

text \<open>A stopping process removes its own status file and nothing else. By path: every file stays, except the
status file, which goes exactly if it is text that names this process (and the removal works). Under a system
service: nothing outside the checked directory changes and in it only the entry of the status file, only if it
names this process.\<close>

theorem removes_only_own_status:
  "case remove_own_status_file sv removes lib pid dir name hf of hf' \<Rightarrow>
     (case trusted_uid_from_env sv of
        Inr (Some uid) \<Rightarrow>
          hf_files hf' = hf_files hf \<and>
          (hf_tree hf' = hf_tree hf \<or>
            (\<exists>body. read_in (hf_tree hf) dir uid name = Some body \<and> pid_of_body lib body = Some pid \<and>
              hf_tree hf' = snd (remove_in removes (hf_tree hf) dir uid name)))
      | _ \<Rightarrow>
          hf_tree hf' = hf_tree hf \<and>
          (\<forall>q. hf_files hf' q =
            (if q = path_join dir name \<and> removes \<and>
                (case hf_files hf q of
                   Some f \<Rightarrow> utf8_valid (bytes_of (x_data f)) \<and> pid_of_body lib (x_data f) = Some pid
                 | None \<Rightarrow> False)
             then None else hf_files hf q)))"
  by (auto simp: remove_own_status_file_def split: sum.split option.split)

text \<open>A snapshot of another process stays; one's own goes.\<close>

lemma own_snapshot_removed:
  assumes "json_ok lib" and "payload_in_range v" and "utf8_valid (bytes_of (jl_print lib (payload_to_json v)))"
    and "trusted_uid_from_env sv = Inr None"
    and "hf_files hf (path_join dir name) = Some f" and "x_data f = jl_print lib (payload_to_json v)"
  shows "hf_files (remove_own_status_file sv True lib pid dir name hf) (path_join dir name) =
    (if payload_pid v = pid then None else Some f)"
  using assms by (simp add: remove_own_status_file_def pid_of_printed)

section \<open>Freshness\<close>

definition judged_alive :: "freshness \<Rightarrow> bool" where
  "judged_alive fr \<longleftrightarrow>
     (case fr of FreshCurrent \<Rightarrow> True | LiveWithoutSnapshot \<Rightarrow> True | OwnerUnknown \<Rightarrow> True | StalePid pid \<Rightarrow> pid \<noteq> None
      | AbsentNotRunning \<Rightarrow> False | Unreadable \<Rightarrow> False)"

lemma judged_alive_iff:
  "snap \<noteq> SnapshotInvalid \<Longrightarrow> judged_alive (freshness_of snap live) \<longleftrightarrow> live \<noteq> NotRunning"
  by (cases "(snap, live)" rule: freshness_of.cases) (simp_all add: judged_alive_def)

text \<open>The first tier decides; the user tier reports its record.\<close>

lemma held_user_tier:
  assumes "own_run m reliable w0 w" and "own_fresh w0" and "i < length (ow_procs w)" and "holds_user (pr_phase (at_proc w i))"
    and "pr_user p = pr_user (at_proc w i)"
  shows "probe m' en p (pr_role (at_proc w i)) w =
    RunningAt UserTier (ow_user_record w (pkey (at_proc w i)))"
proof -
  have "inv_user w" using own_run_invs [OF assms(1,2)] by simp
  from inv_userD(1) [OF this assms(3,4)] assms(5) show ?thesis
    by (simp add: probe_def probe_tiers_def tier_liveness_def tier_held_def lock_is_held_def probe_kind_def tier_owner_def)
qed


section \<open>Witnesses\<close>

text \<open>A JSON text form that is its own inverse: the number of a value, in unary.\<close>

instance json :: countable by countable_datatype

definition demo_json :: json_lib where
  "demo_json = \<lparr>jl_print = (\<lambda>j. replicate (to_nat j) CHR ''1''), jl_parse = (\<lambda>s. Some (from_nat (length s)))\<rparr>"

lemma demo_json_ok: "json_ok demo_json"
  by (simp add: json_ok_def demo_json_def)

lemma demo_json_utf8: "utf8_valid (bytes_of (jl_print demo_json j))"
proof -
  have "utf8_valid (bytes_of (replicate n CHR ''1''))" for n
    by (induction n) (simp_all add: bytes_of_def)
  then show ?thesis by (simp add: demo_json_def)
qed

definition demo_payload :: status_payload where
  "demo_payload = AccessStatus \<lparr>asf_node_id = ''n'', asf_pid = 7, asf_started_at = 1, asf_services = []\<rparr>"

definition demo_save :: save_env where
  "demo_save = \<lparr>sa_mkdir = True, sa_create = True, sa_write_stops = None, sa_sync = True, sa_rename = True,
     sa_cleanup = True, sa_legacy = True, sa_pid = 7, sa_counter = 0, sa_mode = 0x1A4\<rparr>"

lemma status_save_atomic_witness:
  "\<exists>fs fs'. x_crash (x_run (take 3 (fst (save_ops demo_save Access ''/s'' ''new''))) fs) fs' \<and> fs' \<noteq> fs \<and>
     fs' ''/s/access-status.json'' = fs ''/s/access-status.json''"
proof -
  let ?fs = "[''/s/access-status.json'' \<mapsto> saved_file demo_save ''old'']"
  let ?now = "x_run (take 3 (fst (save_ops demo_save Access ''/s'' ''new''))) ?fs"
  have target: "path_join ''/s'' (status_file_name Access) = ''/s/access-status.json''"
    by (simp add: path_join_def ends_with_def)
  have ops: "take 3 (fst (save_ops demo_save Access ''/s'' ''new'')) =
      [XCreate (path_join ''/s'' (status_temp demo_save Access)) 0x1A4, XWrite (path_join ''/s'' (status_temp demo_save Access)) ''new'',
       XSync (path_join ''/s'' (status_temp demo_save Access))]"
    by (simp add: save_ops_def demo_save_def Let_def)
  have apart: "path_join ''/s'' (status_temp demo_save Access) \<noteq> ''/s/access-status.json''"
    unfolding target [symmetric] by (simp del: status_file_name.simps)
  have c: "x_crash ?now ?now" by (auto simp: x_crash_def split: option.split)
  have pre: "case ?fs (path_join ''/s'' (status_file_name Access)) of Some old \<Rightarrow> x_synced old | None \<Rightarrow> True"
    by (simp add: target saved_file_def)
  have "?now (path_join ''/s'' (status_temp demo_save Access)) \<noteq> None" unfolding ops by simp
  then have ne: "?now \<noteq> ?fs" using apart by auto
  have "?now ''/s/access-status.json'' = ?fs ''/s/access-status.json''" unfolding ops using apart by simp
  with status_save_atomic [OF pre c] c ne show ?thesis by blast
qed



text \<open>Between taking the user lock and replacing the owner record, a process shows its crashed predecessor's
record under a held lock, so a left-over snapshot of the predecessor is judged current.\<close>

lemma leftover_snapshot_judged_current:
  assumes "payload_pid v = 7"
  shows "\<exists>w0 w. own_fresh w0 \<and> own_run False True w0 w \<and> pr_phase (at_proc w 0) = RecordUser \<and>
    freshness_of (SnapshotPresent raw v) (probe False quiet (at_proc w 1) Access w) = FreshCurrent"
proof -
  let ?start = "(one_key False)\<lparr>ow_user_record := [(1, Access) \<mapsto> \<lparr>ow_role = Access, ow_pid = 7, ow_node_id = None\<rparr>]\<rparr>"
  let ?later = "turns False quiet 0 2 ?start"
  have fresh: "own_fresh ?start" using one_key_fresh [of False] by (simp add: own_fresh_def)
  have run: "own_run False True ?start ?later"
    using run_turns [OF own_start, where k = 2 and i = 0 and en = quiet and w0 = ?start and m = False and reliable = True]
    by (simp add: one_key_def quiet_def)
  have st: "pr_phase (at_proc ?later 0) = RecordUser \<and>
      probe False quiet (at_proc ?later 1) Access ?later = RunningAt UserTier (Some \<lparr>ow_role = Access, ow_pid = 7, ow_node_id = None\<rparr>)"
    by (simp add: turns_def numeral_2_eq_2 own_act_def one_key_def set_phase_def claim_user_def quiet_def Let_def
        probe_def probe_tiers_def tier_liveness_def tier_held_def lock_is_held_def probe_kind_def tier_owner_def)
  from st assms have "freshness_of (SnapshotPresent raw v) (probe False quiet (at_proc ?later 1) Access ?later) = FreshCurrent" by simp
  with fresh run st show ?thesis by blast
qed

end
