(* ===== verification/HostRun.thy ===== *)
theory HostRun
  imports Endpoint StatusFile "HOL-Library.Sublist"
begin

text \<open>
  One run of a role in the host (\<open>crates/host/src/runtime\<close>): claim, load, key, identity, bind, role
  loop, status cleanup and release, for a run from a configuration file and for a quick run; the
  end of the process (\<open>src/lifecycle.rs\<close>, \<open>execute\<close> in \<open>src/app.rs\<close>) with its forced exit and
  exit status.

  What other processes decide (whether the claim succeeds, whether the identity is taken; see
  \<open>Ownership\<close>) and what iroh decides are inputs of a run. The role loop is an argument, as in the code.
\<close>

section \<open>Errors\<close>

text \<open>\<open>CliError\<close> without the message; an error that carries none is general.\<close>

datatype category = CatConfig | CatPermission | CatIroh | CatService | CatConflict

datatype claim_error = RoleBusy | NoUserDir | ClaimIo

datatype publish_error = SameIdentity | ProbeIo

datatype 'e host_error =
    ClaimErr claim_error
  | MissingConfig cfg_error
  | ConfigLoadErr load_error
  | NodeKeyErr key_error
  | PersistErr cfg_error
  | SettingsErr key_error
  | PublishErr publish_error
  | BindErr endpoint_error
  | IrohBindErr
  | QuickInvalid schema_error
  | RoleErr 'e

text \<open>Which errors are built as \<open>CliError\<close>.\<close>

fun trust_category :: "trust_error \<Rightarrow> category option" where
  "trust_category (NotAbsolute _) = Some CatPermission"
| "trust_category (NotCanonical _) = Some CatPermission"
| "trust_category (NotPlain _ _) = Some CatPermission"
| "trust_category (UnsafeDirectory _ _ _) = Some CatPermission"
| "trust_category (WrongKind _ _) = Some CatPermission"
| "trust_category (UnsafeFinal _ _) = Some CatPermission"
| "trust_category (DirMissing _) = Some CatPermission"
| "trust_category _ = None"

fun load_category :: "load_error \<Rightarrow> category option" where
  "load_category (TrustRefused e) = trust_category e"
| "load_category UidNotNumeric = Some CatConfig"
| "load_category UidNotText = Some CatConfig"
| "load_category Unpinned = Some CatPermission"
| "load_category LoadFailed = None"
| "load_category (NoSecretKey _) = Some CatConfig"

fun cfg_category :: "cfg_error \<Rightarrow> category option" where
  "cfg_category (StoreErr LockBusy) = Some CatConfig"
| "cfg_category (StoreErr _) = None"
| "cfg_category (KeyErr _) = None"
| "cfg_category _ = Some CatConfig"

fun host_category :: "'e host_error \<Rightarrow> category option" where
  "host_category (ClaimErr RoleBusy) = Some CatConflict"
| "host_category (ClaimErr NoUserDir) = Some CatConfig"
| "host_category (ClaimErr ClaimIo) = None"
| "host_category (MissingConfig e) = cfg_category e"
| "host_category (ConfigLoadErr e) = load_category e"
| "host_category (NodeKeyErr _) = None"
| "host_category (PersistErr e) = cfg_category e"
| "host_category (SettingsErr _) = None"
| "host_category (PublishErr SameIdentity) = Some CatConflict"
| "host_category (PublishErr ProbeIo) = None"
| "host_category (BindErr _) = None"
| "host_category IrohBindErr = None"
| "host_category (QuickInvalid _) = Some CatConfig"
| "host_category (RoleErr _) = None"

section \<open>Roles\<close>

text \<open>\<open>RoleStrategy\<close> with the parts of \<open>RoleDoc\<close> a run uses.\<close>

record ('c, 'sk, 's, 'ep, 'obs) role_strategy =
  rs_role :: role
  rs_parse :: "string \<Rightarrow> 'c option"
  rs_validate :: "'c \<Rightarrow> schema_error + unit"
  rs_secret :: "'c \<Rightarrow> string"
  rs_with_secret :: "string \<Rightarrow> 'c \<Rightarrow> 'c"
  rs_settings :: "'c \<Rightarrow> key_error + 's"
  rs_key :: "'s \<Rightarrow> 'sk option"
  rs_bind :: "'s \<Rightarrow> endpoint_error + 'ep"
  rs_payload :: "'obs \<Rightarrow> status_payload"

definition validated :: "('c \<Rightarrow> schema_error + unit) \<Rightarrow> 'c option \<Rightarrow> 'c option" where
  "validated valid c = (case c of Some x \<Rightarrow> if valid x = Inr () then Some x else None | None \<Rightarrow> None)"

definition serve_strategy ::
    "toml_lib \<Rightarrow> 'sk key_lib \<Rightarrow> 'sk \<Rightarrow> (string \<Rightarrow> 'url option)
      \<Rightarrow> (serve_config, 'sk, 'sk serve_settings, ('sk, 'url) endpoint_config, serve_observation) role_strategy" where
  "serve_strategy lib kl fresh parse_url =
     \<lparr>rs_role = Serve,
      rs_parse = (\<lambda>s. validated serve_validate (tl_serve lib s)),
      rs_validate = serve_validate,
      rs_secret = (\<lambda>c. nc_secret_key (sc_node c)),
      rs_with_secret = (\<lambda>k c. c\<lparr>sc_node := (sc_node c)\<lparr>nc_secret_key := k\<rparr>\<rparr>),
      rs_settings = serve_settings_from kl fresh,
      rs_key = (\<lambda>s. ns_secret_key (serve_node s)),
      rs_bind = bind_serve parse_url fresh,
      rs_payload = (\<lambda>o1. ServeStatus (status_file_of o1))\<rparr>"

definition access_strategy ::
    "toml_lib \<Rightarrow> 'sk key_lib \<Rightarrow> 'sk \<Rightarrow> (string \<Rightarrow> 'url option)
      \<Rightarrow> (access_config, 'sk, 'sk access_settings, ('sk, 'url) endpoint_config, access_observation) role_strategy" where
  "access_strategy lib kl fresh parse_url =
     \<lparr>rs_role = Access,
      rs_parse = (\<lambda>s. validated access_validate (tl_access lib s)),
      rs_validate = access_validate,
      rs_secret = (\<lambda>c. nc_secret_key (ac_node c)),
      rs_with_secret = (\<lambda>k c. c\<lparr>ac_node := (ac_node c)\<lparr>nc_secret_key := k\<rparr>\<rparr>),
      rs_settings = access_settings_from kl fresh,
      rs_key = (\<lambda>s. ns_secret_key (access_node s)),
      rs_bind = bind_access parse_url fresh,
      rs_payload = (\<lambda>o1. AccessStatus (access_status_file_of o1))\<rparr>"

section \<open>The host around a run\<close>

datatype host_event =
    ClaimTaken
  | ConfigLoaded
  | IdentityPublished string bool
  | EndpointBound
  | RoleRan
  | StatusCleaned
  | ClaimReleased

record host_world =
  hw_cfg :: fs
  hw_host :: host_files
  hw_trace :: "host_event list"

definition log :: "host_event \<Rightarrow> host_world \<Rightarrow> host_world" where
  "log ev w = w\<lparr>hw_trace := hw_trace w @ [ev]\<rparr>"

text \<open>What the others decide, the process environment and the outcome of the blocking calls; \<open>re_dir\<close> is the state
directory, if it can be resolved, and \<open>re_iroh_binds\<close> whether iroh opens the endpoint.\<close>

record ('sk, 'ep) run_env =
  re_service :: service_env
  re_claim :: "claim_error + unit"
  re_publish :: "string \<Rightarrow> publish_error + unit"
  re_public :: "'sk \<Rightarrow> string"
  re_iroh_binds :: bool
  re_node_id :: "'ep \<Rightarrow> string"
  re_json :: json_lib
  re_pid :: nat
  re_dir :: "path option"
  re_removes :: bool

datatype ownership_policy = Enforced | Unenforced

definition policy_claim :: "('sk, 'ep) run_env \<Rightarrow> ownership_policy \<Rightarrow> host_world \<Rightarrow> (claim_error + bool) \<times> host_world" where
  "policy_claim env policy w =
     (case policy of
        Unenforced \<Rightarrow> (Inr False, w)
      | Enforced \<Rightarrow> (case re_claim env of Inl e \<Rightarrow> (Inl e, w) | Inr _ \<Rightarrow> (Inr True, log ClaimTaken w)))"

text \<open>Leaving the scope of a claim releases it.\<close>

definition drop_claim :: "bool \<Rightarrow> host_world \<Rightarrow> host_world" where
  "drop_claim claim w = (if claim then log ClaimReleased w else w)"

definition publish_identity ::
    "('sk, 'ep) run_env \<Rightarrow> bool \<Rightarrow> string option \<Rightarrow> host_world \<Rightarrow> (publish_error + unit) \<times> host_world" where
  "publish_identity env claim node_id w =
     (case node_id of
        Some n \<Rightarrow> if claim then (re_publish env n, log (IdentityPublished n (isl (re_publish env n) = False)) w)
                  else (Inr (), w)
      | None \<Rightarrow> (Inr (), w))"

definition finish_run ::
    "('sk, 'ep) run_env \<Rightarrow> role \<Rightarrow> 'e run_completion \<Rightarrow> host_world \<Rightarrow> ('e + unit) \<times> host_world" where
  "finish_run env r completion w =
     (rc_result completion,
      if status_quiesced completion then
        log StatusCleaned
          (case re_dir env of
             None \<Rightarrow> w
           | Some dir \<Rightarrow>
               w\<lparr>hw_host := remove_own_status_file (re_service env) (re_removes env) (re_json env) (re_pid env) dir
                              (status_file_name r) (hw_host w)\<rparr>)
      else w)"

definition run_config ::
    "('c, 'sk, 's, 'ep, 'obs) role_strategy \<Rightarrow> ('sk, 'ep) run_env \<Rightarrow> bool \<Rightarrow> 'c
      \<Rightarrow> ('ep \<Rightarrow> 's \<Rightarrow> host_files \<Rightarrow> 'e run_completion \<times> host_files) \<Rightarrow> host_world
      \<Rightarrow> ('e host_error + unit) \<times> host_world" where
  "run_config S env claim cfg run_loop w =
     (case rs_settings S cfg of
        Inl e \<Rightarrow> (Inl (SettingsErr e), drop_claim claim w)
      | Inr settings \<Rightarrow>
          (let configured_id = map_option (re_public env) (rs_key S settings)
           in case publish_identity env claim configured_id w of
                (Inl e, w1) \<Rightarrow> (Inl (PublishErr e), drop_claim claim w1)
              | (Inr _, w1) \<Rightarrow>
                  (case rs_bind S settings of
                     Inl e \<Rightarrow> (Inl (BindErr e), drop_claim claim w1)
                   | Inr ep \<Rightarrow>
                       if \<not> re_iroh_binds env then (Inl IrohBindErr, drop_claim claim w1)
                       else
                         (case publish_identity env claim
                                 (if configured_id = None then Some (re_node_id env ep) else None) (log EndpointBound w1) of
                            (Inl e, w2) \<Rightarrow> (Inl (PublishErr e), drop_claim claim w2)
                          | (Inr _, w2) \<Rightarrow>
                              (case run_loop ep settings (hw_host w2) of
                                 (completion, host) \<Rightarrow>
                                   (case finish_run env (rs_role S) completion (log RoleRan (w2\<lparr>hw_host := host\<rparr>)) of
                                      (result, w3) \<Rightarrow> (map_err RoleErr result, drop_claim claim w3)))))))"

section \<open>A run from a configuration file\<close>

definition resolve_and_save_key ::
    "toml_lib \<Rightarrow> 'sk key_lib \<Rightarrow> io_env \<Rightarrow> ('c, 'sk, 's, 'ep, 'obs) role_strategy \<Rightarrow> path \<Rightarrow> 'sk \<Rightarrow> 'c \<Rightarrow> fs
      \<Rightarrow> ('e host_error + 'c) \<times> fs" where
  "resolve_and_save_key lib kl io S p fresh cfg fs =
     (case resolve_secret_key kl fresh (rs_secret S cfg) of
        Inl e \<Rightarrow> (Inl (NodeKeyErr e), fs)
      | Inr (key, False) \<Rightarrow> (Inr cfg, fs)
      | Inr (key, True) \<Rightarrow>
          (case persist_generated_key lib kl io (rs_role S) p key fs of
             (Inl e, fs') \<Rightarrow> (Inl (PersistErr e), fs')
           | (Inr saved, fs') \<Rightarrow>
               (case resolve_secret_key kl fresh saved of
                  Inl e \<Rightarrow> (Inl (NodeKeyErr e), fs')
                | Inr _ \<Rightarrow> (Inr (rs_with_secret S saved cfg), fs'))))"

text \<open>\<open>RoleDoc::load\<close>.\<close>

definition load_doc :: "io_env \<Rightarrow> (string \<Rightarrow> 'c option) \<Rightarrow> path \<Rightarrow> fs \<Rightarrow> 'c option" where
  "load_doc io parse p fs = (if io_reads io then Option.bind (map_option f_data (fs p)) parse else None)"

text \<open>The blocking part: load, then resolve the key and save a generated one. \<open>state_exists\<close> is what \<open>Path::exists\<close>
says of the state directory of a system service.\<close>

definition load_and_key ::
    "toml_lib \<Rightarrow> 'sk key_lib \<Rightarrow> io_env \<Rightarrow> ('c, 'sk, 's, 'ep, 'obs) role_strategy \<Rightarrow> ('sk, 'ep) run_env \<Rightarrow> bool
      \<Rightarrow> path \<Rightarrow> 'sk \<Rightarrow> host_world \<Rightarrow> ('e host_error + 'c) \<times> host_world" where
  "load_and_key lib kl io S env state_exists p fresh w =
     (case load_config (re_service env) (hf_tree (hw_host w)) state_exists (rs_parse S) (rs_secret S)
             (load_doc io (rs_parse S) p (hw_cfg w)) p of
        Inl e \<Rightarrow> (Inl (ConfigLoadErr e), w)
      | Inr cfg \<Rightarrow>
          (case resolve_and_save_key lib kl io S p fresh cfg (hw_cfg w) of
             (r, cfs) \<Rightarrow> (r, w\<lparr>hw_cfg := cfs\<rparr>)))"

definition run_skeleton ::
    "toml_lib \<Rightarrow> 'sk key_lib \<Rightarrow> io_env \<Rightarrow> ('c, 'sk, 's, 'ep, 'obs) role_strategy \<Rightarrow> ('sk, 'ep) run_env \<Rightarrow> bool
      \<Rightarrow> path \<Rightarrow> 'sk \<Rightarrow> ownership_policy \<Rightarrow> ('ep \<Rightarrow> 's \<Rightarrow> host_files \<Rightarrow> 'e run_completion \<times> host_files)
      \<Rightarrow> host_world \<Rightarrow> ('e host_error + unit) \<times> host_world" where
  "run_skeleton lib kl io S env state_exists p fresh policy run_loop w =
     (case policy_claim env policy w of
        (Inl e, w1) \<Rightarrow> (Inl (ClaimErr e), w1)
      | (Inr claim, w1) \<Rightarrow>
          (case load_and_key lib kl io S env state_exists p fresh w1 of
             (Inl e, w2) \<Rightarrow> (Inl e, drop_claim claim w2)
           | (Inr cfg, w2) \<Rightarrow> run_config S env claim cfg run_loop (log ConfigLoaded w2)))"

text \<open>The \<open>run\<close> command checks that the file exists before it claims anything.\<close>

definition run_command_role ::
    "toml_lib \<Rightarrow> 'sk key_lib \<Rightarrow> io_env \<Rightarrow> ('c, 'sk, 's, 'ep, 'obs) role_strategy \<Rightarrow> ('sk, 'ep) run_env \<Rightarrow> bool
      \<Rightarrow> path \<Rightarrow> 'sk \<Rightarrow> ('ep \<Rightarrow> 's \<Rightarrow> host_files \<Rightarrow> 'e run_completion \<times> host_files)
      \<Rightarrow> host_world \<Rightarrow> ('e host_error + unit) \<times> host_world" where
  "run_command_role lib kl io S env state_exists p fresh run_loop w =
     (case require_existing io p (hw_cfg w) of
        Inl e \<Rightarrow> (Inl (MissingConfig e), w)
      | Inr _ \<Rightarrow> run_skeleton lib kl io S env state_exists p fresh Enforced run_loop w)"

text \<open>A quick run: nothing is stored.\<close>

definition run_quick ::
    "('c, 'sk, 's, 'ep, 'obs) role_strategy \<Rightarrow> ('sk, 'ep) run_env \<Rightarrow> 'c
      \<Rightarrow> ('ep \<Rightarrow> 's \<Rightarrow> host_files \<Rightarrow> 'e run_completion \<times> host_files) \<Rightarrow> host_world
      \<Rightarrow> ('e host_error + unit) \<times> host_world" where
  "run_quick S env cfg run_loop w =
     (case rs_validate S cfg of
        Inl e \<Rightarrow> (Inl (QuickInvalid e), w)
      | Inr _ \<Rightarrow>
          (case re_claim env of
             Inl e \<Rightarrow> (Inl (ClaimErr e), w)
           | Inr _ \<Rightarrow> run_config S env True cfg run_loop (log ClaimTaken w)))"

text \<open>The status sink of a run saves each observation; a save error is the sink's error.\<close>

definition status_sink ::
    "('c, 'sk, 's, 'ep, 'obs) role_strategy \<Rightarrow> ('sk, 'ep) run_env \<Rightarrow> publish_env \<times> save_env \<times> 'obs \<Rightarrow> host_files
      \<Rightarrow> (status_error + path) \<times> host_files" where
  "status_sink S env call hf =
     (case call of (pu, sv, observation) \<Rightarrow>
        (case re_dir env of
           None \<Rightarrow> (Inl NoStateDir, hf)
         | Some dir \<Rightarrow> save_to (re_service env) pu sv (re_json env) (rs_role S) dir (rs_payload S observation) hf))"

section \<open>The end of the process\<close>

definition EXIT_WATCHDOG :: duration where
  "EXIT_WATCHDOG = from_secs 10"

datatype forced_exit = ForcedSignal | ForcedWatchdog

fun forced_exit_code :: "forced_exit \<Rightarrow> int" where
  "forced_exit_code ForcedSignal = 130"
| "forced_exit_code ForcedWatchdog = 1"

text \<open>
  \<open>forced_exit_after\<close> entered at time \<open>now\<close>: the further stop signals arrive at the times listed, in
  order; \<open>tie\<close> is which branch \<open>select!\<close> takes when both are ready.
\<close>

fun forced_exit_after :: "bool \<Rightarrow> instant \<Rightarrow> duration \<Rightarrow> instant \<Rightarrow> instant list \<Rightarrow> forced_exit \<times> instant" where
  "forced_exit_after tie deadline watchdog now [] = (ForcedWatchdog, max now (deadline + watchdog))"
| "forced_exit_after tie deadline watchdog now (t # signals) =
     (let fires = max now (deadline + watchdog); at = max now t
      in if fires < at \<or> fires = at \<and> tie then (ForcedWatchdog, fires)
         else if deadline \<le> at then (ForcedSignal, at)
         else forced_exit_after tie deadline watchdog at signals)"

fun category_code :: "category option \<Rightarrow> int" where
  "category_code (Some CatConfig) = 2"
| "category_code (Some CatPermission) = 3"
| "category_code (Some CatIroh) = 4"
| "category_code (Some CatService) = 5"
| "category_code (Some CatConflict) = 6"
| "category_code None = 1"

text \<open>The end of \<open>execute\<close> for a run: the run is over, or it was dropped by a forced exit, which still tries to
remove the status file.\<close>

definition execute_end ::
    "('sk, 'ep) run_env \<Rightarrow> role \<Rightarrow> forced_exit + ('e host_error + unit) \<Rightarrow> host_files \<Rightarrow> int \<times> host_files" where
  "execute_end env r outcome hf =
     (case outcome of
        Inl forced \<Rightarrow>
          (forced_exit_code forced,
           case re_dir env of
             None \<Rightarrow> hf
           | Some dir \<Rightarrow> remove_own_status_file (re_service env) (re_removes env) (re_json env) (re_pid env) dir
                            (status_file_name r) hf)
      | Inr (Inr _) \<Rightarrow> (0, hf)
      | Inr (Inl e) \<Rightarrow> (category_code (host_category e), hf))"

section \<open>What a role promises its run\<close>

locale host_role =
  fixes S :: "('c, 'sk, 's, 'ep, 'obs) role_strategy" and kl :: "'sk key_lib"
  assumes with_secret: "rs_secret S (rs_with_secret S k c) = k"
    and settings_key: "rs_settings S c = Inr s \<Longrightarrow> rs_secret S c \<noteq> [] \<Longrightarrow>
      rs_key S s = Some (kl_from_bytes kl (unwrap_or (kl_base64_decode kl (rs_secret S c)) []))"
    and parsed_valid: "rs_parse S t = Some c \<Longrightarrow> rs_validate S c = Inr ()"
begin

lemma resolved_secret:
  assumes "resolve_and_save_key lib kl io S p fresh c fs = (Inr c', fs')" and "key_lib_ok kl" and "key_reads_back lib"
  shows "rs_secret S c' \<noteq> []
    \<and> (if rs_secret S c = [] then file_key lib p fs' = Some (rs_secret S c') else c' = c \<and> fs' = fs)"
proof (cases "rs_secret S c = []")
  case True
  then have empty: "resolve_secret_key kl fresh (rs_secret S c) = Inr (fresh, True)"
    by (simp add: resolve_secret_key_def)
  obtain r fs1 where r: "persist_generated_key lib kl io (rs_role S) p fresh fs = (r, fs1)" by fastforce
  with assms(1) empty obtain k where k: "r = Inr k" "fs' = fs1" "c' = rs_with_secret S k c"
    by (auto simp: resolve_and_save_key_def split: sum.splits)
  from persist_spec [OF assms(3,2), where io = io and role = "rs_role S" and p = p and key = fresh and fs = fs]
  have "file_key lib p fs' = Some k" by (simp add: r k)
  moreover from this have "k \<noteq> []"
    by (auto simp: file_key_def existing_secret_key_def bind_eq_Some_conv split: option.splits if_splits)
  ultimately show ?thesis by (simp add: k with_secret True)
next
  case False
  with assms(1) show ?thesis
    by (auto simp: resolve_and_save_key_def resolve_secret_key_def split: option.splits if_splits)
qed

end

lemma node_settings_key:
  "nc_node_settings kl fresh n = Inr s \<Longrightarrow> nc_secret_key n \<noteq> [] \<Longrightarrow>
     ns_secret_key s = Some (kl_from_bytes kl (unwrap_or (kl_base64_decode kl (nc_secret_key n)) []))"
  by (auto simp: nc_node_settings_def resolve_secret_key_def split: option.splits if_splits)

interpretation serve_role: host_role "serve_strategy lib kl fresh parse_url" kl
  by unfold_locales
    (auto simp: serve_strategy_def serve_settings_from_def and_then_Inr node_settings_key validated_def
      split: option.splits if_splits)

interpretation access_role: host_role "access_strategy lib kl fresh parse_url" kl
  by unfold_locales
    (auto simp: access_strategy_def access_settings_from_def and_then_Inr node_settings_key validated_def
      split: option.splits if_splits)

section \<open>The order of a run\<close>

lemma log_trace [simp]: "hw_trace (log ev w) = hw_trace w @ [ev]" "hw_cfg (log ev w) = hw_cfg w" "hw_host (log ev w) = hw_host w"
  by (simp_all add: log_def)

lemma drop_claim_simps [simp]:
  "hw_trace (drop_claim True w) = hw_trace w @ [ClaimReleased]" "drop_claim False w = w"
  "hw_cfg (drop_claim c w) = hw_cfg w" "hw_host (drop_claim c w) = hw_host w"
  by (simp_all add: drop_claim_def)

text \<open>What a claimed run with a configured key may do, in order; how far it came follows from its result.\<close>

fun steps_of :: "string \<Rightarrow> bool \<Rightarrow> 'e host_error + unit \<Rightarrow> host_event list" where
  "steps_of n quiesced (Inl (PublishErr e)) = [ConfigLoaded, IdentityPublished n False]"
| "steps_of n quiesced (Inl (BindErr e)) = [ConfigLoaded, IdentityPublished n True]"
| "steps_of n quiesced (Inl IrohBindErr) = [ConfigLoaded, IdentityPublished n True]"
| "steps_of n quiesced (Inl (SettingsErr e)) = [ConfigLoaded]"
| "steps_of n quiesced (Inl (RoleErr e)) =
     [ConfigLoaded, IdentityPublished n True, EndpointBound, RoleRan] @ (if quiesced then [StatusCleaned] else [])"
| "steps_of n quiesced (Inr _) =
     [ConfigLoaded, IdentityPublished n True, EndpointBound, RoleRan] @ (if quiesced then [StatusCleaned] else [])"
| "steps_of n quiesced (Inl _) = []"

definition claimed_run :: "('sk, 'ep) run_env \<Rightarrow> host_world \<Rightarrow> ('e host_error + unit) \<times> host_world \<Rightarrow> bool" where
  "claimed_run env w out \<longleftrightarrow>
     (case re_claim env of
        Inl e \<Rightarrow> out = (Inl (ClaimErr e), w)
      | Inr _ \<Rightarrow>
          (\<exists>n quiesced. hw_trace (snd out) = hw_trace w @ ClaimTaken # steps_of n quiesced (fst out) @ [ClaimReleased] \<and>
             (EndpointBound \<in> set (steps_of n quiesced (fst out)) \<longrightarrow> re_publish env n = Inr ())))"

context host_role begin

lemma run_config_order:
  assumes "rs_secret S cfg \<noteq> []"
  shows "\<exists>n quiesced. hw_trace (snd (run_config S env True cfg run_loop (log ConfigLoaded w))) =
      hw_trace w @ steps_of n quiesced (fst (run_config S env True cfg run_loop (log ConfigLoaded w))) @ [ClaimReleased] \<and>
    (EndpointBound \<in> set (steps_of n quiesced (fst (run_config S env True cfg run_loop (log ConfigLoaded w)))) \<longrightarrow>
       re_publish env n = Inr ())"
proof (cases "rs_settings S cfg")
  case (Inl e)
  then show ?thesis by (simp add: run_config_def)
next
  case (Inr s)
  from settings_key [OF this assms] obtain k where k: "rs_key S s = Some k" by blast
  let ?n = "re_public env k"
  show ?thesis
  proof (cases "re_publish env ?n")
    case (Inl e)
    with Inr k show ?thesis by (auto simp: run_config_def publish_identity_def intro!: exI [of _ ?n])
  next
    case pub: (Inr u)
    show ?thesis
    proof (cases "\<exists>ep. rs_bind S s = Inr ep \<and> re_iroh_binds env")
      case False
      with Inr k pub show ?thesis
        by (cases "rs_bind S s") (auto simp: run_config_def publish_identity_def intro!: exI [of _ ?n])
    next
      case True
      then obtain ep where ep: "rs_bind S s = Inr ep" "re_iroh_binds env" by blast
      obtain completion host where loop: "run_loop ep s (hw_host w) = (completion, host)" by fastforce
      show ?thesis
        using Inr k pub ep loop
        by (cases "rc_result completion")
          (auto simp: run_config_def publish_identity_def finish_run_def intro!: exI [of _ ?n]
            exI [of _ "status_quiesced completion"] split: option.split)
    qed
  qed
qed

lemma load_and_key_result:
  fixes r :: "'e host_error + 'c"
  assumes "load_and_key lib kl io S env state_exists p fresh w = (r, w')" and "key_lib_ok kl" and "key_reads_back lib"
  shows "hw_trace w' = hw_trace w \<and> hw_host w' = hw_host w \<and> (case r of
      Inr cfg \<Rightarrow> rs_secret S cfg \<noteq> []
    | Inl e \<Rightarrow> (case e of ConfigLoadErr _ \<Rightarrow> True | NodeKeyErr _ \<Rightarrow> True | PersistErr _ \<Rightarrow> True | _ \<Rightarrow> False))"
proof (cases "load_config (re_service env) (hf_tree (hw_host w)) state_exists (rs_parse S) (rs_secret S)
    (load_doc io (rs_parse S) p (hw_cfg w)) p")
  case (Inl e)
  with assms(1) show ?thesis by (auto simp: load_and_key_def)
next
  case (Inr cfg)
  obtain r1 :: "'e host_error + 'c" and cfs where k: "resolve_and_save_key lib kl io S p fresh cfg (hw_cfg w) = (r1, cfs)" by fastforce
  with assms(1) Inr have out: "r = r1" "w' = w\<lparr>hw_cfg := cfs\<rparr>" by (simp_all add: load_and_key_def)
  show ?thesis
  proof (cases r1)
    case (Inl e)
    have "case e of ConfigLoadErr _ \<Rightarrow> True | NodeKeyErr _ \<Rightarrow> True | PersistErr _ \<Rightarrow> True | _ \<Rightarrow> False"
      using k Inl by (auto simp: resolve_and_save_key_def split: sum.splits prod.splits bool.splits)
    then show ?thesis using out Inl by simp
  next
    case (Inr c)
    with resolved_secret [OF k [unfolded Inr] assms(2,3)] out show ?thesis by simp
  qed
qed

lemma run_order:
  fixes run_loop :: "'ep \<Rightarrow> 's \<Rightarrow> host_files \<Rightarrow> 'e run_completion \<times> host_files"
  assumes "key_lib_ok kl" and "key_reads_back lib"
  shows "claimed_run env w (run_skeleton lib kl io S env state_exists p fresh Enforced run_loop w)"
proof (cases "re_claim env")
  case (Inl e)
  then show ?thesis by (simp add: claimed_run_def run_skeleton_def policy_claim_def)
next
  case (Inr u)
  let ?w = "log ClaimTaken w"
  obtain r :: "'e host_error + 'c" and w1 where load: "load_and_key lib kl io S env state_exists p fresh ?w = (r, w1)" by fastforce
  note spec = load_and_key_result [OF load assms]
  show ?thesis
  proof (cases r)
    case (Inl e)
    with spec Inr load show ?thesis
      by (cases e) (auto simp: claimed_run_def run_skeleton_def policy_claim_def)
  next
    case cfg: (Inr cfg)
    with spec have "rs_secret S cfg \<noteq> []" by simp
    from run_config_order [OF this, of env run_loop w1] spec Inr load cfg show ?thesis
      by (auto simp: claimed_run_def run_skeleton_def policy_claim_def)
  qed
qed

text \<open>What \<open>toml\<close> and \<open>toml_edit\<close> agree on: the key of a document.\<close>

definition secret_agrees :: "toml_lib \<Rightarrow> bool" where
  "secret_agrees lib \<longleftrightarrow>
     (\<forall>s c. rs_parse S s = Some c \<longrightarrow>
        (\<exists>doc. tl_parse lib s = Some doc \<and>
           existing_secret_key doc = (if rs_secret S c = [] then None else Some (rs_secret S c))))"

lemma plain_load:
  "trusted_uid_from_env (re_service env) = Inr None \<Longrightarrow>
   load_config (re_service env) fs ex (rs_parse S) (rs_secret S) plain p = Inr cfg \<Longrightarrow> plain = Some cfg"
  by (auto simp: load_config_def split: if_splits option.splits)

lemma loaded_key_is_the_files:
  fixes cfg :: 'c
  assumes "load_and_key lib kl io S env ex p fresh w = ((Inr cfg :: 'e host_error + 'c), w')"
    and "trusted_uid_from_env (re_service env) = Inr None"
    and "key_lib_ok kl" and "key_reads_back lib" and "secret_agrees lib"
  shows "rs_secret S cfg \<noteq> [] \<and> file_key lib p (hw_cfg w') = Some (rs_secret S cfg)
    \<and> (file_key lib p (hw_cfg w) = None \<or> file_key lib p (hw_cfg w) = Some (rs_secret S cfg))"
proof -
  obtain c where l: "load_config (re_service env) (hf_tree (hw_host w)) ex (rs_parse S) (rs_secret S)
      (load_doc io (rs_parse S) p (hw_cfg w)) p = Inr c"
    using assms(1) by (auto simp: load_and_key_def split: sum.splits prod.splits)
  then have c: "load_doc io (rs_parse S) p (hw_cfg w) = Some c"
      "resolve_and_save_key lib kl io S p fresh c (hw_cfg w) = ((Inr cfg :: 'e host_error + 'c), hw_cfg w')"
    using assms(1) plain_load [OF assms(2) l] by (auto simp: load_and_key_def split: prod.splits)
  then obtain f where f: "hw_cfg w p = Some f" "rs_parse S (f_data f) = Some c"
    by (auto simp: load_doc_def bind_eq_Some_conv split: if_splits)
  then have key: "file_key lib p (hw_cfg w) = (if rs_secret S c = [] then None else Some (rs_secret S c))"
    using assms(5) unfolding secret_agrees_def by (fastforce simp: file_key_def file_doc_def)
  from resolved_secret [OF c(2) assms(3,4)] key show ?thesis by (auto split: if_splits)
qed

end

section \<open>Properties of a run\<close>

lemma map_err_cases [simp]: "map_err f r = Inl x \<longleftrightarrow> (\<exists>e. r = Inl e \<and> x = f e)"
  by (cases r) auto


text \<open>C27: the claim brackets everything. A refused start leaves the host as it was. A claimed run of either role,
however it ends, takes the claim first and releases it last, and in between loads, publishes its identity, binds,
runs and cleans up in this order, going exactly as far as its result says; no endpoint is bound before the
identity of the configuration was published without a conflict.\<close>

theorem claim_brackets_run:
  assumes "key_lib_ok kl" and "key_reads_back lib"
  shows "claimed_run env w (run_skeleton lib kl io (serve_strategy lib kl fresh parse_url) env ex p fresh Enforced run_serve_loop w)
    \<and> claimed_run env' w (run_skeleton lib kl io (access_strategy lib kl fresh parse_url) env' ex p fresh Enforced run_access_loop w)"
  by (intro conjI serve_role.run_order access_role.run_order assms)

text \<open>An identity survives restarts. Two starts of a role on one file that both got their configuration, each
with its own generator, with any run in between that left the file, have the same key.\<close>

theorem identity_survives_restart:
  fixes cfg1 cfg2 :: serve_config
  assumes "key_lib_ok kl" and "key_reads_back lib"
    and "host_role.secret_agrees (serve_strategy lib kl fresh1 parse_url) lib"
    and "host_role.secret_agrees (serve_strategy lib kl fresh2 parse_url) lib"
    and "trusted_uid_from_env (re_service env) = Inr None"
    and "load_and_key lib kl io1 (serve_strategy lib kl fresh1 parse_url) env ex p fresh1 w1 = ((Inr cfg1 :: string host_error + serve_config), w1')"
    and "hw_cfg w2 p = hw_cfg w1' p"
    and "load_and_key lib kl io2 (serve_strategy lib kl fresh2 parse_url) env ex p fresh2 w2 = ((Inr cfg2 :: string host_error + serve_config), w2')"
    and "serve_settings_from kl fresh1 cfg1 = Inr s1" and "serve_settings_from kl fresh2 cfg2 = Inr s2"
  shows "ns_secret_key (serve_node s1) = ns_secret_key (serve_node s2) \<and> ns_secret_key (serve_node s1) \<noteq> None"
proof -
  note k1 = serve_role.loaded_key_is_the_files [OF assms(6,5,1,2,3)]
  note k2 = serve_role.loaded_key_is_the_files [OF assms(8,5,1,2,4)]
  have "file_key lib p (hw_cfg w2) = file_key lib p (hw_cfg w1')"
    using assms(7) by (simp add: file_key_def file_doc_def)
  with k1 k2 have same: "nc_secret_key (sc_node cfg1) = nc_secret_key (sc_node cfg2)" "nc_secret_key (sc_node cfg1) \<noteq> []"
    by (auto simp: serve_strategy_def)
  have key: "serve_settings_from kl fr c = Inr s \<Longrightarrow> nc_secret_key (sc_node c) \<noteq> [] \<Longrightarrow>
      ns_secret_key (serve_node s) = Some (kl_from_bytes kl (unwrap_or (kl_base64_decode kl (nc_secret_key (sc_node c))) []))" for fr c s
    using node_settings_key by (auto simp: serve_settings_from_def)
  show ?thesis using key [OF assms(9) same(2)] key [OF assms(10)] same by simp
qed

section \<open>Exit codes\<close>

lemma category_code_range: "category_code c \<in> {1, 2, 3, 4, 5, 6}"
  by (cases c rule: category_code.cases) simp_all

lemma no_iroh_category:
  "trust_category t \<noteq> Some CatIroh" "load_category l \<noteq> Some CatIroh" "cfg_category x \<noteq> Some CatIroh"
  "host_category e \<noteq> Some CatIroh"
proof -
  show t: "trust_category t \<noteq> Some CatIroh" for t by (cases t) simp_all
  show l: "load_category l \<noteq> Some CatIroh" for l by (cases l) (simp_all add: t)
  show c: "cfg_category x \<noteq> Some CatIroh" for x by (cases x rule: cfg_category.cases) simp_all
  show "host_category e \<noteq> Some CatIroh" by (cases e rule: host_category.cases) (simp_all add: l c)
qed

lemma conflict_category:
  "trust_category t \<noteq> Some CatConflict" "load_category l \<noteq> Some CatConflict" "cfg_category x \<noteq> Some CatConflict"
  "host_category e = Some CatConflict \<longleftrightarrow> e = ClaimErr RoleBusy \<or> e = PublishErr SameIdentity"
proof -
  show t: "trust_category t \<noteq> Some CatConflict" for t by (cases t) simp_all
  show l: "load_category l \<noteq> Some CatConflict" for l by (cases l) (simp_all add: t)
  show c: "cfg_category x \<noteq> Some CatConflict" for x by (cases x rule: cfg_category.cases) simp_all
  show "host_category e = Some CatConflict \<longleftrightarrow> e = ClaimErr RoleBusy \<or> e = PublishErr SameIdentity"
    by (cases e rule: host_category.cases) (simp_all add: l c)
qed

lemma category_code_six: "category_code c = 6 \<longleftrightarrow> c = Some CatConflict"
  by (cases c rule: category_code.cases) simp_all

lemma run_config_no_claim_error: "fst (run_config S env claim cfg run_loop w) \<noteq> Inl (ClaimErr e)"
  by (auto simp: run_config_def Let_def finish_run_def split: sum.splits prod.splits)

lemma claimed_no_claim_error:
  fixes r :: "'e host_error + unit" and S :: "('c, 'sk, 's, 'ep, 'obs) role_strategy"
  assumes "run_skeleton lib kl io S env ex p fresh policy run_loop w = (r, w')" and "re_claim env = Inr u"
  shows "r \<noteq> Inl (ClaimErr e)"
proof
  assume r: "r = Inl (ClaimErr e)"
  obtain claim w1 where c: "policy_claim env policy w = (Inr claim, w1)"
    using assms(2) by (cases policy) (auto simp: policy_claim_def)
  obtain r1 :: "'e host_error + 'c" and w2 where l: "load_and_key lib kl io S env ex p fresh w1 = (r1, w2)" by fastforce
  show False
  proof (cases r1)
    case (Inl x)
    with assms(1) r c l have "x = ClaimErr e" by (simp add: run_skeleton_def)
    with l Inl show False
      by (auto simp: load_and_key_def resolve_and_save_key_def split: sum.splits prod.splits bool.splits)
  next
    case (Inr cfg)
    with assms(1) r c l run_config_no_claim_error [of S env claim cfg run_loop "log ConfigLoaded w2" e]
    show False by (simp add: run_skeleton_def)
  qed
qed


text \<open>Whatever fails, the status for iroh errors is never used: an endpoint that cannot be bound ends with 1, and
so does a configuration that does not load.\<close>

lemma iroh_exit_code_unused: "fst (execute_end env r outcome hf) \<noteq> 4"
proof -
  have "category_code (host_category e) \<noteq> 4" for e :: "'e host_error"
    using no_iroh_category(4) by (cases "host_category e" rule: category_code.cases) auto
  then show ?thesis
    by (auto simp: execute_end_def split: sum.split elim: forced_exit_code.elims)
qed

lemma bind_failure_exits_1:
  "fst (execute_end env r (Inr (Inl IrohBindErr)) hf) = 1" "fst (execute_end env r (Inr (Inl (BindErr e))) hf) = 1"
  by (simp_all add: execute_end_def)

lemma invalid_config_exits_1: "fst (execute_end env r (Inr (Inl (ConfigLoadErr LoadFailed))) hf) = 1"
  by (simp add: execute_end_def)

section \<open>Forced exit\<close>

lemma forced_exit_exact:
  "forced_exit_after tie deadline watchdog now signals =
    (let fires = max now (deadline + watchdog)
     in case dropWhile (\<lambda>t. max now t < deadline) signals of
          [] \<Rightarrow> (ForcedWatchdog, fires)
        | t # _ \<Rightarrow> if fires < max now t \<or> fires = max now t \<and> tie then (ForcedWatchdog, fires)
                  else (ForcedSignal, max now t))"
proof (induction signals arbitrary: now)
  case (Cons t signals)
  show ?case
  proof (cases "max now t < deadline")
    case True
    let ?late = "dropWhile (\<lambda>s. max now s < deadline) signals"
    have step: "forced_exit_after tie deadline watchdog now (t # signals) = forced_exit_after tie deadline watchdog (max now t) signals"
    proof -
      have "\<not> deadline \<le> max now t" "\<not> max now (deadline + watchdog) < max now t" "max now (deadline + watchdog) \<noteq> max now t"
        using True by auto
      then show ?thesis by (simp del: max_less_iff_conj le_max_iff_disj add: Let_def)
    qed
    have fires: "max (max now t) (deadline + watchdog) = max now (deadline + watchdog)" using True by auto
    have late: "dropWhile (\<lambda>s. max (max now t) s < deadline) signals = ?late"
      using True by (intro dropWhile_cong) auto
    have d: "dropWhile (\<lambda>t. max now t < deadline) (t # signals) = ?late" using True by simp
    show ?thesis
    proof (cases ?late)
      case Nil
      show ?thesis unfolding step Cons.IH fires late d Nil by simp
    next
      case (Cons s ss)
      have "\<not> max now s < deadline" using dropWhile_eq_Cons_conv [of "\<lambda>s. max now s < deadline" signals s ss] Cons by simp
      then have m: "max (max now t) s = max now s" using True by auto
      show ?thesis unfolding step local.Cons.IH fires late d Cons Let_def list.case m by (rule refl)
    qed
  next
    case False
    then have d: "dropWhile (\<lambda>t. max now t < deadline) (t # signals) = t # signals" by (simp only: dropWhile.simps if_False)
    have le: "deadline \<le> max now t" using False by (simp only: not_less)
    show ?thesis unfolding forced_exit_after.simps d Let_def list.case if_P [OF le] by (rule refl)
  qed
qed (simp add: Let_def)

lemma run_serve_ends: "snd (snd (run_serve e s)) \<le> se_stop_at e + DRAIN_GRACE + STATUS_FLUSH_JOIN_BOUND"
proof (cases "se_on_ready e (serve_report e s)")
  case (Inl err)
  then show ?thesis by (simp add: run_serve_def)
next
  case (Inr u)
  let ?d = "se_stop_at e + DRAIN_GRACE"
  let ?j = "join_owners (se_stop_at e) ?d (se_owners e)"
  have "fst (drain ?j ?d (se_sinks e)) \<le> ?d"
    using drain_bounded_time [of ?j ?d "se_sinks e"] by (simp add: join_owners_bounded)
  then show ?thesis
    using Inr stop_flush_time [of "fst (drain ?j ?d (se_sinks e))" "se_flush e"]
    by (cases "se_sink e") (auto simp: run_serve_def begin_drain_def channel_def Let_def split: prod.splits)
qed

lemma run_access_ends:
  "snd (snd (run_access parse_id id_text parse defaults e cfg)) \<le> ae_stop_at e + DRAIN_GRACE + STATUS_FLUSH_JOIN_BOUND"
proof -
  let ?d = "ae_stop_at e + DRAIN_GRACE"
  let ?j = "join_owners (ae_stop_at e) ?d (ae_owners e)"
  have "?j \<le> ?d" by (simp add: join_owners_bounded)
  then show ?thesis
    using stop_flush_time [of ?j "ae_flush e"]
    by (cases "ae_sink e") (auto simp: run_access_def Let_def split: sum.splits prod.splits)
qed

lemma forced_exit_times:
  "case forced_exit_after tie deadline watchdog now signals of
     (ForcedWatchdog, ended) \<Rightarrow> ended = max now (deadline + watchdog)
   | (ForcedSignal, ended) \<Rightarrow> deadline \<le> ended \<and> ended \<le> max now (deadline + watchdog) \<and> (\<exists>s \<in> set signals. ended = max now s)"
proof (cases "dropWhile (\<lambda>t. max now t < deadline) signals")
  case Nil
  show ?thesis unfolding forced_exit_exact Nil by (simp add: Let_def)
next
  case (Cons t ts)
  then have "\<not> max now t < deadline" "t \<in> set signals"
    using dropWhile_eq_Cons_conv [of "\<lambda>t. max now t < deadline" signals t ts]
    by (simp, metis list.set_intros(1) set_dropWhileD)
  with Cons show ?thesis
    unfolding forced_exit_exact Cons
    by (cases "max now (deadline + watchdog) < max now t \<or> max now (deadline + watchdog) = max now t \<and> tie")
      (auto simp: Let_def)
qed


section \<open>Witnesses\<close>

definition demo_run :: "claim_error + unit \<Rightarrow> (bool, (bool, string) endpoint_config) run_env" where
  "demo_run claim =
     \<lparr>re_service = \<lparr>sv_root = False, sv_var = Map.empty, sv_not_unicode = False\<rparr>, re_claim = claim,
      re_publish = (\<lambda>_. Inr ()), re_public = kl_public demo_keys, re_iroh_binds = True, re_node_id = (\<lambda>_. ''n''),
      re_json = demo_json, re_pid = 7, re_dir = Some ''/s'', re_removes = True\<rparr>"

definition demo_host :: host_world where
  "demo_host = \<lparr>hw_cfg = [''c'' \<mapsto> stored (CHR ''k'' # encode_secret_key demo_keys True)],
     hw_host = \<lparr>hf_files = Map.empty, hf_tree = Map.empty\<rparr>, hw_trace = []\<rparr>"

definition demo_loop :: "'ep \<Rightarrow> 's \<Rightarrow> host_files \<Rightarrow> string run_completion \<times> host_files" where
  "demo_loop ep s hf = (\<lparr>rc_result = Inr (), status_quiesced = True\<rparr>, hf)"

lemma claim_brackets_run_witness:
  "claimed_run (demo_run (Inr ())) demo_host
     (run_skeleton demo_toml demo_keys calm (serve_strategy demo_toml demo_keys False Some) (demo_run (Inr ())) True ''c'' False
        Enforced demo_loop demo_host)"
  using claim_brackets_run [OF demo_keys_ok demo_reads_back] by blast


lemma demo_decode: "decode_serve (key_doc k) = Some \<lparr>sc_node = node_config_default\<lparr>nc_secret_key := k\<rparr>, sc_services = []\<rparr>"
  by (simp add: key_doc_def decode_serve_def decode_node_table_def decode_services_def decode_node_def defaulted_def
      optional_def str_value_def node_config_default_def)

lemma demo_decode_nil: "decode_serve tbl_new = Some \<lparr>sc_node = node_config_default, sc_services = []\<rparr>"
  by (simp add: tbl_new_def decode_serve_def decode_node_table_def decode_services_def decode_node_def defaulted_def
      optional_def node_config_default_def)

lemma demo_agrees: "host_role.secret_agrees (serve_strategy demo_toml demo_keys fresh parse_url) demo_toml"
proof -
  have key: "existing_secret_key (key_doc k) = (if k = [] then None else Some k)" for k
    by (simp add: key_doc_def existing_secret_key_def str_value_def)
  have nil: "existing_secret_key tbl_new = None" by (simp add: existing_secret_key_def)
  show ?thesis
    unfolding serve_role.secret_agrees_def
    by (auto simp: serve_strategy_def validated_def demo_toml_def demo_parse_def demo_decode demo_decode_nil key nil
        node_config_default_def split: option.splits if_splits list.splits)
qed

lemma demo_load:
  "load_and_key demo_toml demo_keys calm (serve_strategy demo_toml demo_keys fresh Some) (demo_run (Inr ())) True ''c'' fresh demo_host =
     (Inr \<lparr>sc_node = node_config_default\<lparr>nc_secret_key := encode_secret_key demo_keys True\<rparr>, sc_services = []\<rparr> ::
        'e host_error + serve_config, demo_host)"
proof -
  let ?cfg = "\<lparr>sc_node = node_config_default\<lparr>nc_secret_key := encode_secret_key demo_keys True\<rparr>, sc_services = []\<rparr>"
  have valid: "serve_validate ?cfg = Inr ()"
    by (simp add: serve_validate_iff serve_config_ok_def node_ok_def https_ok_def node_config_default_def)
  have parse: "rs_parse (serve_strategy demo_toml demo_keys fresh Some) (CHR ''k'' # encode_secret_key demo_keys True) = Some ?cfg"
    by (simp add: serve_strategy_def validated_def demo_toml_def demo_parse_def demo_decode valid)
  have doc: "load_doc calm (rs_parse (serve_strategy demo_toml demo_keys fresh Some)) ''c'' (hw_cfg demo_host) = Some ?cfg"
    by (simp add: load_doc_def demo_host_def parse calm_def [THEN arg_cong [of _ _ io_reads]])
  have key: "resolve_secret_key demo_keys fresh (encode_secret_key demo_keys True) = Inr (True, False)"
    by (rule resolve_encoded [OF demo_keys_ok])
  have "load_config (re_service (demo_run (Inr ()))) fs ex pr sec (Some ?cfg) p = Inr ?cfg" for fs ex pr sec p
    by (simp add: load_config_def demo_run_def trusted_uid_from_env_def is_unpinned_service_def)
  moreover have "resolve_and_save_key demo_toml demo_keys calm (serve_strategy demo_toml demo_keys fresh Some) ''c'' fresh ?cfg fs =
      (Inr ?cfg :: 'e host_error + serve_config, fs)" for fs
    by (simp add: resolve_and_save_key_def serve_strategy_def key)
  ultimately show ?thesis by (simp add: load_and_key_def doc)
qed

lemma identity_survives_restart_witness:
  "\<exists>s1 s2. serve_settings_from demo_keys True
       \<lparr>sc_node = node_config_default\<lparr>nc_secret_key := encode_secret_key demo_keys True\<rparr>, sc_services = []\<rparr> = Inr s1 \<and>
     serve_settings_from demo_keys False
       \<lparr>sc_node = node_config_default\<lparr>nc_secret_key := encode_secret_key demo_keys True\<rparr>, sc_services = []\<rparr> = Inr s2 \<and>
     ns_secret_key (serve_node s1) = ns_secret_key (serve_node s2)"
proof -
  let ?cfg = "\<lparr>sc_node = node_config_default\<lparr>nc_secret_key := encode_secret_key demo_keys True\<rparr>, sc_services = []\<rparr>"
  have "\<exists>s. serve_settings_from demo_keys f ?cfg = Inr s" for f
    using resolve_encoded [OF demo_keys_ok, of f True] encoded_ne [OF demo_keys_ok, of True]
    by (simp add: serve_settings_from_def nc_node_settings_def)
  then obtain s1 s2 where s: "serve_settings_from demo_keys True ?cfg = Inr s1" "serve_settings_from demo_keys False ?cfg = Inr s2"
    by blast
  have env: "trusted_uid_from_env (re_service (demo_run (Inr ()))) = Inr None"
    by (simp add: demo_run_def trusted_uid_from_env_def)
  from identity_survives_restart [OF demo_keys_ok demo_reads_back demo_agrees demo_agrees env demo_load refl demo_load s] s
  show ?thesis by blast
qed

end
