(* ===== verification/Registration.thy ===== *)
theory Registration
  imports Update Trust
begin

text \<open>
  The text of a service registration (\<open>crates/host/src/service\<close>): the pin that records whose files
  a system service may trust (\<open>pin.rs\<close>), and the systemd unit, launchd property list, BusyBox init
  script and Task Scheduler definition that carry it (\<open>backend/*.rs\<close>, \<open>task_xml.rs\<close>).

  A path is its bytes; \<open>lossy\<close> is \<open>to_string_lossy\<close>, which changes nothing of a text that is UTF-8.
  The name suffix that test builds add to a service is empty here.
\<close>

section \<open>The pin\<close>

definition KEY :: string where
  "KEY = ''iroh-tunnel-pin''"

record pin =
  pin_config :: path
  pin_uid :: u32

definition hex_upper :: "nat \<Rightarrow> char" where
  "hex_upper d = char_of (if d < 10 then 48 + d else 55 + d)"

definition is_alnum :: "char \<Rightarrow> bool" where
  "is_alnum c \<longleftrightarrow> is_digit c \<or> CHR ''A'' \<le> c \<and> c \<le> CHR ''Z'' \<or> CHR ''a'' \<le> c \<and> c \<le> CHR ''z''"

definition escape_char :: "char \<Rightarrow> string" where
  "escape_char c =
     (if is_alnum c \<or> c = CHR ''/'' \<or> c = CHR ''.'' \<or> c = CHR ''_'' then [c]
      else (let n = of_char c in [CHR ''%'', hex_upper (n div 16), hex_upper (n mod 16)]))"

definition escape :: "path \<Rightarrow> string" where
  "escape p = concat (map escape_char p)"

definition hex_val :: "char \<Rightarrow> nat option" where
  "hex_val c =
     (let n = of_char c
      in if is_digit c then Some (n - 48)
         else if CHR ''A'' \<le> c \<and> c \<le> CHR ''F'' then Some (n - 55)
         else if CHR ''a'' \<le> c \<and> c \<le> CHR ''f'' then Some (n - 87)
         else None)"

text \<open>\<open>u8::from_str_radix\<close> of two bytes, which also takes a plus sign and one digit.\<close>

definition hex_pair :: "char \<Rightarrow> char \<Rightarrow> char option" where
  "hex_pair a b =
     (case hex_val b of
        None \<Rightarrow> None
      | Some y \<Rightarrow> if a = CHR ''+'' then Some (char_of y)
                  else (case hex_val a of Some x \<Rightarrow> Some (char_of (16 * x + y)) | None \<Rightarrow> None))"

fun unescape :: "string \<Rightarrow> path option" where
  "unescape [] = Some []"
| "unescape (c # cs) =
     (if c = CHR ''%'' then
        (case cs of
           a # b # r \<Rightarrow>
             (case hex_pair a b of Some x \<Rightarrow> map_option (\<lambda>t. x # t) (unescape r) | None \<Rightarrow> None)
         | _ \<Rightarrow> None)
      else map_option (\<lambda>t. c # t) (unescape cs))"

definition pin_record :: "pin \<Rightarrow> string" where
  "pin_record p = KEY @ '' config='' @ escape (pin_config p) @ '' uid='' @ nat_str (unat (pin_uid p))"

fun after_first :: "string \<Rightarrow> string \<Rightarrow> string option" where
  "after_first k [] = strip_prefix k []"
| "after_first k (c # cs) = (case strip_prefix k (c # cs) of Some r \<Rightarrow> Some r | None \<Rightarrow> after_first k cs)"

text \<open>\<open>trim_end_matches\<close> of \<open>-->\<close>: every closing marker at the end goes.\<close>

fun trim_markers :: "string \<Rightarrow> string" where
  "trim_markers (a # b # c # r) =
     (if a = CHR ''>'' \<and> b = CHR ''-'' \<and> c = CHR ''-'' then trim_markers r else a # b # c # r)"
| "trim_markers r = r"

definition trim_close :: "string \<Rightarrow> string" where
  "trim_close s = rev (trim_markers (rev s))"

definition is_pin_line :: "string \<Rightarrow> bool" where
  "is_pin_line l \<longleftrightarrow>
     (let l = trim_start 0 l
      in list_ex (\<lambda>marker. case strip_prefix marker l of Some r \<Rightarrow> starts_with r KEY | None \<Rightarrow> False) [''# '', ''<!-- ''])"

definition pin_field :: "string \<Rightarrow> path option \<times> u32 option \<Rightarrow> path option \<times> u32 option" where
  "pin_field word acc =
     (let field = trim_close word
      in case strip_prefix ''config='' field of
           Some value \<Rightarrow> (unescape value, snd acc)
         | None \<Rightarrow>
             (case strip_prefix ''uid='' field of
                Some value \<Rightarrow> (fst acc, map_option word_of_nat (parse_uint (2 ^ 32) value))
              | None \<Rightarrow> acc))"

definition pin_find :: "string \<Rightarrow> pin option" where
  "pin_find body =
     (case List.find is_pin_line (str_lines body) of
        None \<Rightarrow> None
      | Some line \<Rightarrow>
          (case after_first KEY line of
             None \<Rightarrow> None
           | Some rest \<Rightarrow>
               (case fold pin_field (str_words rest) (None, None) of
                  (Some config, Some uid) \<Rightarrow> Some \<lparr>pin_config = config, pin_uid = uid\<rparr>
                | _ \<Rightarrow> None)))"

section \<open>The systemd unit\<close>

definition nl :: string where
  "nl = [CHR 0x0A]"

definition unlines :: "string list \<Rightarrow> string" where
  "unlines ls = concat (map (\<lambda>l. l @ nl) ls)"

record restart_policy =
  on_failure :: bool
  delay_secs :: nat

definition RESTART_DEFAULT :: restart_policy where
  "RESTART_DEFAULT = \<lparr>on_failure = True, delay_secs = 5\<rparr>"

datatype expand = CommandLine | EnvironmentLine

definition unit_plain :: "char \<Rightarrow> bool" where
  "unit_plain c \<longleftrightarrow> is_alnum c \<or> c \<in> set ''_@+=:,./-''"

text \<open>The \<open>replace\<close> calls in their order: backslash, quote, percent and, on a command line, dollar.\<close>

definition double :: "char \<Rightarrow> string \<Rightarrow> string" where
  "double x s = concat (map (\<lambda>c. if c = x then [x, x] else [c]) s)"

definition backslash_quotes :: "string \<Rightarrow> string" where
  "backslash_quotes s = concat (map (\<lambda>c. if c = CHR 0x22 then [CHR 0x5C, c] else [c]) s)"

definition quote_arg :: "string \<Rightarrow> expand \<Rightarrow> string" where
  "quote_arg arg line =
     (if arg \<noteq> [] \<and> list_all unit_plain arg then arg
      else (let escaped = double (CHR ''%'') (backslash_quotes (double (CHR 0x5C) arg));
                escaped = (if line = CommandLine then double (CHR ''$'') escaped else escaped)
            in CHR 0x22 # escaped @ [CHR 0x22]))"

definition format_unit_with ::
    "(path \<Rightarrow> string) \<Rightarrow> role \<Rightarrow> path \<Rightarrow> path \<Rightarrow> path \<Rightarrow> restart_policy \<Rightarrow> pin option \<Rightarrow> string" where
  "format_unit_with lossy r binary config state policy pn =
     unlines
       ((case pn of Some p \<Rightarrow> [''# '' @ pin_record p] | None \<Rightarrow> []) @
        [''[Unit]'',
         ''Description=Iroh Tunnel ('' @ role_name r @ '')'',
         ''After=network-online.target'',
         ''Wants=network-online.target'',
         [],
         ''[Service]'',
         ''Type=simple'',
         ''ExecStart='' @ quote_arg (lossy binary) CommandLine @ '' '' @ role_name r @ '' run --config ''
           @ quote_arg (lossy config) CommandLine,
         ''Environment='' @ quote_arg (''IROH_TUNNEL_STATE_DIR='' @ lossy state) EnvironmentLine] @
        (case pn of
           Some p \<Rightarrow> [''Environment='' @ quote_arg (ENV_TRUSTED_UID @ ''='' @ nat_str (unat (pin_uid p))) EnvironmentLine]
         | None \<Rightarrow> []) @
        [''Restart='' @ (if on_failure policy then ''on-failure'' else ''no''),
         ''RestartSec='' @ nat_str (delay_secs policy),
         ''RestartPreventExitStatus=6'',
         [],
         ''[Install]'',
         ''WantedBy=default.target''])"

section \<open>The launchd property list\<close>

definition xml_escape_char :: "char \<Rightarrow> string" where
  "xml_escape_char c =
     (if c = CHR ''&'' then ''&amp;'' else if c = CHR ''<'' then ''&lt;'' else if c = CHR ''>'' then ''&gt;'' else [c])"

definition xml_escape :: "string \<Rightarrow> string" where
  "xml_escape s = concat (map xml_escape_char s)"

definition job_label :: "role \<Rightarrow> string" where
  "job_label r = ''dev.iroh-tunnel.'' @ role_name r"

definition tabs :: "nat \<Rightarrow> string \<Rightarrow> string" where
  "tabs n s = replicate n (CHR 0x09) @ s"

definition plist_string :: "nat \<Rightarrow> string \<Rightarrow> string" where
  "plist_string n s = tabs n (''<string>'' @ s @ ''</string>'')"

definition quoted :: "string \<Rightarrow> string" where
  "quoted s = CHR 0x22 # s @ [CHR 0x22]"

definition format_plist_with ::
    "(path \<Rightarrow> string) \<Rightarrow> role \<Rightarrow> path \<Rightarrow> path \<Rightarrow> path \<Rightarrow> restart_policy \<Rightarrow> pin option \<Rightarrow> string" where
  "format_plist_with lossy r binary config state policy pn =
     unlines
       ([''<?xml version='' @ quoted ''1.0'' @ '' encoding='' @ quoted ''UTF-8'' @ ''?>''] @
        (case pn of Some p \<Rightarrow> [''<!-- '' @ pin_record p @ '' -->''] | None \<Rightarrow> []) @
        [''<!DOCTYPE plist PUBLIC '' @ quoted ''-//Apple//DTD PLIST 1.0//EN'' @ '' ''
           @ quoted ''http://www.apple.com/DTDs/PropertyList-1.0.dtd'' @ ''>'',
         ''<plist version='' @ quoted ''1.0'' @ ''>'',
         ''<dict>'',
         tabs 1 ''<key>Label</key>'',
         plist_string 1 (xml_escape (job_label r)),
         tabs 1 ''<key>ProgramArguments</key>'',
         tabs 1 ''<array>'',
         plist_string 2 (xml_escape (lossy binary)),
         plist_string 2 (xml_escape (role_name r)),
         plist_string 2 ''run'',
         plist_string 2 ''--config'',
         plist_string 2 (xml_escape (lossy config)),
         tabs 1 ''</array>'',
         tabs 1 ''<key>EnvironmentVariables</key>'',
         tabs 1 ''<dict>'',
         tabs 2 ''<key>IROH_TUNNEL_STATE_DIR</key>'',
         plist_string 2 (xml_escape (lossy state))] @
        (case pn of
           Some p \<Rightarrow> [tabs 2 (''<key>'' @ ENV_TRUSTED_UID @ ''</key>''), plist_string 2 (nat_str (unat (pin_uid p)))]
         | None \<Rightarrow> []) @
        [tabs 1 ''</dict>'',
         tabs 1 ''<key>RunAtLoad</key>'',
         tabs 1 ''<true/>''] @
        (if on_failure policy then
           [tabs 1 ''<key>KeepAlive</key>'', tabs 1 ''<dict>'', tabs 2 ''<key>SuccessfulExit</key>'', tabs 2 ''<false/>'',
            tabs 1 ''</dict>'']
         else []) @
        [''</dict>'', ''</plist>''])"

section \<open>The BusyBox init script\<close>

text \<open>The head of the script, which is all that depends on the installation; the rest is fixed text, an argument
here.\<close>

definition format_script ::
    "(path \<Rightarrow> string) \<Rightarrow> string \<Rightarrow> role \<Rightarrow> path \<Rightarrow> path \<Rightarrow> path \<Rightarrow> pin option \<Rightarrow> string" where
  "format_script lossy functions r binary config state pn =
     unlines
       ([''#!/bin/sh'',
         ''# Auto-generated by `iroh-tunnel service install` '' @ map char_of [0xE2 :: nat, 0x80, 0x94] @ '' do not edit by hand.'',
         ''# BusyBox/SysV init script for iroh-tunnel ('' @ role_name r @ '').'',
         [],
         ''DAEMON='' @ quoted (lossy binary),
         ''ROLE='' @ quoted (role_name r),
         ''CONFIG='' @ quoted (lossy config),
         ''export IROH_TUNNEL_STATE_DIR='' @ quoted (lossy state)] @
        (case pn of
           Some p \<Rightarrow> [''# '' @ pin_record p, ''export '' @ ENV_TRUSTED_UID @ ''='' @ nat_str (unat (pin_uid p))]
         | None \<Rightarrow> []) @
        [''PIDFILE='' @ quoted (''/var/run/iroh-tunnel-'' @ role_name r @ ''.pid''),
         ''LOG='' @ quoted (''/var/log/iroh-tunnel-'' @ role_name r @ ''.log'')]) @ functions"

section \<open>The pin is read back\<close>

definition pin_char :: "char \<Rightarrow> bool" where
  "pin_char c \<longleftrightarrow> plain_char c \<and> c \<noteq> CHR ''>'' \<and> c \<noteq> CHR ''-''"

lemma hex_upper_ok:
  assumes "d < 16"
  shows "hex_val (hex_upper d) = Some d \<and> hex_upper d \<noteq> CHR ''+'' \<and> pin_char (hex_upper d)"
proof -
  have "d \<in> {0, 1, 2, 3, 4, 5, 6, 7, 8, 9, 10, 11, 12, 13, 14, 15}" using assms by simp presburger
  then show ?thesis
    by (elim insertE emptyE)
      (simp_all add: hex_upper_def hex_val_def is_digit_def less_eq_char_def pin_char_def plain_char_def char_of_def bit_0 Let_def)
qed

lemma byte_nibbles: "(of_char (c :: char) :: nat) div 16 < 16" "(of_char (c :: char) :: nat) mod 16 < 16"
  using nat_of_char_less_256 [of c] by linarith+

lemma alnum_pin_char: "is_alnum c \<Longrightarrow> pin_char c"
  by (auto simp: is_alnum_def is_digit_def less_eq_char_def pin_char_def plain_char_def)

lemma escape_char_chars: "list_all pin_char (escape_char c)"
  using hex_upper_ok [OF byte_nibbles(1) [of c]] hex_upper_ok [OF byte_nibbles(2) [of c]] alnum_pin_char [of c]
  by (auto simp: escape_char_def Let_def) (simp_all add: pin_char_def plain_char_def)

lemma escape_chars: "list_all pin_char (escape p)"
  using escape_char_chars by (induction p) (simp_all add: escape_def)

lemma escaped_char: "unescape (escape_char c) = Some [c]"
proof (cases "is_alnum c \<or> c = CHR ''/'' \<or> c = CHR ''.'' \<or> c = CHR ''_''")
  case True
  then have "c \<noteq> CHR ''%''" by (auto simp: is_alnum_def is_digit_def less_eq_char_def)
  with True show ?thesis by (simp add: escape_char_def)
next
  case False
  have "16 * (of_char c div 16) + of_char c mod 16 = (of_char c :: nat)" by simp
  with False hex_upper_ok [OF byte_nibbles(1) [of c]] hex_upper_ok [OF byte_nibbles(2) [of c]] show ?thesis
    by (simp add: escape_char_def Let_def hex_pair_def)
qed

lemma unescape_append: "unescape s = Some t \<Longrightarrow> unescape (s @ r) = map_option (\<lambda>u. t @ u) (unescape r)"
proof (induction s arbitrary: t rule: unescape.induct)
  case 1
  then show ?case by (simp add: option.map_ident)
next
  case (2 c cs)
  show ?case
  proof (cases "c = CHR ''%''")
    case True
    with "2.prems" obtain a b u x v where s: "cs = a # b # u" "hex_pair a b = Some x" "unescape u = Some v" "t = x # v"
      by (auto split: list.splits option.splits)
    then show ?thesis using "2.IH"(1) [OF True s(1) refl s(2,3)] True
      by (simp add: option.map_comp comp_def)
  next
    case False
    with "2.prems" obtain v where "unescape cs = Some v" "t = c # v" by auto
    with "2.IH"(2) [OF False] False show ?thesis by (simp add: option.map_comp comp_def)
  qed
qed

lemma unescape_escape: "unescape (escape p) = Some p"
proof (induction p)
  case (Cons c p)
  then show ?case
    using unescape_append [OF escaped_char, of c "escape p"] by (simp add: escape_def)
qed (simp add: escape_def)

lemma digits_pin_chars: "list_all pin_char (nat_str n)"
proof -
  have "is_digit c \<Longrightarrow> pin_char c" for c
    by (auto simp: is_digit_def less_eq_char_def pin_char_def plain_char_def)
  then show ?thesis using nat_str_is_digit [of n] by (auto simp: list_all_iff)
qed

lemma pin_plain: "list_all pin_char s \<Longrightarrow> list_all plain_char s"
  by (auto simp: list_all_iff pin_char_def)

lemma trim_close_plain: "s \<noteq> [] \<Longrightarrow> last s \<noteq> CHR ''>'' \<Longrightarrow> trim_close s = s"
  by (cases "rev s" rule: trim_markers.cases) (auto simp: trim_close_def rev_eq_Cons_iff)

lemma pin_words:
  assumes "list_all pin_char a" and "list_all pin_char b" and "tail = [] \<or> tail = '' -->''"
  shows "str_words ('' config='' @ a @ '' uid='' @ b @ tail) =
    [''config='' @ a, ''uid='' @ b] @ (if tail = [] then [] else [''-->''])"
proof -
  have plain: "list_all plain_char (''config='' @ a)" "list_all plain_char (''uid='' @ b)"
    using assms(1,2) by (simp_all add: pin_plain) (simp_all add: plain_char_def)
  have close: "words_from 0 [] ''-->'' = [''-->'']" by code_simp
  have sp: "words_from 0 acc (CHR '' '' # s) = (if acc = [] then [] else [rev acc]) @ words_from 0 [] s" for acc s
    by simp
  have "str_words ('' config='' @ a @ '' uid='' @ b @ tail) = words_from 0 [] ((''config='' @ a) @ CHR '' '' # ((''uid='' @ b) @ tail))"
    using sp [of "[]" "(''config='' @ a) @ CHR '' '' # ((''uid='' @ b) @ tail)"] by simp
  also have "\<dots> = (''config='' @ a) # words_from 0 [] ((''uid='' @ b) @ tail)"
    unfolding words_from_plain [OF plain(1)] sp by simp
  also have "words_from 0 [] ((''uid='' @ b) @ tail) = (''uid='' @ b) # (if tail = [] then [] else [''-->''])"
    using assms(3) close unfolding words_from_plain [OF plain(2)] by (auto simp del: words_from.simps(3) simp: sp)
  finally show ?thesis by simp
qed

lemma pin_fields:
  assumes "list_all pin_char a" and "list_all pin_char b" and "b \<noteq> []"
  shows "fold pin_field ([''config='' @ a, ''uid='' @ b] @ (if tail = [] then [] else [''-->''])) (None, None) =
    (unescape a, map_option word_of_nat (parse_uint (2 ^ 32) b))"
proof -
  have last: "last (x @ s) \<noteq> CHR ''>''" if "list_all pin_char s" "last x \<noteq> CHR ''>''" for x s
    using that by (cases s rule: rev_cases) (auto simp: pin_char_def)
  have "trim_close (''config='' @ a) = ''config='' @ a" "trim_close (''uid='' @ b) = ''uid='' @ b"
    using last [OF assms(1), of "''config=''"] last [OF assms(2), of "''uid=''"] by (auto intro!: trim_close_plain)
  moreover have "trim_close ''-->'' = []" by code_simp
  ultimately show ?thesis by (simp add: pin_field_def)
qed

lemma trim_start_plain: "ws_len (c # cs) = 0 \<Longrightarrow> trim_start 0 (c # cs) = c # cs"
  by simp

lemma pin_line_found:
  assumes "marker = ''# '' \<and> tail = [] \<or> marker = ''<!-- '' \<and> tail = '' -->''"
  shows "is_pin_line (marker @ pin_record p @ tail)"
    and "after_first KEY (marker @ pin_record p @ tail) =
      Some ('' config='' @ escape (pin_config p) @ '' uid='' @ nat_str (unat (pin_uid p)) @ tail)"
    and "CHR 0x0A \<notin> set (marker @ pin_record p @ tail)" and "CHR 0x0D \<notin> set (marker @ pin_record p @ tail)"
proof -
  have ws: "ws_len (CHR ''#'' # s) = 0" "ws_len (CHR ''<'' # s) = 0" for s by (simp_all add: plain_char_def)
  show "is_pin_line (marker @ pin_record p @ tail)"
    using assms by (auto simp: is_pin_line_def ws Let_def pin_record_def starts_with_iff)
  show "after_first KEY (marker @ pin_record p @ tail) =
      Some ('' config='' @ escape (pin_config p) @ '' uid='' @ nat_str (unat (pin_uid p)) @ tail)"
    using assms by (auto simp: pin_record_def KEY_def)
  have plain: "c \<in> set (escape (pin_config p)) \<Longrightarrow> plain_char c" "c \<in> set (nat_str n) \<Longrightarrow> plain_char c" for c n
    using escape_chars [of "pin_config p"] digits_pin_chars [of n] by (auto simp: list_all_iff pin_char_def)
  have "\<not> plain_char (CHR 0x0A)" "\<not> plain_char (CHR 0x0D)" by (simp_all add: plain_char_def)
  then show "CHR 0x0A \<notin> set (marker @ pin_record p @ tail)" "CHR 0x0D \<notin> set (marker @ pin_record p @ tail)"
    using assms plain by (auto simp: pin_record_def KEY_def)
qed

lemma pin_find_line:
  assumes "marker = ''# '' \<and> tail = [] \<or> marker = ''<!-- '' \<and> tail = '' -->''"
    and "str_lines body = pre @ (marker @ pin_record p @ tail) # post" and "\<forall>l \<in> set pre. \<not> is_pin_line l"
  shows "pin_find body = Some p"
proof -
  have "List.find is_pin_line (pre @ (marker @ pin_record p @ tail) # post) = Some (marker @ pin_record p @ tail)"
    using assms(3) pin_line_found(1) [OF assms(1)] by (induction pre) auto
  moreover have "tail = [] \<or> tail = '' -->''" using assms(1) by blast
  note words = pin_words [OF escape_chars digits_pin_chars this, of "pin_config p" "unat (pin_uid p)"]
  moreover have "parse_uint (2 ^ 32) (nat_str (unat (pin_uid p))) = Some (unat (pin_uid p))"
    by (rule parse_uint_nat_str) (use unsigned_less [of "pin_uid p"] in simp)
  ultimately show ?thesis
    using pin_fields [OF escape_chars digits_pin_chars nat_str_ne, of "pin_config p" "unat (pin_uid p)" tail]
    by (simp add: pin_find_def assms(2) pin_line_found(2) [OF assms(1)] unescape_escape)
qed

lemma lines_unlines_Cons:
  "CHR 0x0A \<notin> set l \<Longrightarrow> str_lines (unlines (l # ls) @ t) = cut_cr (rev l) # str_lines (unlines ls @ t)"
  using lines_from_line [of l "[]" "unlines ls @ t"] by (simp add: unlines_def nl_def)

lemma pin_line_of:
  assumes "marker = ''# '' \<and> tail = [] \<or> marker = ''<!-- '' \<and> tail = '' -->''"
  shows "str_lines (unlines ((marker @ pin_record p @ tail) # ls) @ t) = (marker @ pin_record p @ tail) # str_lines (unlines ls @ t)"
  using lines_unlines_Cons [OF pin_line_found(3) [OF assms]] cut_cr_plain [OF pin_line_found(4) [OF assms]] by simp

lemma unit_pin_reads_back: "pin_find (format_unit_with lossy r binary config state policy (Some p)) = Some p"
  by (rule pin_find_line [where marker = "''# ''" and tail = "[]" and pre = "[]"])
    (use pin_line_of [of "''# ''" "[]" p _ "[]"] in \<open>simp_all add: format_unit_with_def\<close>)

lemma plist_pin_reads_back: "pin_find (format_plist_with lossy r binary config state policy (Some p)) = Some p"
proof -
  let ?xml = "''<?xml version='' @ quoted ''1.0'' @ '' encoding='' @ quoted ''UTF-8'' @ ''?>''"
  have xml: "CHR 0x0A \<notin> set ?xml" "cut_cr (rev ?xml) = ?xml" "\<not> is_pin_line ?xml" by code_simp+
  show ?thesis
    by (rule pin_find_line [where marker = "''<!-- ''" and tail = "'' -->''" and pre = "[?xml]"])
      (use lines_unlines_Cons [OF xml(1), of _ "[]"] pin_line_of [of "''<!-- ''" "'' -->''" p _ "[]"] xml(2,3)
        in \<open>simp_all add: format_plist_with_def\<close>)
qed

text \<open>The lines of the init script before its pin.\<close>

lemma not_pin_line: "plain_char c \<Longrightarrow> c \<noteq> CHR ''#'' \<Longrightarrow> c \<noteq> CHR ''<'' \<Longrightarrow> \<not> is_pin_line (c # cs)"
  by (simp add: is_pin_line_def Let_def)

lemma cut_cr_quoted: "CHR 0x0D \<notin> set a \<Longrightarrow> cut_cr (rev (a @ quoted s)) = a @ quoted s"
  by (simp add: quoted_def)

definition script_head :: "role \<Rightarrow> string list" where
  "script_head r =
     [''#!/bin/sh'',
      ''# Auto-generated by `iroh-tunnel service install` '' @ map char_of [0xE2 :: nat, 0x80, 0x94] @ '' do not edit by hand.'',
      ''# BusyBox/SysV init script for iroh-tunnel ('' @ role_name r @ '').'',
      []]"

lemma script_head_ok:
  "\<forall>l \<in> set (script_head r). CHR 0x0A \<notin> set l \<and> cut_cr (rev l) = l \<and> \<not> is_pin_line l"
proof -
  let ?ok = "\<lambda>l. CHR 0x0A \<notin> set l \<and> cut_cr (rev l) = l \<and> \<not> is_pin_line l"
  have "list_all ?ok (script_head Serve)" "list_all ?ok (script_head Access)"
    by (simp_all add: script_head_def is_pin_line_def plain_char_def KEY_def starts_with_iff char_of_def)
  then show ?thesis by (cases r) (simp_all only: list_all_iff)
qed

lemma lines_of_ok:
  "\<forall>l \<in> set ls. CHR 0x0A \<notin> set l \<and> cut_cr (rev l) = l \<Longrightarrow> str_lines (unlines (ls @ rest) @ t) = ls @ str_lines (unlines rest @ t)"
  by (induction ls) (simp_all add: lines_unlines_Cons)

lemma quoted_line_ok:
  "CHR 0x0A \<notin> set (a @ s) \<Longrightarrow> CHR 0x0D \<notin> set a \<Longrightarrow> CHR 0x0A \<notin> set (a @ quoted s) \<and> cut_cr (rev (a @ quoted s)) = a @ quoted s"
  by (simp add: cut_cr_quoted) (simp add: quoted_def)

lemma script_pin_reads_back:
  assumes "CHR 0x0A \<notin> set (lossy binary @ lossy config @ lossy state)"
  shows "pin_find (format_script lossy functions r binary config state (Some p)) = Some p"
proof -
  let ?pre = "script_head r @ [''DAEMON='' @ quoted (lossy binary), ''ROLE='' @ quoted (role_name r),
      ''CONFIG='' @ quoted (lossy config), ''export IROH_TUNNEL_STATE_DIR='' @ quoted (lossy state)]"
  let ?post = "[''export '' @ ENV_TRUSTED_UID @ ''='' @ nat_str (unat (pin_uid p)),
      ''PIDFILE='' @ quoted (''/var/run/iroh-tunnel-'' @ role_name r @ ''.pid''),
      ''LOG='' @ quoted (''/var/log/iroh-tunnel-'' @ role_name r @ ''.log'')]"
  have role: "CHR 0x0A \<notin> set (role_name r)" by (cases r) simp_all
  have ok: "\<forall>l \<in> set ?pre. CHR 0x0A \<notin> set l \<and> cut_cr (rev l) = l"
    using script_head_ok [of r] assms role
      quoted_line_ok [of "''DAEMON=''" "lossy binary"] quoted_line_ok [of "''ROLE=''" "role_name r"]
      quoted_line_ok [of "''CONFIG=''" "lossy config"] quoted_line_ok [of "''export IROH_TUNNEL_STATE_DIR=''" "lossy state"]
    by (auto simp del: role_name.simps)
  have no: "\<forall>l \<in> set ?pre. \<not> is_pin_line l"
    using script_head_ok [of r] not_pin_line by (auto simp: plain_char_def)
  have body: "format_script lossy functions r binary config state (Some p) =
      unlines (?pre @ (''# '' @ pin_record p @ []) # ?post) @ functions"
    by (simp add: format_script_def script_head_def)
  have "str_lines (format_script lossy functions r binary config state (Some p)) =
      ?pre @ (''# '' @ pin_record p @ []) # str_lines (unlines ?post @ functions)"
    unfolding body lines_of_ok [OF ok] by (subst pin_line_of) simp_all
  then show ?thesis by (rule pin_find_line [rotated]) (use no in auto)
qed

text \<open>A line feed in the configured path puts a line of the path's choice before the pin, and the reader takes it
for the pin.\<close>

lemma script_pin_forged:
  assumes "CHR 0x0A \<notin> set (binary @ a)" and "CHR 0x0D \<notin> set a" and "config = a @ nl @ ''# '' @ pin_record q @ nl @ b"
  shows "pin_find (format_script id functions r binary config state (Some p)) = Some q"
proof -
  let ?open = "''CONFIG='' @ [CHR 0x22] @ a"
  let ?pre = "script_head r @ [''DAEMON='' @ quoted binary, ''ROLE='' @ quoted (role_name r), ?open]"
  let ?rest = "b @ [CHR 0x22] @ nl @ unlines
      [''export IROH_TUNNEL_STATE_DIR='' @ quoted state, ''# '' @ pin_record p,
       ''export '' @ ENV_TRUSTED_UID @ ''='' @ nat_str (unat (pin_uid p)),
       ''PIDFILE='' @ quoted (''/var/run/iroh-tunnel-'' @ role_name r @ ''.pid''),
       ''LOG='' @ quoted (''/var/log/iroh-tunnel-'' @ role_name r @ ''.log'')] @ functions"
  have role: "CHR 0x0A \<notin> set (role_name r)" by (cases r) simp_all
  have "cut_cr (rev ?open) = ?open" by (rule cut_cr_plain) (use assms(2) in simp)
  moreover have "CHR 0x0A \<notin> set ?open" using assms(1) by simp
  ultimately have ok: "\<forall>l \<in> set ?pre. CHR 0x0A \<notin> set l \<and> cut_cr (rev l) = l"
    using script_head_ok [of r] assms(1) role quoted_line_ok [of "''DAEMON=''" binary] quoted_line_ok [of "''ROLE=''" "role_name r"]
    by (auto simp del: role_name.simps)
  have no: "\<forall>l \<in> set ?pre. \<not> is_pin_line l"
    using script_head_ok [of r] not_pin_line by (auto simp: plain_char_def)
  have body: "format_script id functions r binary config state (Some p) =
      unlines (?pre @ (''# '' @ pin_record q @ []) # []) @ ?rest"
    by (simp add: format_script_def script_head_def assms(3) unlines_def nl_def quoted_def)
  have "str_lines (format_script id functions r binary config state (Some p)) =
      ?pre @ (''# '' @ pin_record q @ []) # str_lines (unlines [] @ ?rest)"
    unfolding body lines_of_ok [OF ok] by (subst pin_line_of) simp_all
  then show ?thesis by (rule pin_find_line [rotated]) (use no in auto)
qed

section \<open>What the unit runs\<close>

text \<open>
  How systemd documents the words of a unit line: separated by spaces; a word in double quotes with
  a backslash before a backslash or a quote; a double percent sign for one and, on a command line, a
  double dollar sign for one. Anything else (a lone percent or dollar sign, another escape, the end
  of the line inside quotes) is not a plain word here.
\<close>

fun unit_words :: "expand \<Rightarrow> bool \<Rightarrow> string \<Rightarrow> bool \<Rightarrow> string \<Rightarrow> string list option" where
  "unit_words line q acc started [] = (if q then None else Some (if started then [rev acc] else []))"
| "unit_words line q acc started (c # cs) =
     (if c = CHR 0x0A then None
      else if c = CHR ''%'' \<or> c = CHR ''$'' \<and> line = CommandLine then
        (case cs of d # r \<Rightarrow> if d = c then unit_words line q (c # acc) True r else None | [] \<Rightarrow> None)
      else if q then
        (if c = CHR 0x22 then unit_words line False acc True cs
         else if c = CHR 0x5C then
           (case cs of d # r \<Rightarrow> if d = CHR 0x5C \<or> d = CHR 0x22 then unit_words line True (d # acc) True r else None | [] \<Rightarrow> None)
         else unit_words line True (c # acc) True cs)
      else if c = CHR '' '' then
        (if started then map_option (\<lambda>ws. rev acc # ws) (unit_words line False [] False cs)
         else unit_words line False [] False cs)
      else if c = CHR 0x22 then (if started then None else unit_words line True [] True cs)
      else if c = CHR 0x5C then None
      else unit_words line False (c # acc) True cs)"

definition unit_escape_char :: "expand \<Rightarrow> char \<Rightarrow> string" where
  "unit_escape_char line c =
     (if c = CHR 0x5C then [c, c] else if c = CHR 0x22 then [CHR 0x5C, c]
      else if c = CHR ''%'' \<or> c = CHR ''$'' \<and> line = CommandLine then [c, c] else [c])"

lemma double_concat: "double x (concat (map f s)) = concat (map (\<lambda>c. double x (f c)) s)"
  by (induction s) (simp_all add: double_def)

lemma backslash_concat: "backslash_quotes (concat (map f s)) = concat (map (\<lambda>c. backslash_quotes (f c)) s)"
  by (induction s) (simp_all add: backslash_quotes_def)

lemma quote_arg_chars:
  "quote_arg arg line = (if arg \<noteq> [] \<and> list_all unit_plain arg then arg
     else CHR 0x22 # concat (map (unit_escape_char line) arg) @ [CHR 0x22])"
proof -
  have "double (CHR 0x5C) arg = concat (map (\<lambda>c. double (CHR 0x5C) [c]) arg)"
    by (simp add: double_def)
  then have one: "double (CHR ''%'') (backslash_quotes (double (CHR 0x5C) arg)) =
      concat (map (\<lambda>c. double (CHR ''%'') (backslash_quotes (double (CHR 0x5C) [c]))) arg)"
    by (simp only: backslash_concat double_concat)
  have "(if line = CommandLine then double (CHR ''$'') (double (CHR ''%'') (backslash_quotes (double (CHR 0x5C) [c])))
         else double (CHR ''%'') (backslash_quotes (double (CHR 0x5C) [c]))) = unit_escape_char line c" for c
    by (auto simp: double_def backslash_quotes_def unit_escape_char_def)
  then have "(if line = CommandLine then double (CHR ''$'') (double (CHR ''%'') (backslash_quotes (double (CHR 0x5C) arg)))
         else double (CHR ''%'') (backslash_quotes (double (CHR 0x5C) arg))) = concat (map (unit_escape_char line) arg)"
    unfolding one by (cases "line = CommandLine") (simp_all add: double_concat)
  then show ?thesis unfolding quote_arg_def Let_def by (simp only: append_Cons)
qed

lemma unit_words_quoted:
  "CHR 0x0A \<notin> set s \<Longrightarrow> unit_words line True acc True (concat (map (unit_escape_char line) s) @ t) =
     unit_words line True (rev s @ acc) True t"
  by (induction s arbitrary: acc) (auto simp: unit_escape_char_def)

lemma unit_plain_char: "unit_plain c \<Longrightarrow>
    c \<noteq> CHR 0x0A \<and> c \<noteq> CHR ''%'' \<and> c \<noteq> CHR ''$'' \<and> c \<noteq> CHR 0x22 \<and> c \<noteq> CHR 0x5C \<and> c \<noteq> CHR '' ''"
  by (auto simp: unit_plain_def is_alnum_def is_digit_def less_eq_char_def)

lemma unit_words_bare:
  "list_all unit_plain s \<Longrightarrow> s \<noteq> [] \<or> started \<Longrightarrow> unit_words line False acc started (s @ t) = unit_words line False (rev s @ acc) True t"
proof (induction s arbitrary: acc started)
  case (Cons c s)
  then show ?case using unit_plain_char [of c] Cons.IH [of True] by (cases s) auto
qed auto

lemma unit_word:
  assumes "CHR 0x0A \<notin> set w" and "t = [] \<or> t = CHR '' '' # u"
  shows "unit_words line False [] False (quote_arg w line @ t) =
    map_option (\<lambda>ws. w # ws) (if t = [] then Some [] else unit_words line False [] False u)"
proof (cases "w \<noteq> [] \<and> list_all unit_plain w")
  case True
  then show ?thesis using assms(2) unit_words_bare [of w False line "[]" t] by (auto simp: quote_arg_chars)
next
  case False
  then show ?thesis using assms unit_words_quoted [of w line "[]" "CHR 0x22 # t"] by (auto simp: quote_arg_chars)
qed

lemma unit_runs: 
  assumes "CHR 0x0A \<notin> set (binary @ config)"
  shows "unit_words CommandLine False [] False
      (quote_arg binary CommandLine @ '' '' @ role_name r @ '' run --config '' @ quote_arg config CommandLine) =
    Some [binary, role_name r, ''run'', ''--config'', config]"
proof -
  have word: "list_all unit_plain w \<Longrightarrow> w \<noteq> [] \<Longrightarrow>
      unit_words CommandLine False [] False (w @ CHR '' '' # u) = map_option (\<lambda>ws. w # ws) (unit_words CommandLine False [] False u)" for w u
    using unit_words_bare [of w False CommandLine "[]" "CHR '' '' # u"] by simp
  have "list_all unit_plain (role_name Serve)" "list_all unit_plain (role_name Access)" by code_simp+
  then have plain: "list_all unit_plain (role_name r)" by (cases r) (simp_all only:)
  have run: "list_all unit_plain ''run''" "list_all unit_plain ''--config''" by code_simp+
  have ne: "role_name r \<noteq> []" by (cases r) simp_all
  have "unit_words CommandLine False [] False (quote_arg config CommandLine) = Some [config]"
    using unit_word [of config "[]" "[]" CommandLine] assms by simp
  then show ?thesis
    using unit_word [of binary "CHR '' '' # role_name r @ CHR '' '' # ''run'' @ CHR '' '' # ''--config'' @ CHR '' '' # quote_arg config CommandLine"
        "role_name r @ CHR '' '' # ''run'' @ CHR '' '' # ''--config'' @ CHR '' '' # quote_arg config CommandLine" CommandLine]
      assms word [OF plain ne] word [OF run(1)] word [OF run(2)]
    by simp
qed


section \<open>XML text\<close>

text \<open>How a reader of XML decodes the text of an element, with the three references the writer uses.\<close>

fun xml_text :: "string \<Rightarrow> string option" where
  "xml_text [] = Some []"
| "xml_text (c # cs) =
     (if c = CHR ''<'' then None
      else if c = CHR ''&'' then
        (case cs of
           x # y # z # r \<Rightarrow>
             (if [x, y, z] = ''lt;'' then map_option (\<lambda>u. CHR ''<'' # u) (xml_text r)
              else if [x, y, z] = ''gt;'' then map_option (\<lambda>u. CHR ''>'' # u) (xml_text r)
              else (case r of
                      w # q \<Rightarrow> if [x, y, z, w] = ''amp;'' then map_option (\<lambda>u. CHR ''&'' # u) (xml_text q) else None
                    | [] \<Rightarrow> None))
         | _ \<Rightarrow> None)
      else map_option (\<lambda>u. c # u) (xml_text cs))"

lemma xml_text_escape: "xml_text (xml_escape s) = Some s"
  by (induction s) (auto simp: xml_escape_def xml_escape_char_def)

section \<open>The scheduled task\<close>

record task_action =
  ta_command :: string
  ta_arguments :: string

datatype task_error = NotPlain string string | NotUnicode

definition ensure_plain :: "(path \<Rightarrow> string) \<Rightarrow> string \<Rightarrow> path \<Rightarrow> task_error + unit" where
  "ensure_plain lossy what p =
     (let shown = lossy p
      in if CHR 0x22 \<in> set shown \<or> CHR ''%'' \<in> set shown then Inl (NotPlain what shown) else Inr ())"

definition task_action_of :: "(path \<Rightarrow> string) \<Rightarrow> role \<Rightarrow> path \<Rightarrow> path \<Rightarrow> task_error + task_action" where
  "task_action_of lossy r binary config =
     (case ensure_plain lossy ''binary'' binary of
        Inl e \<Rightarrow> Inl e
      | Inr _ \<Rightarrow>
          (case ensure_plain lossy ''config'' config of
             Inl e \<Rightarrow> Inl e
           | Inr _ \<Rightarrow>
               (case (to_str binary, to_str config) of
                  (Some binary, Some config) \<Rightarrow>
                    Inr \<lparr>ta_command = binary, ta_arguments = role_name r @ '' run --config '' @ quoted config\<rparr>
                | _ \<Rightarrow> Inl NotUnicode)))"

definition MIN_RESTART_MINUTES :: nat where
  "MIN_RESTART_MINUTES = 1"

definition restart_minutes :: "restart_policy \<Rightarrow> nat" where
  "restart_minutes policy = max ((delay_secs policy + 59) div 60) MIN_RESTART_MINUTES"

definition elem :: "nat \<Rightarrow> string \<Rightarrow> string \<Rightarrow> string" where
  "elem n tag body = replicate n (CHR '' '') @ ''<'' @ tag @ ''>'' @ body @ ''</'' @ tag @ ''>''"

definition spaces :: "nat \<Rightarrow> string \<Rightarrow> string" where
  "spaces n s = replicate n (CHR '' '') @ s"

definition format_task_xml :: "role \<Rightarrow> string \<Rightarrow> task_action \<Rightarrow> restart_policy \<Rightarrow> string" where
  "format_task_xml r user action policy =
     unlines
       ([''<?xml version='' @ quoted ''1.0'' @ '' encoding='' @ quoted ''UTF-16'' @ ''?>'',
         ''<Task version='' @ quoted ''1.4'' @ '' xmlns='' @ quoted ''http://schemas.microsoft.com/windows/2004/02/mit/task'' @ ''>'',
         spaces 2 ''<RegistrationInfo>'',
         elem 4 ''Description'' (''Iroh Tunnel ('' @ xml_escape (role_name r) @ '') in the logged-in user session''),
         spaces 2 ''</RegistrationInfo>'',
         spaces 2 ''<Triggers>'',
         spaces 4 ''<LogonTrigger>'',
         elem 6 ''Enabled'' ''true'',
         elem 6 ''UserId'' (xml_escape user),
         spaces 4 ''</LogonTrigger>'',
         spaces 2 ''</Triggers>'',
         spaces 2 ''<Principals>'',
         spaces 4 (''<Principal id='' @ quoted ''Author'' @ ''>''),
         elem 6 ''UserId'' (xml_escape user),
         elem 6 ''LogonType'' ''InteractiveToken'',
         elem 6 ''RunLevel'' ''LeastPrivilege'',
         spaces 4 ''</Principal>'',
         spaces 2 ''</Principals>'',
         spaces 2 ''<Settings>'',
         elem 4 ''MultipleInstancesPolicy'' ''IgnoreNew'',
         elem 4 ''DisallowStartIfOnBatteries'' ''false'',
         elem 4 ''StopIfGoingOnBatteries'' ''false'',
         elem 4 ''AllowHardTerminate'' ''true'',
         elem 4 ''StartWhenAvailable'' ''false'',
         elem 4 ''RunOnlyIfNetworkAvailable'' ''false'',
         elem 4 ''AllowStartOnDemand'' ''true'',
         elem 4 ''Enabled'' ''true'',
         elem 4 ''ExecutionTimeLimit'' ''PT0S''] @
        (if on_failure policy then
           [spaces 4 ''<RestartOnFailure>'',
            elem 6 ''Interval'' (''PT'' @ nat_str (restart_minutes policy) @ ''M''),
            elem 6 ''Count'' ''999'',
            spaces 4 ''</RestartOnFailure>'']
         else []) @
        [spaces 2 ''</Settings>'',
         spaces 2 (''<Actions Context='' @ quoted ''Author'' @ ''>''),
         spaces 4 ''<Exec>'',
         elem 6 ''Command'' (xml_escape (ta_command action)),
         elem 6 ''Arguments'' (xml_escape (ta_arguments action)),
         spaces 4 ''</Exec>'',
         spaces 2 ''</Actions>'',
         ''</Task>''])"

text \<open>
  How Windows documents the splitting of a command line into arguments: blanks separate, a double
  quote opens and closes a quoted part, and backslashes are literal unless a run of them stands
  before a quote (then each pair is one, and an odd one makes the quote literal). \<open>slashes\<close> counts
  the run that is being read.
\<close>

fun win_args :: "nat \<Rightarrow> bool \<Rightarrow> string \<Rightarrow> bool \<Rightarrow> string \<Rightarrow> string list" where
  "win_args slashes q acc started [] =
     (let acc = replicate slashes (CHR 0x5C) @ acc in if started \<or> acc \<noteq> [] then [rev acc] else [])"
| "win_args slashes q acc started (c # cs) =
     (if c = CHR 0x5C then win_args (Suc slashes) q acc True cs
      else if c = CHR 0x22 then
        (if odd slashes then win_args 0 q (CHR 0x22 # replicate (slashes div 2) (CHR 0x5C) @ acc) True cs
         else win_args 0 (\<not> q) (replicate (slashes div 2) (CHR 0x5C) @ acc) True cs)
      else if \<not> q \<and> (c = CHR '' '' \<or> c = CHR 0x09) then
        (let acc = replicate slashes (CHR 0x5C) @ acc
         in if started \<or> acc \<noteq> [] then rev acc # win_args 0 False [] False cs else win_args 0 False [] False cs)
      else win_args 0 q (c # replicate slashes (CHR 0x5C) @ acc) True cs)"

lemma win_args_quoted:
  assumes "CHR 0x22 \<notin> set s" and "if s = [] then n = 0 else last s \<noteq> CHR 0x5C"
  shows "win_args n True acc True (s @ CHR 0x22 # t) = win_args 0 False (rev s @ replicate n (CHR 0x5C) @ acc) True t"
  using assms
proof (induction s arbitrary: n acc)
  case (Cons c s)
  show ?case
  proof (cases "c = CHR 0x5C")
    case True
    then have "s \<noteq> []" using Cons.prems(2) by auto
    then show ?thesis using Cons.IH [of "Suc n" acc] Cons.prems True by (simp add: replicate_app_Cons_same)
  next
    case False
    then show ?thesis using Cons.IH [of 0 "c # replicate n (CHR 0x5C) @ acc"] Cons.prems by (auto split: if_splits)
  qed
qed simp

lemma task_runs:
  assumes "task_action_of id r binary config = Inr a" and "config = [] \<or> last config \<noteq> CHR 0x5C"
  shows "ta_command a = binary \<and> CHR 0x22 \<notin> set binary \<and> CHR ''%'' \<notin> set binary \<and>
    win_args 0 False [] False (ta_arguments a) = [role_name r, ''run'', ''--config'', config]"
proof -
  have str: "to_str p = Some s \<Longrightarrow> s = p" for p s by (auto simp: to_str_def split: if_splits)
  have a: "a = \<lparr>ta_command = binary, ta_arguments = role_name r @ '' run --config '' @ quoted config\<rparr>"
    "CHR 0x22 \<notin> set binary" "CHR ''%'' \<notin> set binary" "CHR 0x22 \<notin> set config"
    using assms(1) by (auto simp: task_action_of_def ensure_plain_def Let_def split: if_splits option.splits dest!: str)
  have "win_args 0 False [] False (role_name r @ '' run --config '' @ quoted config) =
      role_name r # ''run'' # ''--config'' # win_args 0 True [] True (config @ [CHR 0x22])"
    by (cases r) (simp_all add: quoted_def)
  also have "\<dots> = [role_name r, ''run'', ''--config'', config]"
    using win_args_quoted [of config 0 "[]" "[]"] a(4) assms(2) by auto
  finally show ?thesis using a by simp
qed

section \<open>Writing a registration\<close>

record reg_env =
  re_mkdir :: "io_fail option"
  re_create :: "io_fail option"
  re_write :: "(nat \<times> io_fail) option"
  re_chmod :: "io_fail option"
  re_rename :: "io_fail option"
  re_cleanup :: bool
  re_pid :: nat
  re_umask :: u32

datatype reg_error = RegDenied string path | RegFailed string path

definition reg_denied :: "io_fail \<Rightarrow> string \<Rightarrow> path \<Rightarrow> reg_error" where
  "reg_denied e what target = (if e = Denied then RegDenied what target else RegFailed what target)"

text \<open>\<open>Path::extension\<close> and \<open>Path::with_extension\<close> of a path that ends in a file name, as the registration
paths do: what stands after the last dot of the name, unless the name has none or only begins with one.\<close>

definition name_parts :: "path \<Rightarrow> string \<times> string option" where
  "name_parts name =
     (let ext = rev (takeWhile (\<lambda>c. c \<noteq> CHR ''.'') (rev name))
      in if length name \<le> length ext + 1 then (name, None)
         else (take (length name - length ext - 1) name, Some ext))"

definition base_name :: "path \<Rightarrow> string" where
  "base_name p = rev (takeWhile (\<lambda>c. c \<noteq> CHR ''/'') (rev p))"

definition extension :: "path \<Rightarrow> string option" where
  "extension p = snd (name_parts (base_name p))"

definition with_extension :: "path \<Rightarrow> string \<Rightarrow> path" where
  "with_extension p ext =
     take (length p - length (base_name p)) p @ fst (name_parts (base_name p)) @ ''.'' @ ext"

definition reg_mode :: "path \<Rightarrow> nat" where
  "reg_mode p = (if extension p = None then 0x1ED else 0x1A4)"

definition reg_temp :: "reg_env \<Rightarrow> path \<Rightarrow> path" where
  "reg_temp env p = with_extension p (''tmp'' @ nat_str (re_pid env))"

text \<open>A file that exists keeps its mode when it is truncated.\<close>

definition created_mode :: "reg_env \<Rightarrow> xfs \<Rightarrow> path \<Rightarrow> nat" where
  "created_mode env fs p = (case fs p of Some f \<Rightarrow> x_mode f | None \<Rightarrow> unat (0x1B6 AND NOT (re_umask env)))"

definition write_registration :: "reg_env \<Rightarrow> path \<Rightarrow> string \<Rightarrow> xfs \<Rightarrow> x_op list \<times> (reg_error + unit)" where
  "write_registration env p contents fs =
     (let temp = reg_temp env p;
          failed = (\<lambda>ops e. (ops @ (if re_cleanup env then [XRemove temp] else []), Inl (reg_denied e ''writing'' p)));
          o1 = [XCreate temp (created_mode env fs temp)]
      in case re_mkdir env of
           Some e \<Rightarrow> ([], Inl (reg_denied e ''creating'' (parent_dir p)))
         | None \<Rightarrow>
             (case re_create env of
                Some e \<Rightarrow> failed [] e
              | None \<Rightarrow>
                  (case re_write env of
                     Some (n, e) \<Rightarrow> failed (o1 @ [XWrite temp (take n contents)]) e
                   | None \<Rightarrow>
                       (let o2 = o1 @ [XWrite temp contents]
                        in case re_chmod env of
                             Some e \<Rightarrow> failed o2 e
                           | None \<Rightarrow>
                               (let o3 = o2 @ [XChmod temp (reg_mode p)]
                                in case re_rename env of
                                     Some e \<Rightarrow> failed o3 e
                                   | None \<Rightarrow> (o3 @ [XRename temp p], Inr ()))))))"

datatype reg_read = RegText string | RegMissing | RegUnreadable

definition read_registration :: "reg_read \<Rightarrow> string option" where
  "read_registration r = (case r of RegText s \<Rightarrow> Some s | RegMissing \<Rightarrow> None | RegUnreadable \<Rightarrow> Some [])"

text \<open>The mode of a file that the run created is its own, whatever the umask.\<close>

definition registered_file :: "path \<Rightarrow> string \<Rightarrow> exe_file" where
  "registered_file p contents = \<lparr>x_data = contents, x_mode = reg_mode p, x_synced = False\<rparr>"

lemma with_extension_apart: "extension p \<noteq> Some ext \<Longrightarrow> with_extension p ext \<noteq> p"
proof
  let ?b = "base_name p" and ?x = "rev (takeWhile (\<lambda>c. c \<noteq> CHR ''.'') (rev (base_name p)))"
  assume differs: "extension p \<noteq> Some ext" and same: "with_extension p ext = p"
  have b: "take (length p - length ?b) p @ ?b = p"
  proof -
    have "p = rev (dropWhile (\<lambda>c. c \<noteq> CHR ''/'') (rev p)) @ ?b"
      unfolding base_name_def by (metis rev_append rev_rev_ident takeWhile_dropWhile_id)
    then show ?thesis by (metis append_eq_conv_conj append_same_eq append_take_drop_id diff_diff_cancel length_append
          length_drop diff_add_inverse2)
  qed
  have stem: "fst (name_parts ?b) @ ''.'' @ ext = ?b"
    using same b unfolding with_extension_def by (metis append_same_eq same_append_eq)
  show False
  proof (cases "length ?b \<le> length ?x + 1")
    case True
    then have "length (fst (name_parts ?b)) = length ?b" by (simp add: name_parts_def Let_def)
    then show False using arg_cong [OF stem, of length] by simp
  next
    case False
    then have parts: "name_parts ?b = (take (length ?b - length ?x - 1) ?b, Some ?x)"
      by (simp add: name_parts_def Let_def)
    have "length ext = length ?x" using arg_cong [OF stem, of length] parts False by simp
    moreover have "?b = rev (dropWhile (\<lambda>c. c \<noteq> CHR ''.'') (rev ?b)) @ ?x"
      by (metis rev_append rev_rev_ident takeWhile_dropWhile_id)
    moreover have "?b = (fst (name_parts ?b) @ ''.'') @ ext" using stem by simp
    ultimately have "ext = ?x" by (metis append_eq_append_conv)
    then show False using differs parts by (simp add: extension_def)
  qed
qed

lemma write_registration_shape:
  assumes "write_registration env p contents fs = (ops, res)"
  shows "(\<exists>work. ops = work @ [XRename (reg_temp env p) p] \<and> res = Inr () \<and>
      work = [XCreate (reg_temp env p) (created_mode env fs (reg_temp env p)), XWrite (reg_temp env p) contents,
              XChmod (reg_temp env p) (reg_mode p)])
    \<or> (\<exists>e. res = Inl e) \<and> (\<forall>x \<in> set ops. \<exists>m s. x \<in> {XCreate (reg_temp env p) m, XWrite (reg_temp env p) s,
         XChmod (reg_temp env p) m, XRemove (reg_temp env p)})"
  using assms by (auto simp: write_registration_def Let_def split: option.splits)

lemma x_run_temp_only:
  "\<forall>x \<in> set ops. \<exists>m s. x \<in> {XCreate t m, XWrite t s, XChmod t m, XRemove t} \<Longrightarrow> q \<noteq> t \<Longrightarrow> x_run ops fs q = fs q"
  by (induction ops arbitrary: fs) (auto simp: x_run_def)

lemma registration_atomic:
  assumes "extension p \<noteq> Some (''tmp'' @ nat_str (re_pid env))" and "write_registration env p contents fs = (ops, res)"
  shows "(x_run (take n ops) fs p = fs p \<or> x_run (take n ops) fs p = Some (registered_file p contents)) \<and>
    (\<forall>q. q = p \<or> q = reg_temp env p \<or> x_run (take n ops) fs q = fs q) \<and>
    (case res of
       Inr _ \<Rightarrow> x_run ops fs p = Some (registered_file p contents) \<and> x_run ops fs (reg_temp env p) = None
     | Inl _ \<Rightarrow> x_run ops fs p = fs p)"
proof -
  let ?t = "reg_temp env p"
  have apart: "?t \<noteq> p" unfolding reg_temp_def by (rule with_extension_apart) (rule assms(1))
  show ?thesis
    using write_registration_shape [OF assms(2)]
  proof (elim disjE exE conjE)
    fix work
    assume ops: "ops = work @ [XRename ?t p]" "res = Inr ()"
      "work = [XCreate ?t (created_mode env fs ?t), XWrite ?t contents, XChmod ?t (reg_mode p)]"
    have whole: "x_run ops fs = fs(p \<mapsto> registered_file p contents, ?t := None)"
      using apart by (auto simp: ops x_run_def registered_file_def)
    have before: "x_run (take n work) fs q = fs q" if "q \<noteq> ?t" for q
      by (rule x_run_temp_only [OF _ that]) (auto simp: ops(3) dest!: in_set_takeD)
    have len: "length work = 3" by (simp add: ops(3))
    have "take n ops = take n work \<or> take n ops = ops"
      by (cases "n \<le> 3") (simp_all only: ops(1) take_append len diff_is_0_eq take_0 append_Nil2, simp_all add: ops(3))
    then show ?thesis
    proof
      assume "take n ops = take n work"
      then show ?thesis using before apart whole ops(2) by (simp only: sum.case) auto
    next
      assume "take n ops = ops"
      then show ?thesis using apart whole ops(2) by (simp only: sum.case) simp
    qed
  next
    fix e
    assume res: "res = Inl e" and only: "\<forall>x \<in> set ops. \<exists>m s. x \<in> {XCreate ?t m, XWrite ?t s, XChmod ?t m, XRemove ?t}"
    then have "\<forall>x \<in> set (take n ops). \<exists>m s. x \<in> {XCreate ?t m, XWrite ?t s, XChmod ?t m, XRemove ?t}"
      by (meson in_set_takeD)
    note taken = this
    have "x_run (take n ops) fs q = fs q" if "q \<noteq> ?t" for q by (rule x_run_temp_only [OF taken that])
    moreover have "x_run ops fs p = fs p" by (rule x_run_temp_only [OF only apart [symmetric]])
    ultimately show ?thesis using apart res by (simp only: sum.case) auto
  qed
qed

text \<open>Until its mode is set the temporary file has the mode the umask leaves, and with no umask anyone may
write it while it already holds the unit.\<close>

lemma registration_temp_writable:
  assumes "fs (reg_temp env p) = None" and "re_umask env = 0" and "re_mkdir env = None" "re_create env = None"
    "re_write env = None" "re_chmod env = None"
  shows "x_run (take 2 (fst (write_registration env p contents fs))) fs (reg_temp env p) =
    Some \<lparr>x_data = contents, x_mode = 0x1B6, x_synced = False\<rparr>"
  using assms by (cases "re_rename env") (simp_all add: write_registration_def Let_def x_run_def created_mode_def)

section \<open>Properties\<close>

text \<open>C35: the pin of a system registration is read back from what was written: from the unit and the property list
whatever the paths, and from the init script when no path holds a line feed.\<close>

theorem pin_reads_back:
  "pin_find (format_unit_with lossy r binary config state policy (Some p)) = Some p \<and>
   pin_find (format_plist_with lossy r binary config state policy (Some p)) = Some p \<and>
   (CHR 0x0A \<notin> set (lossy binary @ lossy config @ lossy state) \<longrightarrow>
      pin_find (format_script lossy functions r binary config state (Some p)) = Some p)"
  by (intro conjI impI unit_pin_reads_back plist_pin_reads_back script_pin_reads_back)

theorem pin_reads_back_witness:
  "pin_find (format_script id [] Serve ''/b'' ''/h/a b%-->.toml'' ''/s'' (Some \<lparr>pin_config = ''/h/a b%-->.toml'', pin_uid = 1000\<rparr>)) =
     Some \<lparr>pin_config = ''/h/a b%-->.toml'', pin_uid = 1000\<rparr>"
  using pin_reads_back [of id Serve "''/b''" "''/h/a b%-->.toml''" "''/s''" RESTART_DEFAULT "\<lparr>pin_config = ''/h/a b%-->.toml'', pin_uid = 1000\<rparr>" "[]"]
  by simp

definition command_line_of :: "string \<Rightarrow> string option" where
  "command_line_of unit = List.find (\<lambda>l. starts_with l ''ExecStart='') (str_lines unit)"

definition unit_head :: "role \<Rightarrow> pin option \<Rightarrow> string list" where
  "unit_head r pn =
     (case pn of Some p \<Rightarrow> [''# '' @ pin_record p] | None \<Rightarrow> []) @
     [''[Unit]'', ''Description=Iroh Tunnel ('' @ role_name r @ '')'', ''After=network-online.target'',
      ''Wants=network-online.target'', [], ''[Service]'', ''Type=simple'']"

lemma unit_head_ok:
  "\<forall>l \<in> set (unit_head r pn). CHR 0x0A \<notin> set l \<and> cut_cr (rev l) = l \<and> \<not> starts_with l ''ExecStart=''"
proof -
  let ?ok = "\<lambda>l. CHR 0x0A \<notin> set l \<and> cut_cr (rev l) = l \<and> \<not> starts_with l ''ExecStart=''"
  have "list_all ?ok (unit_head Serve None)" "list_all ?ok (unit_head Access None)"
    by (simp_all add: unit_head_def starts_with_iff)
  moreover have "?ok (''# '' @ pin_record p)" for p
    using pin_line_found(3,4) [of "''# ''" "[]" p] cut_cr_plain [of "''# '' @ pin_record p"] by (simp add: starts_with_iff)
  moreover have "unit_head r (Some p) = (''# '' @ pin_record p) # unit_head r None" for p by (simp add: unit_head_def)
  moreover have "list_all ?ok (unit_head r None)" using calculation(1,2) by (cases r) (simp_all only:)
  ultimately show ?thesis by (cases pn) (simp_all only: list_all_iff [symmetric] list.pred_inject simp_thms)
qed

lemma find_after: "\<forall>l \<in> set pre. \<not> P l \<Longrightarrow> P x \<Longrightarrow> List.find P (pre @ x # post) = Some x"
  by (induction pre) auto

lemma quote_arg_end: "CHR 0x0D \<notin> set arg \<Longrightarrow> CHR 0x0D \<notin> set (quote_arg arg line)"
  by (auto simp: quote_arg_chars unit_escape_char_def)

lemma quote_arg_line: "CHR 0x0A \<notin> set arg \<Longrightarrow> CHR 0x0A \<notin> set (quote_arg arg line)"
  by (auto simp: quote_arg_chars unit_escape_char_def)

text \<open>C36: the command line of an installed unit, read as systemd documents it, is exactly the installed binary with
the arguments to run the role on the pinned configuration, whatever characters but line ends the two paths hold: no
part of a path becomes an argument, a specifier or a variable of its own.\<close>

theorem unit_runs_registered:
  assumes "set [CHR 0x0A, CHR 0x0D] \<inter> set (lossy binary @ lossy config) = {}"
  shows "map_option (\<lambda>l. unit_words CommandLine False [] False (drop (length ''ExecStart='') l))
      (command_line_of (format_unit_with lossy r binary config state policy pn)) =
    Some (Some [lossy binary, role_name r, ''run'', ''--config'', lossy config])"
proof -
  let ?cmd = "quote_arg (lossy binary) CommandLine @ '' '' @ role_name r @ '' run --config '' @ quote_arg (lossy config) CommandLine"
  let ?line = "''ExecStart='' @ ?cmd"
  obtain rest where body: "format_unit_with lossy r binary config state policy pn = unlines (unit_head r pn @ ?line # rest) @ []"
    by (cases pn) (auto simp: format_unit_with_def unit_head_def)
  have role: "CHR 0x0A \<notin> set (role_name r)" "CHR 0x0D \<notin> set (role_name r)" by (cases r; simp)+
  have plain: "CHR 0x0A \<notin> set ?line" "CHR 0x0D \<notin> set ?line"
    using assms quote_arg_line [of "lossy binary" CommandLine] quote_arg_line [of "lossy config" CommandLine]
      quote_arg_end [of "lossy binary" CommandLine] quote_arg_end [of "lossy config" CommandLine] role
    by auto
  have head: "\<forall>l \<in> set (unit_head r pn). CHR 0x0A \<notin> set l \<and> cut_cr (rev l) = l" using unit_head_ok [of r pn] by blast
  have "str_lines (format_unit_with lossy r binary config state policy pn) = unit_head r pn @ ?line # str_lines (unlines rest @ [])"
    by (simp only: body lines_of_ok [OF head] lines_unlines_Cons [OF plain(1)] cut_cr_plain [OF plain(2)])
  moreover have "List.find (\<lambda>l. starts_with l ''ExecStart='') (unit_head r pn @ ?line # ls) = Some ?line" for ls
    by (rule find_after) (use unit_head_ok [of r pn] in blast, simp add: starts_with_iff)
  ultimately have "command_line_of (format_unit_with lossy r binary config state policy pn) = Some ?line"
    by (simp add: command_line_of_def)
  moreover have "drop (length ''ExecStart='') ?line = ?cmd" by simp
  moreover have "unit_words CommandLine False [] False ?cmd = Some [lossy binary, role_name r, ''run'', ''--config'', lossy config]"
    by (rule unit_runs) (use assms in auto)
  ultimately show ?thesis by (simp only: option.map)
qed

theorem unit_runs_registered_witness:
  "map_option (\<lambda>l. unit_words CommandLine False [] False (drop (length ''ExecStart='') l))
      (command_line_of (format_unit_with id Access ''/opt/it'' ''/h/my $HOME %i.toml'' ''/s'' RESTART_DEFAULT None)) =
    Some (Some [''/opt/it'', ''access'', ''run'', ''--config'', ''/h/my $HOME %i.toml''])"
  using unit_runs_registered [of id "''/opt/it''" "''/h/my $HOME %i.toml''" Access "''/s''" RESTART_DEFAULT None] by simp

text \<open>At every moment of writing a registration the file at its place is the old one or the complete new one
with the mode of its kind, nothing but it and the temporary file changes, and after a failure it is still the old
one.\<close>

theorem registration_write_atomic:
  assumes "extension p \<noteq> Some (''tmp'' @ nat_str (re_pid env))" and "write_registration env p contents fs = (ops, res)"
  shows "(x_run (take n ops) fs p = fs p \<or> x_run (take n ops) fs p = Some (registered_file p contents)) \<and>
    (\<forall>q. q = p \<or> q = reg_temp env p \<or> x_run (take n ops) fs q = fs q) \<and>
    (case res of
       Inr _ \<Rightarrow> x_run ops fs p = Some (registered_file p contents) \<and> x_run ops fs (reg_temp env p) = None
     | Inl _ \<Rightarrow> x_run ops fs p = fs p)"
  by (rule registration_atomic) (rule assms)+

definition demo_reg :: reg_env where
  "demo_reg = \<lparr>re_mkdir = None, re_create = None, re_write = None, re_chmod = None, re_rename = None, re_cleanup = True,
     re_pid = 7, re_umask = 0x12\<rparr>"

theorem registration_write_atomic_witness:
  "x_run (fst (write_registration demo_reg ''/e/u.service'' ''NEW'' Map.empty)) Map.empty ''/e/u.service'' =
     Some \<lparr>x_data = ''NEW'', x_mode = 0x1A4, x_synced = False\<rparr>"
proof -
  have ext: "extension ''/e/u.service'' = Some ''service''" by code_simp
  obtain ops where run: "write_registration demo_reg ''/e/u.service'' ''NEW'' Map.empty = (ops, Inr ())"
    by (simp add: write_registration_def demo_reg_def Let_def)
  have "x_run ops Map.empty ''/e/u.service'' = Some (registered_file ''/e/u.service'' ''NEW'')"
    using registration_write_atomic [OF _ run, of 0] ext by simp
  then show ?thesis using run ext by (simp add: registered_file_def reg_mode_def)
qed

end
