(* ===== verification/Paths.thy ===== *)
theory Paths
  imports ConfigOps Update Trust
begin

text \<open>
  Default locations (\<open>crates/host/src/paths\<close>): the configuration and state directories below the
  home directory, and the macOS migration of a legacy configuration, which copies it into place
  unless a configuration is already there.

  The home directory and the folders of the operating system are what \<open>dirs\<close> answers.
\<close>

section \<open>Locations\<close>

datatype platform = LinuxSystemd | LinuxBusyBox | MacOs | WindowsOs

datatype paths_error = NoHomeDir | NoLocalAppData | DestUnreadable path | MigrationFailed path path

definition APP_DIR :: string where
  "APP_DIR = ''iroh-tunnel''"

definition home_dir :: "path option \<Rightarrow> paths_error + path" where
  "home_dir home = (case home of Some h \<Rightarrow> if is_absolute h then Inr h else Inl NoHomeDir | None \<Rightarrow> Inl NoHomeDir)"

definition local_app_data :: "path option \<Rightarrow> paths_error + path" where
  "local_app_data local =
     (case local of
        Some d \<Rightarrow> if is_absolute d then Inr (path_join d APP_DIR) else Inl NoLocalAppData
      | None \<Rightarrow> Inl NoLocalAppData)"

record dirs =
  di_home :: "path option"
  di_local :: "path option"
  di_config :: "path option"

definition default_config_dir :: "platform \<Rightarrow> dirs \<Rightarrow> paths_error + path" where
  "default_config_dir pf d =
     (if pf = WindowsOs then map_sum id (\<lambda>p. path_join p ''config'') (local_app_data (di_local d))
      else map_sum id (\<lambda>h. path_join (path_join h ''.config'') APP_DIR) (home_dir (di_home d)))"

definition default_state_dir :: "platform \<Rightarrow> dirs \<Rightarrow> paths_error + path" where
  "default_state_dir pf d =
     (if pf = WindowsOs then map_sum id (\<lambda>p. path_join p ''state'') (local_app_data (di_local d))
      else map_sum id (\<lambda>h. path_join (path_join (path_join h ''.local'') ''state'') APP_DIR) (home_dir (di_home d)))"

definition config_path_in :: "path \<Rightarrow> role \<Rightarrow> path" where
  "config_path_in home r = path_join (path_join (path_join home ''.config'') APP_DIR) (role_name r @ ''.toml'')"

definition state_dir_in :: "path \<Rightarrow> path" where
  "state_dir_in home = path_join (path_join (path_join home ''.local'') ''state'') APP_DIR"

section \<open>Migration\<close>

text \<open>What the operating system answers, and what other processes do to the file system before the link.\<close>

record migrate_env =
  mg_dest_denied :: bool
  mg_legacy_denied :: bool
  mg_reads :: bool
  mg_mkdir :: bool
  mg_creates :: bool
  mg_write_stops :: "nat option"
  mg_syncs :: bool
  mg_links :: bool
  mg_pid :: nat
  mg_rival :: "fs \<Rightarrow> fs"

definition migrate_temp :: "migrate_env \<Rightarrow> path \<Rightarrow> path" where
  "migrate_temp env dest =
     path_join (parent_dir dest)
       (''.'' @ (case Option.bind (comps_file_name (components dest)) to_str of Some n \<Rightarrow> n | None \<Rightarrow> ''config'')
         @ ''.migrate.'' @ nat_str (mg_pid env))"

text \<open>\<open>link\<close>: creates the name with the whole file, or fails because it exists.\<close>

definition hard_link :: "path \<Rightarrow> path \<Rightarrow> fs \<Rightarrow> fs" where
  "hard_link p q fs = (if fs q = None then fs(q := fs p) else fs)"

text \<open>The temporary name is removed whatever happened after the directory was there.\<close>

definition copy_no_overwrite :: "migrate_env \<Rightarrow> path \<Rightarrow> path \<Rightarrow> fs \<Rightarrow> bool \<times> fs" where
  "copy_no_overwrite env legacy dest fs =
     (case (if mg_reads env then fs legacy else None) of
        None \<Rightarrow> (False, fs)
      | Some f \<Rightarrow>
          if \<not> mg_mkdir env then (False, fs)
          else
            (let tmp = migrate_temp env dest; content = f_data f
             in if \<not> mg_creates env \<or> fs tmp \<noteq> None then (False, fs(tmp := None))
                else case mg_write_stops env of
                  Some n \<Rightarrow> (False, fs(tmp := None))
                | None \<Rightarrow>
                    if \<not> mg_syncs env then (False, fs(tmp := None))
                    else
                      (let fs1 = mg_rival env (fs(tmp \<mapsto> stored content))
                       in if \<not> mg_links env then (False, fs1(tmp := None))
                          else (True, (hard_link tmp dest fs1)(tmp := None)))))"

text \<open>The flag is whether \<open>notify_migrated\<close> was called.\<close>

definition migrate_legacy :: "migrate_env \<Rightarrow> path \<Rightarrow> path \<Rightarrow> fs \<Rightarrow> (paths_error + bool) \<times> fs" where
  "migrate_legacy env legacy dest fs =
     (if mg_dest_denied env then (Inl (DestUnreadable dest), fs)
      else if fs dest \<noteq> None then (Inr False, fs)
      else if mg_legacy_denied env then (Inl (MigrationFailed legacy dest), fs)
      else if fs legacy = None then (Inr False, fs)
      else
        (case copy_no_overwrite env legacy dest fs of
           (True, fs') \<Rightarrow> (Inr True, fs')
         | (False, fs') \<Rightarrow> (Inl (MigrationFailed legacy dest), fs')))"

definition default_config_path ::
    "platform \<Rightarrow> dirs \<Rightarrow> migrate_env \<Rightarrow> role \<Rightarrow> fs \<Rightarrow> (paths_error + path) \<times> fs" where
  "default_config_path pf d env r fs =
     (case default_config_dir pf d of
        Inl e \<Rightarrow> (Inl e, fs)
      | Inr dir \<Rightarrow>
          (let p = path_join dir (role_name r @ ''.toml'');
               legacy = (case di_config d of
                           Some c \<Rightarrow> if is_absolute c then Some (path_join (path_join c APP_DIR) (role_name r @ ''.toml'')) else None
                         | None \<Rightarrow> None)
           in case (if pf = MacOs then legacy else None) of
                None \<Rightarrow> (Inr p, fs)
              | Some l \<Rightarrow>
                  (case migrate_legacy env l p fs of
                     (Inl e, fs') \<Rightarrow> (Inl e, fs')
                   | (Inr _, fs') \<Rightarrow> (Inr p, fs'))))"

text \<open>\<open>resolve_config_path\<close>: an explicit path wins.\<close>

definition resolve_config_path ::
    "platform \<Rightarrow> dirs \<Rightarrow> migrate_env \<Rightarrow> role \<Rightarrow> path option \<Rightarrow> fs \<Rightarrow> (paths_error + path) \<times> fs" where
  "resolve_config_path pf d env r override fs =
     (case override of Some p \<Rightarrow> (Inr p, fs) | None \<Rightarrow> default_config_path pf d env r fs)"

section \<open>Properties\<close>

lemma migrate_temp_apart:
  "legacy \<noteq> migrate_temp env dest \<Longrightarrow> dest \<noteq> migrate_temp env dest \<Longrightarrow>
   copy_no_overwrite env legacy dest fs = (done, fs') \<Longrightarrow>
   (done \<longrightarrow> fs' = (let fs1 = mg_rival env (fs(migrate_temp env dest \<mapsto> stored (f_data (the (fs legacy)))))
                    in (if fs1 dest = None then fs1(dest := fs1 (migrate_temp env dest)) else fs1)(migrate_temp env dest := None))) \<and>
   (\<not> done \<longrightarrow> fs' = fs \<or> fs' = fs(migrate_temp env dest := None) \<or>
      fs' = (mg_rival env (fs(migrate_temp env dest \<mapsto> stored (f_data (the (fs legacy))))))(migrate_temp env dest := None))"
  by (auto simp: copy_no_overwrite_def hard_link_def Let_def split: if_splits option.splits)

text \<open>The migration never replaces a configuration: one that is there, or that another process creates meanwhile,
stays as it is; otherwise what appears is a complete, private, synced copy of the legacy file, and only when the
migration reports success. The legacy file is never changed.\<close>

theorem migration_never_overwrites:
  assumes "migrate_legacy env legacy dest fs = (r, fs')"
    and "legacy \<noteq> migrate_temp env dest" "dest \<noteq> migrate_temp env dest" "legacy \<noteq> dest"
    and "\<forall>g. mg_rival env g legacy = g legacy \<and> mg_rival env g (migrate_temp env dest) = g (migrate_temp env dest)"
  shows "fs' legacy = fs legacy \<and>
    (fs dest \<noteq> None \<longrightarrow> fs' = fs) \<and>
    (fs dest = None \<longrightarrow> fs' dest = None \<or> fs' dest = mg_rival env (fs(migrate_temp env dest \<mapsto> stored (f_data (the (fs legacy))))) dest \<or>
       r = Inr True \<and> fs legacy \<noteq> None \<and> fs' dest = Some (stored (f_data (the (fs legacy)))))"
proof (cases "fs dest \<noteq> None \<or> mg_dest_denied env \<or> mg_legacy_denied env \<or> fs legacy = None")
  case True
  then show ?thesis using assms(1) by (auto simp: migrate_legacy_def split: if_splits)
next
  case False
  obtain ok g where run: "copy_no_overwrite env legacy dest fs = (ok, g)" by (cases "copy_no_overwrite env legacy dest fs")
  with False assms(1) have res: "fs' = g" "ok \<Longrightarrow> r = Inr True" by (auto simp: migrate_legacy_def split: bool.splits)
  let ?t = "migrate_temp env dest" and ?fs1 = "mg_rival env (fs(migrate_temp env dest \<mapsto> stored (f_data (the (fs legacy)))))"
  have keep: "?fs1 legacy = fs legacy" "?fs1 ?t = Some (stored (f_data (the (fs legacy))))" using assms(2,5) by auto
  show ?thesis
    using migrate_temp_apart [OF assms(2,3) run] False res keep assms(2-4) by (cases ok) (auto simp: Let_def)
qed

definition demo_migrate :: "(fs \<Rightarrow> fs) \<Rightarrow> migrate_env" where
  "demo_migrate rival = \<lparr>mg_dest_denied = False, mg_legacy_denied = False, mg_reads = True, mg_mkdir = True, mg_creates = True,
     mg_write_stops = None, mg_syncs = True, mg_links = True, mg_pid = 7, mg_rival = rival\<rparr>"

definition rival_config :: "fs \<Rightarrow> fs" where
  "rival_config fs = fs(''/h/c'' \<mapsto> stored ''other'')"

lemma demo_migrate_temp: "migrate_temp (demo_migrate rival) ''/h/c'' = ''/h/.c.migrate.7''"
proof -
  have "parent_dir ''/h/c'' = ''/h''" "comps_file_name (components ''/h/c'') = Some ''c''" "to_str ''c'' = Some ''c''"
    "nat_str 7 = ''7''"
    by code_simp+
  then show ?thesis by (simp add: migrate_temp_def demo_migrate_def path_join_def ends_with_def)
qed

lemma demo_migrate_run:
  "migrate_legacy (demo_migrate rival_config) ''/l'' ''/h/c'' [''/l'' \<mapsto> stored ''old''] =
     (Inr True, [''/l'' \<mapsto> stored ''old'', ''/h/c'' \<mapsto> stored ''other''])"
proof -
  have "copy_no_overwrite (demo_migrate rival_config) ''/l'' ''/h/c'' [''/l'' \<mapsto> stored ''old''] =
      (True, [''/l'' \<mapsto> stored ''old'', ''/h/c'' \<mapsto> stored ''other''])"
    unfolding copy_no_overwrite_def Let_def demo_migrate_temp
    by (simp add: demo_migrate_def rival_config_def hard_link_def fun_eq_iff)
  then show ?thesis by (simp add: migrate_legacy_def) (simp add: demo_migrate_def)
qed

theorem migration_never_overwrites_witness:
  "snd (migrate_legacy (demo_migrate rival_config) ''/l'' ''/h/c'' [''/l'' \<mapsto> stored ''old'']) ''/l'' = Some (stored ''old'')"
proof -
  have "snd (migrate_legacy (demo_migrate rival_config) ''/l'' ''/h/c'' [''/l'' \<mapsto> stored ''old'']) ''/l'' =
      [''/l'' \<mapsto> stored ''old''] ''/l''"
    by (rule conjunct1 [OF migration_never_overwrites [OF prod.collapse [symmetric]]])
      (simp_all add: demo_migrate_temp, simp_all add: demo_migrate_def rival_config_def)
  then show ?thesis by simp
qed

text \<open>The notice of a copy is also given when another process created the configuration and nothing was copied.\<close>

lemma notice_without_copy:
  "\<exists>env fs fs'. migrate_legacy env ''/l'' ''/h/c'' fs = (Inr True, fs') \<and> fs' ''/h/c'' \<noteq> fs ''/l''"
  using demo_migrate_run by (intro exI conjI) (assumption, simp add: stored_def)

end
