(* ===== verification/ServicePlan.thy ===== *)
theory ServicePlan
  imports Paths Registration Ownership
begin

text \<open>
  What \<open>service install\<close> decides and checks before anything is written (\<open>service/install.rs\<close>,
  \<open>system.rs\<close>, \<open>policy.rs\<close>, \<open>decide_install_scope.rs\<close> and the scope helpers): whose files a system
  service uses, whether it may replace what is registered, and that the service could run.

  The user database, the file system as the installer sees it, the locks and the installed
  registration are the answers in \<open>plan_host\<close>.
\<close>

section \<open>Scopes\<close>

datatype service_scope = SystemScope | UserScope

record environment =
  elevated :: bool
  can_answer :: bool

datatype scope_decision = Chosen service_scope | NeedsChoice

definition decide_install_scope :: "service_scope option \<Rightarrow> environment \<Rightarrow> scope_decision" where
  "decide_install_scope requested env =
     (case requested of
        Some scope \<Rightarrow> Chosen scope
      | None \<Rightarrow>
          if elevated env then Chosen SystemScope
          else if can_answer env then NeedsChoice else Chosen UserScope)"

definition ascii_lower :: "char \<Rightarrow> char" where
  "ascii_lower c = (if CHR ''A'' \<le> c \<and> c \<le> CHR ''Z'' then char_of (of_char c + (32 :: nat)) else c)"

definition parse_scope_answer :: "string \<Rightarrow> string + service_scope" where
  "parse_scope_answer answer =
     (let a = map ascii_lower (str_trim answer)
      in if a \<in> {[], ''u'', ''user''} then Inr UserScope
         else if a \<in> {''s'', ''system''} then Inr SystemScope
         else Inl a)"

definition default_scope :: "bool \<Rightarrow> service_scope" where
  "default_scope is_elevated = (if is_elevated then SystemScope else UserScope)"

fun scope_flag :: "service_scope \<Rightarrow> string" where
  "scope_flag SystemScope = ''--system''"
| "scope_flag UserScope = ''--user''"

section \<open>Accounts and refusals\<close>

record account =
  ac_name :: string
  ac_uid :: u32
  ac_home :: path

datatype unknown_why = CannotInspect path | NobodyOwns path | NoSuchUser string | NoSudoUser

datatype service_error =
    ExeNotAbsolute path
  | SystemUnsupported
  | NeedsRoot "string list"
  | PathsRefused paths_error
  | CannotResolve path
  | NoCurrentDir
  | StateNotAbsolute path
  | UnknownUser unknown_why
  | TwoUsers account path account
  | NoConfigOf account path
  | NoStateOf account
  | RoleConflict role tier "owner_record option" service_scope
  | LockDirsFailed
  | Untrusted trust_error
  | NotInstallable path

section \<open>Support and privilege\<close>

definition ensure_supported :: "platform \<Rightarrow> service_scope \<Rightarrow> service_error + unit" where
  "ensure_supported pf scope = (if pf = WindowsOs \<and> scope = SystemScope then Inl SystemUnsupported else Inr ())"

definition shell_plain :: "char \<Rightarrow> bool" where
  "shell_plain c \<longleftrightarrow> is_alnum c \<or> c \<in> set ''_@%+=:,./-''"

definition shell_quote :: "string \<Rightarrow> string" where
  "shell_quote arg =
     (if arg \<noteq> [] \<and> list_all shell_plain arg then arg
      else CHR 0x27 # concat (map (\<lambda>c. if c = CHR 0x27 then [CHR 0x27, CHR 0x5C, CHR 0x27, CHR 0x27] else [c]) arg) @ [CHR 0x27])"

fun intersperse_space :: "string list \<Rightarrow> string" where
  "intersperse_space [] = []"
| "intersperse_space [w] = w"
| "intersperse_space (w # ws) = w @ CHR '' '' # intersperse_space ws"

text \<open>The command line of the guidance, \<open>sudo\<close> before it.\<close>

definition rerun_command :: "string list \<Rightarrow> string" where
  "rerun_command rerun = intersperse_space (map shell_quote rerun)"

definition ensure_privilege :: "service_scope \<Rightarrow> bool \<Rightarrow> string list \<Rightarrow> service_error + unit" where
  "ensure_privilege scope is_elevated rerun =
     (if scope = UserScope \<or> is_elevated then Inr () else Inl (NeedsRoot rerun))"

definition check_verb_policy :: "platform \<Rightarrow> string \<Rightarrow> role \<Rightarrow> service_scope \<Rightarrow> environment \<Rightarrow> service_error + unit" where
  "check_verb_policy pf verb r scope env =
     and_then (ensure_supported pf scope) (\<lambda>_.
       ensure_privilege scope (elevated env) [''iroh-tunnel'', role_name r, ''service'', verb, scope_flag scope])"

definition install_rerun :: "(path \<Rightarrow> string) \<Rightarrow> role \<Rightarrow> service_scope \<Rightarrow> path \<Rightarrow> string list" where
  "install_rerun lossy r scope config =
     [''iroh-tunnel'', role_name r, ''service'', ''install'', scope_flag scope, ''--config'', lossy config]"

section \<open>Paths\<close>

definition abs_join :: "path \<Rightarrow> path \<Rightarrow> path" where
  "abs_join d p = (if starts_with p ''/'' then p else path_join d p)"

text \<open>\<open>std::path::absolute\<close> on Unix: nothing is looked up; two leading slashes and a final one are kept.\<close>

definition std_absolute :: "path option \<Rightarrow> path \<Rightarrow> path option" where
  "std_absolute cwd p =
     (if p = [] then None
      else
        (let cs = (case components p of CurDir # r \<Rightarrow> r | cs \<Rightarrow> cs);
             two = starts_with p ''//'' \<and> \<not> starts_with p ''///'';
             done = (\<lambda>d ns. let q = fold (\<lambda>c acc. abs_join acc (comp_str c)) ns d
                            in if ends_with p ''/'' then path_join q [] else q)
         in if is_absolute p then Some (if two then done ''//'' (tl cs) else done [] cs)
            else map_option (\<lambda>d. done d cs) cwd))"

section \<open>The host as the plan sees it\<close>

record plan_host =
  ph_platform :: platform
  ph_dirs :: dirs
  ph_migrate :: migrate_env
  ph_lossy :: "path \<Rightarrow> string"
  ph_canonical :: "path \<Rightarrow> path option"
  ph_cwd :: "path option"
  ph_dir_uid :: "path \<Rightarrow> u32 option"
  ph_by_name :: "string \<Rightarrow> account option"
  ph_by_uid :: "u32 \<Rightarrow> account option"
  ph_liveness :: "path option \<Rightarrow> tier \<Rightarrow> liveness option"
  ph_tree :: tree
  ph_exists :: "path \<Rightarrow> bool"
  ph_reads :: "path \<Rightarrow> string option"
  ph_registration :: reg_read

text \<open>\<open>trust::canonical\<close>; \<open>account::by_name\<close> cannot ask for a name with a NUL byte.\<close>

definition canonical :: "plan_host \<Rightarrow> path \<Rightarrow> service_error + path" where
  "canonical h p = (case ph_canonical h p of Some q \<Rightarrow> Inr q | None \<Rightarrow> Inl (CannotResolve p))"

definition by_name :: "plan_host \<Rightarrow> string \<Rightarrow> account option" where
  "by_name h name = (if CHR 0x00 \<in> set name then None else ph_by_name h name)"

definition absolutize_config_path :: "plan_host \<Rightarrow> path \<Rightarrow> service_error + path" where
  "absolutize_config_path h p =
     (if is_absolute p then Inr p
      else case ph_canonical h p of
        Some q \<Rightarrow> Inr q
      | None \<Rightarrow> (case ph_cwd h of Some d \<Rightarrow> Inr (abs_join d p) | None \<Rightarrow> Inl NoCurrentDir))"

definition pinned_state_dir :: "plan_host \<Rightarrow> path option \<Rightarrow> service_error + path" where
  "pinned_state_dir h override =
     and_then
       (case override of
          Some d \<Rightarrow> if d \<noteq> [] then Inr d else map_sum PathsRefused id (default_state_dir (ph_platform h) (ph_dirs h))
        | None \<Rightarrow> map_sum PathsRefused id (default_state_dir (ph_platform h) (ph_dirs h)))
       (\<lambda>d. case std_absolute (ph_cwd h) d of Some p \<Rightarrow> Inr p | None \<Rightarrow> Inl (StateNotAbsolute d))"

section \<open>Whose files\<close>

record target_request =
  tr_role :: role
  tr_config :: "path option"
  tr_state :: "path option"
  tr_sudo_user :: "string option"

record target =
  tg_account :: account
  tg_config :: path
  tg_state :: path

definition target_pin :: "target \<Rightarrow> pin" where
  "target_pin t = \<lparr>pin_config = tg_config t, pin_uid = ac_uid (tg_account t)\<rparr>"

definition sudo_account :: "plan_host \<Rightarrow> target_request \<Rightarrow> account option" where
  "sudo_account h rq =
     (case tr_sudo_user rq of
        None \<Rightarrow> None
      | Some name \<Rightarrow>
          if name = [] then None
          else (case by_name h name of Some a \<Rightarrow> if ac_uid a \<noteq> 0 then Some a else None | None \<Rightarrow> None))"

definition config_dir_owner :: "plan_host \<Rightarrow> path \<Rightarrow> service_error + account" where
  "config_dir_owner h config =
     (let parent = parent_dir config
      in case ph_dir_uid h parent of
           None \<Rightarrow> Inl (UnknownUser (CannotInspect parent))
         | Some uid \<Rightarrow>
             (case ph_by_uid h uid of None \<Rightarrow> Inl (UnknownUser (NobodyOwns parent)) | Some a \<Rightarrow> Inr a))"

definition choose_account :: "plan_host \<Rightarrow> target_request \<Rightarrow> string option \<Rightarrow> service_error + account option" where
  "choose_account h rq invoking_user =
     (case (sudo_account h rq, tr_config rq) of
        (Some a, Some config) \<Rightarrow>
          and_then (canonical h config) (\<lambda>c.
            and_then (config_dir_owner h c) (\<lambda>own.
              if ac_uid own \<noteq> ac_uid a then Inl (TwoUsers a config own) else Inr (Some a)))
      | (Some a, None) \<Rightarrow> Inr (Some a)
      | (None, Some config) \<Rightarrow> and_then (canonical h config) (\<lambda>c. map_sum id Some (config_dir_owner h c))
      | (None, None) \<Rightarrow>
          (case invoking_user of
             Some name \<Rightarrow> (case by_name h name of Some a \<Rightarrow> Inr (Some a) | None \<Rightarrow> Inl (UnknownUser (NoSuchUser name)))
           | None \<Rightarrow> Inr None))"

definition target_config :: "plan_host \<Rightarrow> target_request \<Rightarrow> account \<Rightarrow> service_error + path" where
  "target_config h rq a =
     (case tr_config rq of
        Some p \<Rightarrow> canonical h p
      | None \<Rightarrow>
          (let p = config_path_in (ac_home a) (tr_role rq)
           in map_sum (\<lambda>_. NoConfigOf a p) id (canonical h p)))"

definition target_state :: "plan_host \<Rightarrow> target_request \<Rightarrow> account \<Rightarrow> service_error + path" where
  "target_state h rq a =
     and_then
       (case tr_state rq of
          Some p \<Rightarrow> (case std_absolute (ph_cwd h) p of Some q \<Rightarrow> Inr q | None \<Rightarrow> Inl (StateNotAbsolute p))
        | None \<Rightarrow> Inr (state_dir_in (ac_home a)))
       (\<lambda>p. map_sum (\<lambda>_. NoStateOf a) id (canonical h p))"

definition resolve_target_account ::
    "plan_host \<Rightarrow> target_request \<Rightarrow> string option \<Rightarrow> service_error + target option" where
  "resolve_target_account h rq invoking_user =
     and_then (choose_account h rq invoking_user) (\<lambda>chosen.
       case chosen of
         None \<Rightarrow> Inr None
       | Some a \<Rightarrow>
           and_then (target_config h rq a) (\<lambda>config.
             and_then (target_state h rq a) (\<lambda>state.
               Inr (Some \<lparr>tg_account = a, tg_config = config, tg_state = state\<rparr>))))"

section \<open>Replacing a registration\<close>

record retarget_consent =
  rc_previous :: "pin option"
  rc_proposed :: pin

datatype retarget_decision = RetargetProceed | RetargetNeeds "pin option" pin

definition retarget_decision :: "string option \<Rightarrow> target \<Rightarrow> retarget_consent option \<Rightarrow> retarget_decision" where
  "retarget_decision existing t consent =
     (case existing of
        None \<Rightarrow> RetargetProceed
      | Some body \<Rightarrow>
          (let previous = pin_find body; proposed = target_pin t
           in if (case previous of Some p \<Rightarrow> pin_uid p = ac_uid (tg_account t) | None \<Rightarrow> False) then RetargetProceed
              else if (case consent of Some c \<Rightarrow> rc_previous c = previous \<and> rc_proposed c = proposed | None \<Rightarrow> False)
              then RetargetProceed
              else RetargetNeeds previous proposed))"

section \<open>The plan\<close>

record install_request =
  ir_role :: role
  ir_scope :: "service_scope option"
  ir_config :: "path option"
  ir_executable :: path
  ir_sudo_user :: "string option"
  ir_invoking_user :: "string option"
  ir_state_override :: "path option"
  ir_retarget :: "retarget_consent option"

datatype install_need = ScopeChoice | InvokingUser | Retarget "pin option" pin

record install_plan =
  pl_scope :: service_scope
  pl_config :: path
  pl_state :: path
  pl_pin :: "pin option"

datatype planned = Needs install_need | Ready install_plan

definition system_wide_only :: "platform \<Rightarrow> bool" where
  "system_wide_only pf \<longleftrightarrow> pf = LinuxBusyBox"

definition effective_scope_for :: "service_scope \<Rightarrow> bool \<Rightarrow> service_scope" where
  "effective_scope_for requested wide_only = (if wide_only then SystemScope else requested)"

definition ensure_no_cross_scope_conflict ::
    "plan_host \<Rightarrow> role \<Rightarrow> service_scope \<Rightarrow> path option \<Rightarrow> service_error + unit" where
  "ensure_no_cross_scope_conflict h r registering home =
     (let (other_tier, other_scope) =
            (case registering of UserScope \<Rightarrow> (MachineTier, SystemScope) | SystemScope \<Rightarrow> (UserTier, UserScope))
      in case ph_liveness h home other_tier of
           None \<Rightarrow> Inl LockDirsFailed
         | Some NotRunning \<Rightarrow> Inr ()
         | Some (RunningAt t ow) \<Rightarrow> Inl (RoleConflict r t ow other_scope))"

definition check_installable_text :: "toml_lib \<Rightarrow> role \<Rightarrow> string \<Rightarrow> path \<Rightarrow> service_error + unit" where
  "check_installable_text lib r body config = (if loads lib r body then Inr () else Inl (NotInstallable config))"

definition check_installable_config :: "toml_lib \<Rightarrow> plan_host \<Rightarrow> role \<Rightarrow> path \<Rightarrow> service_error + unit" where
  "check_installable_config lib h r config =
     (case ph_reads h config of
        None \<Rightarrow> Inl (NotInstallable config)
      | Some body \<Rightarrow> check_installable_text lib r body config)"

definition absolute_config ::
    "plan_host \<Rightarrow> install_request \<Rightarrow> fs \<Rightarrow> (service_error + path) \<times> fs" where
  "absolute_config h rq fs =
     (case resolve_config_path (ph_platform h) (ph_dirs h) (ph_migrate h) (ir_role rq) (ir_config rq) fs of
        (Inl e, fs') \<Rightarrow> (Inl (PathsRefused e), fs')
      | (Inr p, fs') \<Rightarrow> (absolutize_config_path h p, fs'))"

text \<open>What follows the privilege check of a system install, by an elevated installer: the checks for the user that
was chosen, and before them the choice.\<close>

definition plan_for_target :: "toml_lib \<Rightarrow> plan_host \<Rightarrow> install_request \<Rightarrow> target \<Rightarrow> service_error + planned" where
  "plan_for_target lib h rq t =
     and_then (ensure_no_cross_scope_conflict h (ir_role rq) SystemScope (Some (ac_home (tg_account t)))) (\<lambda>_.
       and_then (map_sum Untrusted id
           (verify_dir (ph_tree h) (ph_exists h (tg_state t)) (tg_state t) (ac_uid (tg_account t)))) (\<lambda>_.
         and_then (map_sum Untrusted id (read_verified (ph_tree h) (tg_config t) (ac_uid (tg_account t)))) (\<lambda>body.
           and_then (check_installable_text lib (ir_role rq) body (tg_config t)) (\<lambda>_.
             case retarget_decision (read_registration (ph_registration h)) t (ir_retarget rq) of
               RetargetNeeds previous proposed \<Rightarrow> Inr (Needs (Retarget previous proposed))
             | RetargetProceed \<Rightarrow>
                 Inr (Ready \<lparr>pl_scope = SystemScope, pl_config = tg_config t, pl_state = tg_state t,
                             pl_pin = Some (target_pin t)\<rparr>)))))"

definition plan_as_root ::
    "toml_lib \<Rightarrow> plan_host \<Rightarrow> install_request \<Rightarrow> environment \<Rightarrow> service_error + planned" where
  "plan_as_root lib h rq env =
     and_then (case ir_config rq of None \<Rightarrow> Inr None | Some p \<Rightarrow> map_sum id Some (absolutize_config_path h p)) (\<lambda>config_abs.
       and_then
         (resolve_target_account h
            \<lparr>tr_role = ir_role rq, tr_config = config_abs, tr_state = ir_state_override rq, tr_sudo_user = ir_sudo_user rq\<rparr>
            (ir_invoking_user rq)) (\<lambda>chosen.
         case chosen of
           None \<Rightarrow> if can_answer env then Inr (Needs InvokingUser) else Inl (UnknownUser NoSudoUser)
         | Some t \<Rightarrow> plan_for_target lib h rq t))"

definition plan_system_install ::
    "toml_lib \<Rightarrow> plan_host \<Rightarrow> install_request \<Rightarrow> environment \<Rightarrow> fs \<Rightarrow> (service_error + planned) \<times> fs" where
  "plan_system_install lib h rq env fs =
     (if ph_platform h = WindowsOs then (Inl SystemUnsupported, fs)
      else if elevated env then (plan_as_root lib h rq env, fs)
      else
        (case absolute_config h rq fs of
           (Inl e, fs') \<Rightarrow> (Inl e, fs')
         | (Inr config, fs') \<Rightarrow>
             (and_then (ensure_privilege SystemScope False (install_rerun (ph_lossy h) (ir_role rq) SystemScope config))
                (\<lambda>_. plan_as_root lib h rq env), fs')))"

definition plan_user_install ::
    "toml_lib \<Rightarrow> plan_host \<Rightarrow> install_request \<Rightarrow> environment \<Rightarrow> fs \<Rightarrow> (service_error + planned) \<times> fs" where
  "plan_user_install lib h rq env fs =
     (case absolute_config h rq fs of
        (Inl e, fs') \<Rightarrow> (Inl e, fs')
      | (Inr config, fs') \<Rightarrow>
          (and_then (pinned_state_dir h (ir_state_override rq)) (\<lambda>state.
             and_then (ensure_privilege UserScope (elevated env) (install_rerun (ph_lossy h) (ir_role rq) UserScope config)) (\<lambda>_.
               and_then (ensure_no_cross_scope_conflict h (ir_role rq)
                   (effective_scope_for UserScope (system_wide_only (ph_platform h))) None) (\<lambda>_.
                 and_then (check_installable_config lib h (ir_role rq) config) (\<lambda>_.
                   Inr (Ready \<lparr>pl_scope = UserScope, pl_config = config, pl_state = state, pl_pin = None\<rparr>))))), fs'))"

definition plan_install ::
    "toml_lib \<Rightarrow> plan_host \<Rightarrow> install_request \<Rightarrow> environment \<Rightarrow> fs \<Rightarrow> (service_error + planned) \<times> fs" where
  "plan_install lib h rq env fs =
     (if \<not> is_absolute (ir_executable rq) then (Inl (ExeNotAbsolute (ir_executable rq)), fs)
      else
        (let requested = (case ir_scope rq of
                            Some s \<Rightarrow> Some s
                          | None \<Rightarrow> if ph_platform h = WindowsOs then Some UserScope else None)
         in case decide_install_scope requested env of
              NeedsChoice \<Rightarrow> (Inr (Needs ScopeChoice), fs)
            | Chosen scope \<Rightarrow>
                (case ensure_supported (ph_platform h) scope of
                   Inl e \<Rightarrow> (Inl e, fs)
                 | Inr _ \<Rightarrow>
                     if scope = SystemScope then plan_system_install lib h rq env fs
                     else plan_user_install lib h rq env fs)))"

section \<open>The rerun command\<close>

text \<open>
  How a POSIX shell splits a command of plain characters, single quotes and backslashes into words;
  any other character outside quotes could mean something to it and is not accepted here.
\<close>

fun sh_words :: "bool \<Rightarrow> string \<Rightarrow> bool \<Rightarrow> string \<Rightarrow> string list option" where
  "sh_words q acc started [] = (if q then None else Some (if started then [rev acc] else []))"
| "sh_words q acc started (c # cs) =
     (if q then (if c = CHR 0x27 then sh_words False acc True cs else sh_words True (c # acc) True cs)
      else if c = CHR '' '' then
        (if started then map_option (\<lambda>ws. rev acc # ws) (sh_words False [] False cs) else sh_words False [] False cs)
      else if c = CHR 0x27 then sh_words True acc True cs
      else if c = CHR 0x5C then
        (case cs of d # r \<Rightarrow> if d = CHR 0x0A then None else sh_words False (d # acc) True r | [] \<Rightarrow> None)
      else if shell_plain c then sh_words False (c # acc) True cs
      else None)"

lemma shell_plain_char: "shell_plain c \<Longrightarrow> c \<noteq> CHR '' '' \<and> c \<noteq> CHR 0x27 \<and> c \<noteq> CHR 0x5C"
  by (auto simp: shell_plain_def is_alnum_def is_digit_def less_eq_char_def)

lemma sh_words_plain:
  "list_all shell_plain s \<Longrightarrow> s \<noteq> [] \<or> started \<Longrightarrow> sh_words False acc started (s @ t) = sh_words False (rev s @ acc) True t"
proof (induction s arbitrary: acc started)
  case (Cons c s)
  then show ?case using shell_plain_char [of c] Cons.IH [of True] by simp
qed auto

lemma sh_words_quoted:
  "sh_words True acc True (concat (map (\<lambda>c. if c = CHR 0x27 then [CHR 0x27, CHR 0x5C, CHR 0x27, CHR 0x27] else [c]) s) @ t) =
     sh_words True (rev s @ acc) True t"
  by (induction s arbitrary: acc) auto

lemma sh_words_quote: "sh_words False [] False (shell_quote w @ t) = sh_words False (rev w) True t"
proof (cases "w \<noteq> [] \<and> list_all shell_plain w")
  case True
  then show ?thesis using sh_words_plain [of w False "[]" t] by (simp add: shell_quote_def)
next
  case False
  then show ?thesis using sh_words_quoted [of "[]" w "CHR 0x27 # t"] by (auto simp: shell_quote_def)
qed

text \<open>The command that a refused system install tells the user to run is, read by a shell, exactly the refused
operation: every argument comes back as it was, whatever characters the path holds.\<close>

theorem rerun_reads_back: "sh_words False [] False (rerun_command ws) = Some ws"
proof (induction ws rule: intersperse_space.induct)
  case (2 w)
  show ?case using sh_words_quote [of w "[]"] by (simp add: rerun_command_def)
next
  case (3 w v vs)
  then show ?case using sh_words_quote [of w "CHR '' '' # rerun_command (v # vs)"] by (simp add: rerun_command_def)
qed (simp add: rerun_command_def)

section \<open>What a plan guarantees\<close>

lemma map_sum_Inr: "map_sum f g r = Inr y \<longleftrightarrow> (\<exists>x. r = Inr x \<and> y = g x)"
  by (cases r) auto

lemma verify_dir_stable:
  assumes "verify_dir fs True p uid = Inr ()" and "adversary uid fs fs'"
  shows "verify_dir fs' True p uid = Inr ()"
proof -
  obtain names root e where w: "is_absolute p" "normal_names p (components p) = Inr names" "fs 0 = Some root"
      "walk_from fs uid True (entry_new 0 root ''/'') names = Inr e"
    using assms(1) by (auto simp: verify_dir_def walk_def map_sum_Inr split: sum.splits option.splits if_splits)
  note race = walk_is_race [OF w(4)]
  have late: "walk_from fs' uid True (entry_new 0 root ''/'') names = Inr e"
    using race_sound [OF race w(3) refl assms(2)] by simp
  obtain root' where "fs' 0 = Some root'" "entry_new 0 root' ''/'' = entry_new 0 root ''/''"
    using handle_stays [OF assms(2) w(3) race_trusted [OF race]] by blast
  with late w(1,2) show ?thesis by (simp add: verify_dir_def walk_def)
qed

text \<open>What a plan of a root installer rests on.\<close>

definition request_of :: "install_request \<Rightarrow> path option \<Rightarrow> target_request" where
  "request_of rq config_abs =
     \<lparr>tr_role = ir_role rq, tr_config = config_abs, tr_state = ir_state_override rq, tr_sudo_user = ir_sudo_user rq\<rparr>"

lemma plan_as_root_target:
  assumes "plan_as_root lib h rq env = Inr (Ready p)"
  shows "\<exists>config_abs t. resolve_target_account h (request_of rq config_abs) (ir_invoking_user rq) = Inr (Some t) \<and>
    plan_for_target lib h rq t = Inr (Ready p)"
proof -
  obtain config_abs chosen where r: "resolve_target_account h (request_of rq config_abs) (ir_invoking_user rq) = Inr chosen"
    "(case chosen of None \<Rightarrow> if can_answer env then Inr (Needs InvokingUser) else Inl (UnknownUser NoSudoUser)
      | Some t \<Rightarrow> plan_for_target lib h rq t) = Inr (Ready p)"
    using assms unfolding plan_as_root_def request_of_def and_then_Inr by blast
  then show ?thesis by (cases chosen) (auto split: if_splits)
qed

lemma plan_for_target_ready:
  assumes "plan_for_target lib h rq t = Inr (Ready p)"
  shows "p = \<lparr>pl_scope = SystemScope, pl_config = tg_config t, pl_state = tg_state t, pl_pin = Some (target_pin t)\<rparr>"
    and "ph_liveness h (Some (ac_home (tg_account t))) UserTier = Some NotRunning"
    and "verify_dir (ph_tree h) (ph_exists h (tg_state t)) (tg_state t) (ac_uid (tg_account t)) = Inr ()"
    and "\<exists>body. read_verified (ph_tree h) (tg_config t) (ac_uid (tg_account t)) = Inr body \<and> loads lib (ir_role rq) body"
    and "retarget_decision (read_registration (ph_registration h)) t (ir_retarget rq) = RetargetProceed"
  using assms
  by (auto simp: plan_for_target_def map_sum_Inr ensure_no_cross_scope_conflict_def check_installable_text_def
      split: option.splits if_splits retarget_decision.splits liveness.splits)

lemma plan_system_ready:
  assumes "plan_install lib h rq env fs = (Inr (Ready p), fs')" and "pl_scope p = SystemScope"
  shows "elevated env \<and> fs' = fs \<and> is_absolute (ir_executable rq) \<and> ph_platform h \<noteq> WindowsOs \<and>
    plan_as_root lib h rq env = Inr (Ready p)"
  using assms
  by (auto simp: plan_install_def plan_system_install_def plan_user_install_def ensure_supported_def ensure_privilege_def Let_def
      split: if_splits sum.splits scope_decision.splits option.splits prod.splits)

lemma chosen_sudo:
  assumes "choose_account h rq invoking = Inr (Some a)" and "sudo_account h rq = Some b"
  shows "a = b"
  using assms by (auto simp: choose_account_def split: option.splits if_splits)

lemma retarget_proceed:
  "retarget_decision existing t consent = RetargetProceed \<longleftrightarrow>
     (case existing of
        None \<Rightarrow> True
      | Some body \<Rightarrow> (\<exists>q. pin_find body = Some q \<and> pin_uid q = ac_uid (tg_account t)) \<or>
          consent = Some \<lparr>rc_previous = pin_find body, rc_proposed = target_pin t\<rparr>)"
  by (cases consent) (auto simp: retarget_decision_def Let_def split: option.splits)

text \<open>C37: a system install that is ready to be written was asked for by root and concerns one user. The registration
pins that user's uid and the configuration; under that uid the configuration file and the state directory
are ones no third user can choose or change, now or later, and the file is a valid configuration of the
role. Nothing of that user runs the role in their session. A registration that is already there is
replaced only if it is pinned to the same uid or the caller consented to replace exactly it by exactly
this one. When sudo names a user, it is that user, and not root.\<close>

theorem system_plan_safe:
  assumes "plan_install lib h rq env fs = (Inr (Ready p), fs')" and "pl_scope p = SystemScope"
  shows "elevated env \<and> fs' = fs \<and>
    (\<exists>a. pl_pin p = Some \<lparr>pin_config = pl_config p, pin_uid = ac_uid a\<rparr> \<and>
       (\<exists>body. loads lib (ir_role rq) body \<and>
          (\<forall>late. adversary (ac_uid a) (ph_tree h) late \<longrightarrow>
             read_verified late (pl_config p) (ac_uid a) = Inr body \<and> verify_dir late True (pl_state p) (ac_uid a) = Inr ())) \<and>
       ph_liveness h (Some (ac_home a)) UserTier = Some NotRunning \<and>
       (case read_registration (ph_registration h) of
          None \<Rightarrow> True
        | Some old \<Rightarrow> (\<exists>q. pin_find old = Some q \<and> pin_uid q = ac_uid a) \<or>
            ir_retarget rq = Some \<lparr>rc_previous = pin_find old, rc_proposed = \<lparr>pin_config = pl_config p, pin_uid = ac_uid a\<rparr>\<rparr>) \<and>
       (\<forall>name b. ir_sudo_user rq = Some name \<and> name \<noteq> [] \<and> by_name h name = Some b \<and> ac_uid b \<noteq> 0 \<longrightarrow> a = b))"
proof -
  note root = plan_system_ready [OF assms]
  then obtain config_abs t where target: "resolve_target_account h (request_of rq config_abs) (ir_invoking_user rq) = Inr (Some t)"
    "plan_for_target lib h rq t = Inr (Ready p)"
    using plan_as_root_target by blast
  note r = plan_for_target_ready [OF target(2)]
  obtain body where body: "read_verified (ph_tree h) (tg_config t) (ac_uid (tg_account t)) = Inr body" "loads lib (ir_role rq) body"
    using r(4) by blast
  let ?a = "tg_account t"
  have dir: "verify_dir (ph_tree h) True (tg_state t) (ac_uid ?a) = Inr ()"
    using r(3) by (cases "ph_exists h (tg_state t)") (simp_all add: verify_dir_def)
  have chosen: "choose_account h (request_of rq config_abs) (ir_invoking_user rq) = Inr (Some ?a)"
    using target(1) by (auto simp: resolve_target_account_def split: option.splits)
  have sudo: "?a = b" if "ir_sudo_user rq = Some name" "name \<noteq> []" "by_name h name = Some b" "ac_uid b \<noteq> 0" for name b
    by (rule chosen_sudo [OF chosen]) (use that in \<open>simp add: sudo_account_def request_of_def\<close>)
  have at: "pl_config p = tg_config t" "pl_state p = tg_state t" "pl_pin p = Some (target_pin t)" by (simp_all add: r(1))
  have old: "case read_registration (ph_registration h) of
          None \<Rightarrow> True
        | Some old \<Rightarrow> (\<exists>q. pin_find old = Some q \<and> pin_uid q = ac_uid ?a) \<or>
            ir_retarget rq = Some \<lparr>rc_previous = pin_find old, rc_proposed = \<lparr>pin_config = tg_config t, pin_uid = ac_uid ?a\<rparr>\<rparr>"
    using r(5) by (simp only: retarget_proceed target_pin_def)
  have "\<forall>late. adversary (ac_uid ?a) (ph_tree h) late \<longrightarrow>
      read_verified late (tg_config t) (ac_uid ?a) = Inr body \<and> verify_dir late True (tg_state t) (ac_uid ?a) = Inr ()"
    using read_verified_stable [OF body(1)] verify_dir_stable [OF dir] by blast
  with root body(2) r(2) sudo old show ?thesis by (intro conjI exI [of _ ?a]) (auto simp only: at target_pin_def)
qed

section \<open>What was planned runs\<close>

lemma str_trim_plain:
  assumes "list_all plain_char s"
  shows "str_trim s = s"
proof -
  have ne: "list_all plain_char r \<Longrightarrow> r \<noteq> [] \<Longrightarrow> str_words r \<noteq> []" for r
    using words_from_plain [of r "[]" "[]"] by simp
  have "list_all plain_char r \<Longrightarrow> trim_end r = r" for r
  proof (induction r)
    case (Cons c r)
    then show ?case using ne [of "c # r"] by (simp del: words_from.simps)
  qed simp
  moreover have "trim_start 0 s = s" using assms by (cases s) simp_all
  ultimately show ?thesis using assms by (simp add: str_trim_def)
qed

lemma trusted_uid_pinned:
  assumes "sv_var env ENV_TRUSTED_UID = Some (nat_str (unat (uid :: u32)))" and "\<not> sv_not_unicode env"
  shows "trusted_uid_from_env env = Inr (Some uid)"
proof -
  have "str_trim (nat_str (unat uid)) = nat_str (unat uid)" by (rule str_trim_plain) (rule pin_plain [OF digits_pin_chars])
  moreover have "parse_uint (2 ^ 32) (nat_str (unat uid)) = Some (unat uid)"
    by (rule parse_uint_nat_str) (use unsigned_less [of uid] in simp)
  ultimately show ?thesis using assms by (simp add: trusted_uid_from_env_def)
qed

text \<open>The two variables as the unit sets them.\<close>

lemma unit_word_alone:
  assumes "CHR 0x0A \<notin> set w"
  shows "unit_words line False [] False (quote_arg w line) = Some [w]"
  using unit_word [of w "[]" "[]" line] assms by simp

lemma unit_environment:
  assumes "CHR 0x0A \<notin> set (lossy state)"
  shows "unit_words EnvironmentLine False [] False (quote_arg (''IROH_TUNNEL_STATE_DIR='' @ lossy state) EnvironmentLine) =
      Some [ENV_STATE_DIR @ ''='' @ lossy state]"
    and "unit_words EnvironmentLine False [] False (quote_arg (ENV_TRUSTED_UID @ ''='' @ nat_str (unat (uid :: u32))) EnvironmentLine) =
      Some [ENV_TRUSTED_UID @ ''='' @ nat_str (unat uid)]"
proof -
  have state: "''IROH_TUNNEL_STATE_DIR='' @ lossy state = ENV_STATE_DIR @ ''='' @ lossy state" by (simp add: ENV_STATE_DIR_def)
  show "unit_words EnvironmentLine False [] False (quote_arg (''IROH_TUNNEL_STATE_DIR='' @ lossy state) EnvironmentLine) =
      Some [ENV_STATE_DIR @ ''='' @ lossy state]"
    unfolding state by (rule unit_word_alone) (use assms in \<open>simp add: ENV_STATE_DIR_def\<close>)
  have "\<not> pin_char (CHR 0x0A)" by (simp add: pin_char_def plain_char_def)
  then have "CHR 0x0A \<notin> set (nat_str (unat uid))" using digits_pin_chars [of "unat uid", unfolded list_all_iff] by blast
  then show "unit_words EnvironmentLine False [] False (quote_arg (ENV_TRUSTED_UID @ ''='' @ nat_str (unat uid)) EnvironmentLine) =
      Some [ENV_TRUSTED_UID @ ''='' @ nat_str (unat uid)]"
    by (intro unit_word_alone) (simp only: ENV_TRUSTED_UID_def set_append Un_iff de_Morgan_disj, simp)
qed

lemma installed_loads:
  assumes "plan_install lib h rq env fs = (Inr (Ready p), fs')" and "pl_scope p = SystemScope" and "pl_pin p = Some pn"
    and "sv_var sv ENV_TRUSTED_UID = Some (nat_str (unat (pin_uid pn)))" and "sv_var sv ENV_STATE_DIR = Some (pl_state p)"
    and "\<not> sv_not_unicode sv"
    and "adversary (pin_uid pn) (ph_tree h) late"
    and "\<forall>s. parse s = None \<longleftrightarrow> \<not> loads lib (ir_role rq) s"
  shows "\<exists>cfg. load_config sv late True parse key plain (pin_config pn) =
    (if key cfg = [] then Inl (NoSecretKey (pin_config pn)) else Inr cfg)"
proof -
  obtain config_abs t where "plan_for_target lib h rq t = Inr (Ready p)"
    using plan_as_root_target plan_system_ready [OF assms(1,2)] by blast
  note r = plan_for_target_ready [OF this]
  have pn: "pn = target_pin t" using assms(3) by (simp add: r(1))
  then have pn: "pn = target_pin t" "pin_config pn = tg_config t" "pin_uid pn = ac_uid (tg_account t)" "pl_state p = tg_state t"
    by (simp_all add: r(1) target_pin_def)
  obtain body where body: "read_verified (ph_tree h) (tg_config t) (pin_uid pn) = Inr body" "loads lib (ir_role rq) body"
    using r(4) pn(3) by auto
  obtain cfg where cfg: "parse body = Some cfg" using assms(8) body(2) by auto
  have dir: "verify_dir (ph_tree h) True (tg_state t) (pin_uid pn) = Inr ()"
    using r(3) pn(3) by (cases "ph_exists h (tg_state t)") (simp_all add: verify_dir_def)
  have "trusted_uid_from_env sv = Inr (Some (pin_uid pn))" by (rule trusted_uid_pinned) (rule assms(4,6))+
  with read_verified_stable [OF body(1) assms(7)] verify_dir_stable [OF dir assms(7)] assms(5) cfg pn(2,4)
  show ?thesis by (intro exI [of _ cfg]) (simp add: load_config_def)
qed

text \<open>C38: what a system install checked is what the service meets when it starts. Under the environment that the
registration sets, and whatever third users did in between, the trust policy of the running service loads the
configuration that was pinned; the one thing it may still refuse is that the configuration has no secret key.\<close>

theorem installed_service_loads:
  assumes "plan_install lib h rq env fs = (Inr (Ready p), fs')" and "pl_scope p = SystemScope" and "pl_pin p = Some pn"
    and "sv_var sv ENV_TRUSTED_UID = Some (nat_str (unat (pin_uid pn)))" and "sv_var sv ENV_STATE_DIR = Some (pl_state p)"
    and "\<not> sv_not_unicode sv"
    and "adversary (pin_uid pn) (ph_tree h) late"
    and "\<forall>s. parse s = None \<longleftrightarrow> \<not> loads lib (ir_role rq) s"
  shows "\<exists>cfg. load_config sv late True parse key plain (pin_config pn) =
    (if key cfg = [] then Inl (NoSecretKey (pin_config pn)) else Inr cfg)"
  by (rule installed_loads) (rule assms)+

section \<open>Witnesses\<close>

definition plan_root :: inode where
  "plan_root = \<lparr>i_owner = 0, i_perm = 0x1ED, i_body = DirBody [''h'' \<mapsto> 1]\<rparr>"

definition plan_tree :: tree where
  "plan_tree =
     [0 \<mapsto> plan_root,
      1 \<mapsto> \<lparr>i_owner = 1000, i_perm = 0x1ED, i_body = DirBody [''c'' \<mapsto> 2, ''s'' \<mapsto> 3]\<rparr>,
      2 \<mapsto> \<lparr>i_owner = 1000, i_perm = 0x180, i_body = FileBody ''k''\<rparr>,
      3 \<mapsto> \<lparr>i_owner = 1000, i_perm = 0x1C0, i_body = DirBody Map.empty\<rparr>]"

definition demo_account :: account where
  "demo_account = \<lparr>ac_name = ''u'', ac_uid = 1000, ac_home = ''/h''\<rparr>"

definition demo_plan_host :: plan_host where
  "demo_plan_host =
     \<lparr>ph_platform = LinuxSystemd, ph_dirs = \<lparr>di_home = Some ''/root'', di_local = None, di_config = None\<rparr>,
      ph_migrate = demo_migrate id, ph_lossy = id, ph_canonical = Some, ph_cwd = Some ''/'',
      ph_dir_uid = [''/h'' \<mapsto> 1000], ph_by_name = [''u'' \<mapsto> demo_account], ph_by_uid = [1000 \<mapsto> demo_account],
      ph_liveness = (\<lambda>_ _. Some NotRunning), ph_tree = plan_tree, ph_exists = (\<lambda>_. True), ph_reads = Map.empty,
      ph_registration = RegMissing\<rparr>"

definition demo_install :: install_request where
  "demo_install =
     \<lparr>ir_role = Serve, ir_scope = Some SystemScope, ir_config = Some ''/h/c'', ir_executable = ''/b'', ir_sudo_user = Some ''u'',
      ir_invoking_user = None, ir_state_override = Some ''/h/s'', ir_retarget = None\<rparr>"

lemma demo_components:
  "components ''/h/c'' = [RootDir, NormalComp ''h'', NormalComp ''c'']" "components ''/h/s'' = [RootDir, NormalComp ''h'', NormalComp ''s'']"
  "components ''/b'' = [RootDir, NormalComp ''b'']" "parent_dir ''/h/c'' = ''/h''"
  by code_simp+

lemma demo_state_absolute: "std_absolute cwd ''/h/s'' = Some ''/h/s''"
  by (simp add: std_absolute_def demo_components is_absolute_def abs_join_def path_join_def ends_with_def starts_with_iff Let_def)

lemmas demo_walk_simps = open_child_def entry_new_def check_parent_def check_final_def trusted_def st_mode_def WRITABLE_BY_OTHERS_def
  S_ISVTX_def S_IFMT_def S_IFREG_def S_IFDIR_def path_join_def ends_with_def

lemma demo_verified:
  "read_verified plan_tree ''/h/c'' 1000 = Inr ''k''" "verify_dir plan_tree True ''/h/s'' 1000 = Inr ()"
proof -
  have root: "plan_tree 0 = Some plan_root" by (simp add: plan_tree_def)
  have "walk_from plan_tree 1000 False (entry_new 0 plan_root ''/'') [''h'', ''c''] =
      Inr (entry_new 2 \<lparr>i_owner = 1000, i_perm = 0x180, i_body = FileBody ''k''\<rparr> ''/h/c'')"
    by (simp add: plan_tree_def plan_root_def demo_walk_simps)
  then show "read_verified plan_tree ''/h/c'' 1000 = Inr ''k''"
    by (simp add: read_verified_def walk_def is_absolute_def demo_components root read_file_def del: walk_from.simps)
      (simp add: entry_new_def plan_tree_def bytes_of_def)
  have "walk_from plan_tree 1000 True (entry_new 0 plan_root ''/'') [''h'', ''s''] =
      Inr (entry_new 3 \<lparr>i_owner = 1000, i_perm = 0x1C0, i_body = DirBody Map.empty\<rparr> ''/h/s'')"
    by (simp add: plan_tree_def plan_root_def demo_walk_simps)
  then show "verify_dir plan_tree True ''/h/s'' 1000 = Inr ()"
    by (simp add: verify_dir_def walk_def is_absolute_def demo_components root del: walk_from.simps)
qed

definition demo_plan :: install_plan where
  "demo_plan = \<lparr>pl_scope = SystemScope, pl_config = ''/h/c'', pl_state = ''/h/s'', pl_pin = Some \<lparr>pin_config = ''/h/c'', pin_uid = 1000\<rparr>\<rparr>"

lemma demo_planned:
  "plan_install demo_toml demo_plan_host demo_install \<lparr>elevated = True, can_answer = False\<rparr> no_files = (Inr (Ready demo_plan), no_files)"
proof -
  let ?t = "\<lparr>tg_account = demo_account, tg_config = ''/h/c'', tg_state = ''/h/s''\<rparr>"
  have "resolve_target_account demo_plan_host
      \<lparr>tr_role = Serve, tr_config = Some ''/h/c'', tr_state = Some ''/h/s'', tr_sudo_user = Some ''u''\<rparr> None = Inr (Some ?t)"
    by (simp add: resolve_target_account_def choose_account_def sudo_account_def by_name_def canonical_def config_dir_owner_def
        target_config_def target_state_def demo_plan_host_def demo_account_def demo_components demo_state_absolute Let_def)
  moreover have "loads demo_toml Serve ''k''" using demo_loads [of "[]"] by (simp add: loads_def)
  then have "plan_for_target demo_toml demo_plan_host demo_install ?t = Inr (Ready demo_plan)"
    using demo_verified
    by (simp add: plan_for_target_def ensure_no_cross_scope_conflict_def demo_plan_host_def demo_account_def demo_install_def
        check_installable_text_def retarget_decision_def read_registration_def target_pin_def demo_plan_def)
  ultimately show ?thesis
    by (simp add: plan_install_def plan_system_install_def plan_as_root_def demo_install_def is_absolute_def demo_components
        decide_install_scope_def ensure_supported_def absolutize_config_path_def)
      (simp add: demo_plan_host_def)
qed

theorem system_plan_safe_witness:
  "\<exists>body. loads demo_toml Serve body \<and> (\<forall>late. adversary 1000 plan_tree late \<longrightarrow> read_verified late ''/h/c'' 1000 = Inr body)"
proof -
  have "pl_scope demo_plan = SystemScope" by (simp add: demo_plan_def)
  show ?thesis
    using conjunct2 [OF conjunct2 [OF system_plan_safe [OF demo_planned \<open>pl_scope demo_plan = SystemScope\<close>]]]
  proof (elim exE conjE, goal_cases)
    case (1 a body)
    have "ac_uid a = 1000" using 1(1) by (simp add: demo_plan_def)
    moreover have "ir_role demo_install = Serve" "ph_tree demo_plan_host = plan_tree" "pl_config demo_plan = ''/h/c''"
      by (simp_all add: demo_plan_def demo_install_def demo_plan_host_def)
    ultimately show ?case using 1(3,4) by auto
  qed
qed

theorem installed_service_loads_witness:
  "\<exists>cfg. load_config \<lparr>sv_root = True, sv_var = [ENV_TRUSTED_UID \<mapsto> nat_str 1000, ENV_STATE_DIR \<mapsto> ''/h/s''], sv_not_unicode = False\<rparr>
      plan_tree True (\<lambda>s. if loads demo_toml Serve s then Some s else None) id None ''/h/c'' =
    (if cfg = [] then Inl (NoSecretKey ''/h/c'') else Inr cfg)"
proof -
  let ?sv = "\<lparr>sv_root = True, sv_var = [ENV_TRUSTED_UID \<mapsto> nat_str 1000, ENV_STATE_DIR \<mapsto> ''/h/s''], sv_not_unicode = False\<rparr>"
  have vars: "ENV_TRUSTED_UID \<noteq> ENV_STATE_DIR" by (simp add: ENV_TRUSTED_UID_def ENV_STATE_DIR_def)
  have plan: "pl_scope demo_plan = SystemScope" "pl_pin demo_plan = Some \<lparr>pin_config = ''/h/c'', pin_uid = 1000\<rparr>"
    "sv_var ?sv ENV_STATE_DIR = Some (pl_state demo_plan)"
    by (simp_all add: demo_plan_def)
  have uid: "sv_var ?sv ENV_TRUSTED_UID = Some (nat_str (unat (pin_uid \<lparr>pin_config = ''/h/c'', pin_uid = 1000\<rparr>)))"
    using vars by simp
  have "adversary (pin_uid \<lparr>pin_config = ''/h/c'', pin_uid = 1000\<rparr>) (ph_tree demo_plan_host) plan_tree"
    by (simp add: demo_plan_host_def)
  note late = this
  have parse: "\<forall>s. (if loads demo_toml Serve s then Some s else None) = None \<longleftrightarrow> \<not> loads demo_toml (ir_role demo_install) s"
    by (simp add: demo_install_def)
  have "\<not> sv_not_unicode ?sv" by simp
  from installed_service_loads [OF demo_planned plan(1,2) uid plan(3) this late parse, of id None]
  show ?thesis by (simp only: pin.select_convs id_apply)
qed

text \<open>A configuration without a secret key passes every check of the install, and the service then refuses it.\<close>

lemma keyless_install_never_runs:
  assumes "plan_install lib h rq env fs = (Inr (Ready p), fs')" and "pl_scope p = SystemScope" and "pl_pin p = Some pn"
    and "sv_var sv ENV_TRUSTED_UID = Some (nat_str (unat (pin_uid pn)))" and "sv_var sv ENV_STATE_DIR = Some (pl_state p)"
    and "\<not> sv_not_unicode sv" and "\<forall>s. parse s = None \<longleftrightarrow> \<not> loads lib (ir_role rq) s" and "\<forall>cfg. key cfg = []"
  shows "load_config sv (ph_tree h) True parse key plain (pin_config pn) = Inl (NoSecretKey (pin_config pn))"
proof -
  have "adversary (pin_uid pn) (ph_tree h) (ph_tree h)" by simp
  from installed_loads [OF assms(1-6) this assms(7), of key plain] show ?thesis using assms(8) by simp
qed

text \<open>A person who answers \<open>root\<close> when asked for the user gets a service on root's own files.\<close>

lemma invoking_user_may_be_root:
  assumes "by_name h ''root'' = Some a" and "ac_uid a = 0" and "tr_config rq = None" and "tr_sudo_user rq = None"
    and "canonical h (config_path_in (ac_home a) (tr_role rq)) = Inr c" and "target_state h rq a = Inr s"
  shows "resolve_target_account h rq (Some ''root'') = Inr (Some \<lparr>tg_account = a, tg_config = c, tg_state = s\<rparr>)"
  using assms by (simp add: resolve_target_account_def choose_account_def sudo_account_def target_config_def Let_def)

end
