(* ===== verification/ServiceBackend.thy ===== *)
theory ServiceBackend
  imports ServicePlan
begin

text \<open>
  Installing and driving a service through the host's service manager (\<open>service/execute.rs\<close>,
  \<open>native.rs\<close>, \<open>verb.rs\<close>, \<open>install.rs\<close>, \<open>status.rs\<close> and \<open>backend/*.rs\<close>): the native commands each
  backend runs, in order, the effects it reports and where it stops.

  The service manager is the function \<open>se_runner\<close> on a state of its own. \<open>nt_trace\<close> is not in the
  code: it records what reached the host, so that the reports can be compared with it.
\<close>

section \<open>Native commands\<close>

datatype output_mode = Capture | Inherit

record native_output =
  no_status :: "int option"
  no_stdout :: string
  no_stderr :: string

definition success :: "native_output \<Rightarrow> bool" where
  "success out \<longleftrightarrow> no_status out = Some 0"

datatype applied_effect =
    RegistrationWritten path
  | Enabled
  | Started
  | Stopped
  | Disabled
  | RegistrationRemoved path

datatype installed_at = AtPath path | WindowsTask

datatype service_note =
    BusyboxSystemWide path
  | LaunchdBootstrapHint string path
  | Installed string installed_at
  | Uninstalled string
  | AlreadyStopped string
  | RoleRunning role string
  | RoleNotRunning role
  | TaskListing string

datatype host_event = Ran "string list" bool | Wrote path | MadeExecutable path | Removed path

record 'h native =
  nt_host :: 'h
  nt_files :: xfs
  nt_applied :: "applied_effect list"
  nt_outputs :: "native_output list"
  nt_notes :: "service_note list"
  nt_trace :: "host_event list"

datatype backend_error =
    NoHomeFound
  | WriteFailed reg_error
  | CommandNotRun "string list"
  | CommandFailed "string list"
  | RootRequired
  | RemoveFailed path
  | ChmodFailed path
  | NotLoaded role service_scope
  | NotRegistered role
  | OtherStateDir path path
  | TaskRefused task_error
  | UserNotReported
  | DefinitionNotWritten
  | AccessDenied
  | DidNotStop
  | ProbeFailed
  | PathsFailed paths_error
  | PolicyRefused service_error
  | AlreadyRunning role tier "owner_record option"

text \<open>The host: what the process is, what the operating system answers and the service manager. \<open>se_probe\<close>
answers the probes of the role lock in order.\<close>

record 'h service_host =
  se_platform :: platform
  se_mode :: output_mode
  se_runner :: "output_mode \<Rightarrow> string list \<Rightarrow> 'h \<Rightarrow> native_output option \<times> 'h"
  se_elevated :: bool
  se_home :: "path option"
  se_uid :: u32
  se_lossy :: "path \<Rightarrow> string"
  se_functions :: string
  se_reg :: reg_env
  se_chmods :: bool
  se_removes :: bool
  se_dirs :: dirs
  se_temp :: path
  se_temp_writes :: bool
  se_status_text :: "native_output \<Rightarrow> string"
  se_lower :: "string \<Rightarrow> string"
  se_probe :: "nat \<Rightarrow> liveness option"

type_synonym ('h, 'a) act = "'h native \<Rightarrow> (backend_error + 'a) \<times> 'h native"

definition ret :: "'a \<Rightarrow> ('h, 'a) act" where
  "ret x s = (Inr x, s)"

definition fail :: "backend_error \<Rightarrow> ('h, 'a) act" where
  "fail e s = (Inl e, s)"

text \<open>The \<open>?\<close> operator between two actions.\<close>

definition bind :: "('h, 'a) act \<Rightarrow> ('a \<Rightarrow> ('h, 'b) act) \<Rightarrow> ('h, 'b) act" where
  "bind m f s = (case m s of (Inl e, s') \<Rightarrow> (Inl e, s') | (Inr x, s') \<Rightarrow> f x s')"

text \<open>\<open>is_ok\<close> of an action, and another error for a failed one.\<close>

definition is_ok :: "('h, 'a) act \<Rightarrow> ('h, bool) act" where
  "is_ok m s = (case m s of (Inl _, s') \<Rightarrow> (Inr False, s') | (Inr _, s') \<Rightarrow> (Inr True, s'))"

definition or_error :: "('h, 'a) act \<Rightarrow> backend_error \<Rightarrow> ('h, 'a) act" where
  "or_error m e s = (case m s of (Inl _, s') \<Rightarrow> (Inl e, s') | r \<Rightarrow> r)"

definition on_error :: "('h, 'a) act \<Rightarrow> (backend_error \<Rightarrow> ('h, 'a) act) \<Rightarrow> ('h, 'a) act" where
  "on_error m f s = (case m s of (Inl e, s') \<Rightarrow> f e s' | r \<Rightarrow> r)"

definition lift :: "backend_error + 'a \<Rightarrow> ('h, 'a) act" where
  "lift r s = (r, s)"

definition notify :: "service_note \<Rightarrow> ('h, unit) act" where
  "notify n s = (Inr (), s\<lparr>nt_notes := nt_notes s @ [n]\<rparr>)"

definition applied :: "applied_effect list \<Rightarrow> ('h, unit) act" where
  "applied es s = (Inr (), s\<lparr>nt_applied := nt_applied s @ es\<rparr>)"

text \<open>\<open>Native::run\<close> in the caller's mode, kept for the report, and \<open>Native::output\<close>, always captured.\<close>

definition run_in :: "'h service_host \<Rightarrow> output_mode \<Rightarrow> bool \<Rightarrow> string list \<Rightarrow> ('h, native_output) act" where
  "run_in env mode keep cmd s =
     (case se_runner env mode cmd (nt_host s) of
        (None, h) \<Rightarrow> (Inl (CommandNotRun cmd), s\<lparr>nt_host := h, nt_trace := nt_trace s @ [Ran cmd False]\<rparr>)
      | (Some out, h) \<Rightarrow>
          (Inr out, s\<lparr>nt_host := h, nt_trace := nt_trace s @ [Ran cmd (success out)],
                      nt_outputs := nt_outputs s @ (if keep then [out] else [])\<rparr>))"

definition run :: "'h service_host \<Rightarrow> string list \<Rightarrow> ('h, native_output) act" where
  "run env cmd = run_in env (se_mode env) True cmd"

definition captured :: "'h service_host \<Rightarrow> string list \<Rightarrow> ('h, native_output) act" where
  "captured env cmd = run_in env Capture False cmd"

definition run_checked :: "'h service_host \<Rightarrow> string list \<Rightarrow> ('h, unit) act" where
  "run_checked env cmd = bind (run env cmd) (\<lambda>out. if success out then ret () else fail (CommandFailed cmd))"

text \<open>A command and, once it has succeeded, the effects that are recorded for it.\<close>

definition run_applied :: "'h service_host \<Rightarrow> string list \<Rightarrow> applied_effect list \<Rightarrow> ('h, unit) act" where
  "run_applied env cmd es = bind (run_checked env cmd) (\<lambda>_. applied es)"

text \<open>The same best effort: a failure is passed over.\<close>

definition try_applied :: "'h service_host \<Rightarrow> string list \<Rightarrow> applied_effect list \<Rightarrow> ('h, unit) act" where
  "try_applied env cmd es = bind (is_ok (run_checked env cmd)) (\<lambda>ok. if ok then applied es else ret ())"

definition write_at :: "'h service_host \<Rightarrow> path \<Rightarrow> string \<Rightarrow> ('h, unit) act" where
  "write_at env p contents s =
     (case write_registration (se_reg env) p contents (nt_files s) of
        (ops, r) \<Rightarrow>
          (let s1 = s\<lparr>nt_files := x_run ops (nt_files s)\<rparr>
           in case r of
                Inl e \<Rightarrow> (Inl (WriteFailed e), s1)
              | Inr _ \<Rightarrow> (Inr (), s1\<lparr>nt_trace := nt_trace s1 @ [Wrote p], nt_applied := nt_applied s1 @ [RegistrationWritten p]\<rparr>)))"

text \<open>Removing a registration that is there.\<close>

definition remove_at :: "'h service_host \<Rightarrow> path \<Rightarrow> ('h, unit) act" where
  "remove_at env p s =
     (if nt_files s p = None then (Inr (), s)
      else if \<not> se_removes env then (Inl (RemoveFailed p), s)
      else (Inr (), s\<lparr>nt_files := (nt_files s)(p := None), nt_trace := nt_trace s @ [Removed p],
                      nt_applied := nt_applied s @ [RegistrationRemoved p]\<rparr>))"

section \<open>systemd\<close>

definition unit_name :: "role \<Rightarrow> string" where
  "unit_name r = ''iroh-tunnel-'' @ role_name r @ ''.service''"

definition unit_path :: "'h service_host \<Rightarrow> role \<Rightarrow> service_scope \<Rightarrow> backend_error + path" where
  "unit_path env r scope =
     (case scope of
        SystemScope \<Rightarrow> Inr (path_join ''/etc/systemd/system'' (unit_name r))
      | UserScope \<Rightarrow>
          (case se_home env of
             None \<Rightarrow> Inl NoHomeFound
           | Some home \<Rightarrow> Inr (path_join (path_join home ''.config/systemd/user'') (unit_name r))))"

definition systemctl :: "service_scope \<Rightarrow> string list \<Rightarrow> string list" where
  "systemctl scope args = ''systemctl'' # (if scope = UserScope then [''--user''] else []) @ args"

definition enable_and_start :: "'h service_host \<Rightarrow> service_scope \<Rightarrow> string \<Rightarrow> path \<Rightarrow> ('h, unit) act" where
  "enable_and_start env scope name p =
     bind (run_checked env (systemctl scope [''daemon-reload''])) (\<lambda>_.
     bind (run_applied env (systemctl scope [''enable'', name]) [Enabled]) (\<lambda>_.
     bind (run_applied env (systemctl scope [''restart'', name]) [Started]) (\<lambda>_.
     notify (Installed name (AtPath p)))))"

definition systemd_install ::
    "'h service_host \<Rightarrow> role \<Rightarrow> service_scope \<Rightarrow> path \<Rightarrow> path \<Rightarrow> path \<Rightarrow> pin option \<Rightarrow> ('h, unit) act" where
  "systemd_install env r scope binary config state pn =
     bind (lift (unit_path env r scope)) (\<lambda>p.
     bind (write_at env p (format_unit_with (se_lossy env) r binary config state RESTART_DEFAULT pn)) (\<lambda>_.
     enable_and_start env scope (unit_name r) p))"

definition systemd_uninstall :: "'h service_host \<Rightarrow> role \<Rightarrow> service_scope \<Rightarrow> ('h, unit) act" where
  "systemd_uninstall env r scope =
     bind (lift (unit_path env r scope)) (\<lambda>p.
     bind (try_applied env (systemctl scope [''stop'', unit_name r]) [Stopped]) (\<lambda>_.
     bind (try_applied env (systemctl scope [''disable'', unit_name r]) [Disabled]) (\<lambda>_.
     bind (remove_at env p) (\<lambda>_.
     bind (run_checked env (systemctl scope [''daemon-reload''])) (\<lambda>_.
     notify (Uninstalled (unit_name r)))))))"

definition systemd_start :: "'h service_host \<Rightarrow> role \<Rightarrow> service_scope \<Rightarrow> ('h, unit) act" where
  "systemd_start env r scope = run_applied env (systemctl scope [''start'', unit_name r]) [Started]"

definition systemd_stop :: "'h service_host \<Rightarrow> role \<Rightarrow> service_scope \<Rightarrow> ('h, unit) act" where
  "systemd_stop env r scope = run_applied env (systemctl scope [''stop'', unit_name r]) [Stopped]"

definition systemd_restart :: "'h service_host \<Rightarrow> role \<Rightarrow> service_scope \<Rightarrow> ('h, unit) act" where
  "systemd_restart env r scope = run_applied env (systemctl scope [''restart'', unit_name r]) [Started]"

definition systemd_status :: "'h service_host \<Rightarrow> role \<Rightarrow> service_scope \<Rightarrow> ('h, native_output) act" where
  "systemd_status env r scope = run env (systemctl scope [''status'', unit_name r])"

section \<open>BusyBox init\<close>

definition START_ORDER :: nat where
  "START_ORDER = 96"

definition script_name :: "role \<Rightarrow> string" where
  "script_name r = ''S'' @ nat_str START_ORDER @ ''iroh-tunnel-'' @ role_name r"

definition script_path :: "role \<Rightarrow> path" where
  "script_path r = path_join ''/etc/init.d'' (script_name r)"

definition require_root :: "'h service_host \<Rightarrow> ('h, unit) act" where
  "require_root env = (if se_elevated env then ret () else fail RootRequired)"

definition busybox_scope_note :: "role \<Rightarrow> service_scope \<Rightarrow> ('h, unit) act" where
  "busybox_scope_note r scope = (if scope = UserScope then notify (BusyboxSystemWide (script_path r)) else ret ())"

text \<open>\<open>set_executable\<close>, which makes the init run the script at boot.\<close>

definition set_executable :: "'h service_host \<Rightarrow> path \<Rightarrow> ('h, unit) act" where
  "set_executable env p s =
     (if \<not> se_chmods env \<or> nt_files s p = None then (Inl (ChmodFailed p), s)
      else (Inr (), s\<lparr>nt_files := x_apply (XChmod p 0x1ED) (nt_files s), nt_trace := nt_trace s @ [MadeExecutable p],
                      nt_applied := nt_applied s @ [Enabled]\<rparr>))"

definition busybox_install ::
    "'h service_host \<Rightarrow> role \<Rightarrow> service_scope \<Rightarrow> path \<Rightarrow> path \<Rightarrow> path \<Rightarrow> pin option \<Rightarrow> ('h, unit) act" where
  "busybox_install env r scope binary config state pn =
     bind (require_root env) (\<lambda>_.
     bind (busybox_scope_note r scope) (\<lambda>_.
     bind (write_at env (script_path r) (format_script (se_lossy env) (se_functions env) r binary config state pn)) (\<lambda>_.
     bind (set_executable env (script_path r)) (\<lambda>_.
     bind (run_applied env [script_path r, ''restart''] [Started]) (\<lambda>_.
     notify (Installed (script_name r) (AtPath (script_path r))))))))"

definition busybox_uninstall :: "'h service_host \<Rightarrow> role \<Rightarrow> ('h, unit) act" where
  "busybox_uninstall env r =
     bind (require_root env) (\<lambda>_.
     bind (try_applied env [script_path r, ''stop''] [Stopped]) (\<lambda>_.
     bind (remove_at env (script_path r)) (\<lambda>_.
     notify (Uninstalled (script_name r)))))"

definition busybox_start :: "'h service_host \<Rightarrow> role \<Rightarrow> ('h, unit) act" where
  "busybox_start env r = bind (require_root env) (\<lambda>_. run_applied env [script_path r, ''start''] [Started])"

definition busybox_stop :: "'h service_host \<Rightarrow> role \<Rightarrow> ('h, unit) act" where
  "busybox_stop env r = bind (require_root env) (\<lambda>_. run_applied env [script_path r, ''stop''] [Stopped])"

definition busybox_restart :: "'h service_host \<Rightarrow> role \<Rightarrow> ('h, unit) act" where
  "busybox_restart env r = bind (require_root env) (\<lambda>_. run_applied env [script_path r, ''restart''] [Started])"

definition busybox_status :: "'h service_host \<Rightarrow> role \<Rightarrow> ('h, native_output) act" where
  "busybox_status env r = run env [script_path r, ''status'']"

section \<open>launchd\<close>

definition plist_file :: "role \<Rightarrow> string" where
  "plist_file r = job_label r @ ''.plist''"

definition plist_path :: "'h service_host \<Rightarrow> role \<Rightarrow> service_scope \<Rightarrow> backend_error + path" where
  "plist_path env r scope =
     (case scope of
        SystemScope \<Rightarrow> Inr (path_join ''/Library/LaunchDaemons'' (plist_file r))
      | UserScope \<Rightarrow>
          (case se_home env of
             None \<Rightarrow> Inl NoHomeFound
           | Some home \<Rightarrow> Inr (path_join (path_join home ''Library/LaunchAgents'') (plist_file r))))"

definition domain_target :: "'h service_host \<Rightarrow> service_scope \<Rightarrow> string" where
  "domain_target env scope = (case scope of SystemScope \<Rightarrow> ''system'' | UserScope \<Rightarrow> ''gui/'' @ nat_str (unat (se_uid env)))"

definition service_target :: "'h service_host \<Rightarrow> role \<Rightarrow> service_scope \<Rightarrow> string" where
  "service_target env r scope = domain_target env scope @ ''/'' @ job_label r"

definition launchd_load :: "'h service_host \<Rightarrow> role \<Rightarrow> service_scope \<Rightarrow> path \<Rightarrow> ('h, unit) act" where
  "launchd_load env r scope p =
     bind (run_checked env [''launchctl'', ''enable'', service_target env r scope]) (\<lambda>_.
     bind (is_ok (captured env [''launchctl'', ''bootout'', service_target env r scope])) (\<lambda>_.
     on_error (run_applied env [''launchctl'', ''bootstrap'', domain_target env scope, se_lossy env p] [Enabled, Started]) (\<lambda>e.
       bind (notify (LaunchdBootstrapHint (domain_target env scope) p)) (\<lambda>_. fail e))))"

definition launchd_install ::
    "'h service_host \<Rightarrow> role \<Rightarrow> service_scope \<Rightarrow> path \<Rightarrow> path \<Rightarrow> path \<Rightarrow> pin option \<Rightarrow> ('h, unit) act" where
  "launchd_install env r scope binary config state pn =
     bind (lift (plist_path env r scope)) (\<lambda>p.
     bind (write_at env p (format_plist_with (se_lossy env) r binary config state RESTART_DEFAULT pn)) (\<lambda>_.
     bind (launchd_load env r scope p) (\<lambda>_.
     notify (Installed (job_label r) (AtPath p)))))"

definition launchd_uninstall :: "'h service_host \<Rightarrow> role \<Rightarrow> service_scope \<Rightarrow> ('h, unit) act" where
  "launchd_uninstall env r scope =
     bind (lift (plist_path env r scope)) (\<lambda>p.
     bind (try_applied env [''launchctl'', ''bootout'', service_target env r scope] [Stopped, Disabled]) (\<lambda>_.
     bind (remove_at env p) (\<lambda>_.
     notify (Uninstalled (job_label r)))))"

definition launchd_start :: "'h service_host \<Rightarrow> role \<Rightarrow> service_scope \<Rightarrow> ('h, unit) act" where
  "launchd_start env r scope =
     or_error (run_applied env [''launchctl'', ''kickstart'', service_target env r scope] [Started]) (NotLoaded r scope)"

definition launchd_restart :: "'h service_host \<Rightarrow> role \<Rightarrow> service_scope \<Rightarrow> ('h, unit) act" where
  "launchd_restart env r scope =
     or_error (run_applied env [''launchctl'', ''kickstart'', ''-k'', service_target env r scope] [Started]) (NotLoaded r scope)"

definition is_loaded :: "'h service_host \<Rightarrow> string \<Rightarrow> ('h, bool) act" where
  "is_loaded env target = bind (captured env [''launchctl'', ''print'', target]) (\<lambda>out. ret (success out))"

fun contains :: "string \<Rightarrow> string \<Rightarrow> bool" where
  "contains [] k = (k = [])"
| "contains (c # cs) k = (starts_with (c # cs) k \<or> contains cs k)"

definition launchd_stop :: "'h service_host \<Rightarrow> role \<Rightarrow> service_scope \<Rightarrow> ('h, unit) act" where
  "launchd_stop env r scope =
     (let cmd = [''launchctl'', ''kill'', ''SIGTERM'', service_target env r scope]
      in bind (captured env cmd) (\<lambda>out.
         if success out then applied [Stopped]
         else if contains (se_lossy env (no_stderr out)) ''No process to signal'' \<or> no_status out = Some 3 then
           notify (AlreadyStopped (job_label r))
         else bind (is_loaded env (service_target env r scope)) (\<lambda>loaded.
           if \<not> loaded then fail (NotLoaded r scope) else fail (CommandFailed cmd))))"

definition launchd_status :: "'h service_host \<Rightarrow> role \<Rightarrow> service_scope \<Rightarrow> ('h, native_output) act" where
  "launchd_status env r scope = run env [''launchctl'', ''print'', service_target env r scope]"

section \<open>Windows tasks\<close>

definition task_name :: "role \<Rightarrow> string" where
  "task_name r = ''iroh-tunnel-'' @ role_name r"

definition schtasks :: "string list \<Rightarrow> string list" where
  "schtasks args = ''schtasks'' # args"

definition schtasks_ok :: "'h service_host \<Rightarrow> string list \<Rightarrow> ('h, string) act" where
  "schtasks_ok env args =
     bind (captured env (schtasks args)) (\<lambda>out.
       if success out then ret (se_lossy env (no_stdout out)) else fail (CommandFailed (schtasks args)))"

text \<open>A successful task command with its effects.\<close>

definition schtasks_applied :: "'h service_host \<Rightarrow> string list \<Rightarrow> applied_effect list \<Rightarrow> ('h, unit) act" where
  "schtasks_applied env args es =
     bind (captured env (schtasks args)) (\<lambda>out.
       if success out then applied es else fail (CommandFailed (schtasks args)))"

definition current_user :: "'h service_host \<Rightarrow> ('h, string) act" where
  "current_user env =
     bind (captured env [''whoami'']) (\<lambda>out.
       let name = str_trim (se_lossy env (no_stdout out))
       in if \<not> success out \<or> name = [] then fail UserNotReported else ret name)"

definition is_installed :: "'h service_host \<Rightarrow> role \<Rightarrow> ('h, bool) act" where
  "is_installed env r =
     bind (schtasks_ok env [''/Query'', ''/FO'', ''CSV'', ''/NH'']) (\<lambda>listing.
       ret (list_ex (\<lambda>l. contains l (CHR 0x5C # task_name r @ [CHR 0x22])) (str_lines listing)))"

definition require_installed :: "'h service_host \<Rightarrow> role \<Rightarrow> ('h, unit) act" where
  "require_installed env r = bind (is_installed env r) (\<lambda>there. if there then ret () else fail (NotRegistered r))"

definition normal_path :: "'h service_host \<Rightarrow> path \<Rightarrow> string" where
  "normal_path env p = se_lower env (map (\<lambda>c. if c = CHR ''/'' then CHR 0x5C else c) (se_lossy env p))"

definition ensure_default_state :: "'h service_host \<Rightarrow> path \<Rightarrow> backend_error + unit" where
  "ensure_default_state env state =
     (case default_state_dir WindowsOs (se_dirs env) of
        Inl e \<Rightarrow> Inl (PathsFailed e)
      | Inr d \<Rightarrow> if normal_path env state = normal_path env d then Inr () else Inl (OtherStateDir d state))"

text \<open>The text of a failed task command, in which the English refusal is looked for.\<close>

definition failure_text :: "'h service_host \<Rightarrow> string list \<Rightarrow> native_output \<Rightarrow> string" where
  "failure_text env args out =
     ''schtasks '' @ intersperse_space args @ '' failed with '' @ se_status_text env out @ '': ''
       @ str_trim (se_lossy env (no_stderr out)) @ str_trim (se_lossy env (no_stdout out))"

definition register_task :: "'h service_host \<Rightarrow> string list \<Rightarrow> ('h, unit) act" where
  "register_task env args =
     bind (captured env (schtasks args)) (\<lambda>out.
       if success out then applied [Enabled]
       else if contains (map ascii_lower (failure_text env args out)) ''access is denied'' then fail AccessDenied
       else fail (CommandFailed (schtasks args)))"

text \<open>The temporary task definition: made before the task is registered and removed when the operation ends,
however it ends. Its bytes are an argument (the text in UTF-16).\<close>

definition with_definition :: "'h service_host \<Rightarrow> string \<Rightarrow> ('h, unit) act \<Rightarrow> ('h, unit) act" where
  "with_definition env bytes body s =
     (if nt_files s (se_temp env) \<noteq> None then (Inl DefinitionNotWritten, s)
      else if \<not> se_temp_writes env then (Inl DefinitionNotWritten, s)
      else
        (case body (s\<lparr>nt_files := (nt_files s)(se_temp env \<mapsto> \<lparr>x_data = bytes, x_mode = 0, x_synced = False\<rparr>)\<rparr>) of
           (r, s') \<Rightarrow> (r, s'\<lparr>nt_files := (nt_files s')(se_temp env := None)\<rparr>)))"

definition windows_install ::
    "'h service_host \<Rightarrow> (string \<Rightarrow> string) \<Rightarrow> role \<Rightarrow> path \<Rightarrow> path \<Rightarrow> path \<Rightarrow> ('h, unit) act" where
  "windows_install env encode_utf16_le r binary config state =
     bind (lift (ensure_default_state env state)) (\<lambda>_.
     bind (lift (map_sum TaskRefused id (task_action_of (se_lossy env) r binary config))) (\<lambda>action.
     bind (current_user env) (\<lambda>user.
     with_definition env (encode_utf16_le (format_task_xml r user action RESTART_DEFAULT))
       (bind (register_task env [''/Create'', ''/TN'', task_name r, ''/XML'', se_lossy env (se_temp env), ''/F'']) (\<lambda>_.
        bind (schtasks_applied env [''/Run'', ''/TN'', task_name r] [Started]) (\<lambda>_.
        notify (Installed (task_name r) WindowsTask)))))))"

text \<open>A failed \<open>/End\<close> is passed over.\<close>

definition windows_end :: "'h service_host \<Rightarrow> role \<Rightarrow> ('h, unit) act" where
  "windows_end env r = bind (is_ok (schtasks_applied env [''/End'', ''/TN'', task_name r] [Stopped])) (\<lambda>_. ret ())"

definition windows_uninstall :: "'h service_host \<Rightarrow> role \<Rightarrow> ('h, unit) act" where
  "windows_uninstall env r =
     bind (is_installed env r) (\<lambda>there.
     bind (if there then
             bind (windows_end env r) (\<lambda>_. schtasks_applied env [''/Delete'', ''/TN'', task_name r, ''/F''] [Disabled])
           else ret ()) (\<lambda>_.
     notify (Uninstalled (task_name r))))"

definition windows_start :: "'h service_host \<Rightarrow> role \<Rightarrow> ('h, unit) act" where
  "windows_start env r =
     bind (require_installed env r) (\<lambda>_. schtasks_applied env [''/Run'', ''/TN'', task_name r] [Started])"

definition task_is_running :: "liveness option \<Rightarrow> backend_error + bool" where
  "task_is_running probed =
     (case probed of None \<Rightarrow> Inl ProbeFailed | Some NotRunning \<Rightarrow> Inr False | Some (RunningAt _ _) \<Rightarrow> Inr True)"

definition windows_stop :: "'h service_host \<Rightarrow> role \<Rightarrow> ('h, unit) act" where
  "windows_stop env r =
     bind (require_installed env r) (\<lambda>_.
     bind (captured env (schtasks [''/End'', ''/TN'', task_name r])) (\<lambda>out.
       if success out then applied [Stopped]
       else bind (lift (task_is_running (se_probe env 0))) (\<lambda>running.
         if running then fail (CommandFailed (schtasks [''/End'', ''/TN'', task_name r]))
         else notify (AlreadyStopped (task_name r)))))"

text \<open>The wait of a restart: a probe every 100 ms, for 15 s.\<close>

definition RESTART_WAIT_MS :: nat where
  "RESTART_WAIT_MS = 15000"

function wait_stopped :: "(nat \<Rightarrow> liveness option) \<Rightarrow> nat \<Rightarrow> backend_error + unit" where
  "wait_stopped probes k =
     (case task_is_running (probes k) of
        Inl e \<Rightarrow> Inl e
      | Inr False \<Rightarrow> Inr ()
      | Inr True \<Rightarrow> if RESTART_WAIT_MS \<le> 100 * k then Inl DidNotStop else wait_stopped probes (Suc k))"
  by pat_completeness auto

termination
  by (relation "measure (\<lambda>(_, k). RESTART_WAIT_MS - 100 * k)") auto

definition windows_restart :: "'h service_host \<Rightarrow> role \<Rightarrow> ('h, unit) act" where
  "windows_restart env r =
     bind (windows_stop env r) (\<lambda>_.
     bind (lift (wait_stopped (\<lambda>k. se_probe env (Suc k)) 0)) (\<lambda>_.
     windows_start env r))"

definition windows_status :: "'h service_host \<Rightarrow> role \<Rightarrow> ('h, native_output) act" where
  "windows_status env r =
     bind (require_installed env r) (\<lambda>_.
     bind (case se_probe env 1 of
             None \<Rightarrow> fail ProbeFailed
           | Some NotRunning \<Rightarrow> notify (RoleNotRunning r)
           | Some (RunningAt _ ow) \<Rightarrow> notify (RoleRunning r (describe_owner ow))) (\<lambda>_.
     bind (captured env (schtasks [''/Query'', ''/TN'', task_name r, ''/FO'', ''LIST'', ''/V''])) (\<lambda>out.
       if success out then bind (notify (TaskListing (se_lossy env (no_stdout out)))) (\<lambda>_. ret out)
       else fail (CommandFailed (schtasks [''/Query'', ''/TN'', task_name r, ''/FO'', ''LIST'', ''/V''])))))"

section \<open>The operations\<close>

datatype verb = VerbUninstall | VerbStart | VerbStop | VerbRestart

fun verb_word :: "verb \<Rightarrow> string" where
  "verb_word VerbUninstall = ''uninstall''"
| "verb_word VerbStart = ''start''"
| "verb_word VerbStop = ''stop''"
| "verb_word VerbRestart = ''restart''"

fun backend_verb :: "'h service_host \<Rightarrow> platform \<Rightarrow> verb \<Rightarrow> role \<Rightarrow> service_scope \<Rightarrow> ('h, unit) act" where
  "backend_verb env LinuxSystemd v r scope =
     (case v of VerbUninstall \<Rightarrow> systemd_uninstall env r scope | VerbStart \<Rightarrow> systemd_start env r scope
      | VerbStop \<Rightarrow> systemd_stop env r scope | VerbRestart \<Rightarrow> systemd_restart env r scope)"
| "backend_verb env LinuxBusyBox v r scope =
     (case v of VerbUninstall \<Rightarrow> busybox_uninstall env r | VerbStart \<Rightarrow> busybox_start env r
      | VerbStop \<Rightarrow> busybox_stop env r | VerbRestart \<Rightarrow> busybox_restart env r)"
| "backend_verb env MacOs v r scope =
     (case v of VerbUninstall \<Rightarrow> launchd_uninstall env r scope | VerbStart \<Rightarrow> launchd_start env r scope
      | VerbStop \<Rightarrow> launchd_stop env r scope | VerbRestart \<Rightarrow> launchd_restart env r scope)"
| "backend_verb env WindowsOs v r scope =
     (case v of VerbUninstall \<Rightarrow> windows_uninstall env r | VerbStart \<Rightarrow> windows_start env r
      | VerbStop \<Rightarrow> windows_stop env r | VerbRestart \<Rightarrow> windows_restart env r)"

fun backend_install ::
    "'h service_host \<Rightarrow> (string \<Rightarrow> string) \<Rightarrow> platform \<Rightarrow> role \<Rightarrow> service_scope \<Rightarrow> path \<Rightarrow> path \<Rightarrow> path \<Rightarrow> pin option
      \<Rightarrow> ('h, unit) act" where
  "backend_install env enc LinuxSystemd r scope binary config state pn = systemd_install env r scope binary config state pn"
| "backend_install env enc LinuxBusyBox r scope binary config state pn = busybox_install env r scope binary config state pn"
| "backend_install env enc MacOs r scope binary config state pn = launchd_install env r scope binary config state pn"
| "backend_install env enc WindowsOs r scope binary config state pn = windows_install env enc r binary config state"

fun backend_status :: "'h service_host \<Rightarrow> platform \<Rightarrow> role \<Rightarrow> service_scope \<Rightarrow> ('h, native_output) act" where
  "backend_status env LinuxSystemd r scope = systemd_status env r scope"
| "backend_status env LinuxBusyBox r scope = busybox_status env r"
| "backend_status env MacOs r scope = launchd_status env r scope"
| "backend_status env WindowsOs r scope = windows_status env r"

record service_report =
  rp_applied :: "applied_effect list"
  rp_native :: "native_output list"

definition report_of :: "'h native \<Rightarrow> service_report" where
  "report_of s = \<lparr>rp_applied = nt_applied s, rp_native = nt_outputs s\<rparr>"

definition native_new :: "'h \<Rightarrow> xfs \<Rightarrow> 'h native" where
  "native_new h files = \<lparr>nt_host = h, nt_files = files, nt_applied = [], nt_outputs = [], nt_notes = [], nt_trace = []\<rparr>"

text \<open>A failed operation hands back its error with the report of what it had done.\<close>

definition execute :: "('h, unit) act \<Rightarrow> 'h native \<Rightarrow> ((backend_error \<times> service_report) + service_report) \<times> 'h native" where
  "execute step s =
     (case step s of
        (Inr _, s') \<Rightarrow> (Inr (report_of s'), s')
      | (Inl e, s') \<Rightarrow> (Inl (e, report_of s'), s'))"

definition before_effects :: "backend_error \<Rightarrow> backend_error \<times> service_report" where
  "before_effects e = (e, \<lparr>rp_applied = [], rp_native = []\<rparr>)"

definition not_running :: "role \<Rightarrow> liveness option \<Rightarrow> backend_error + unit" where
  "not_running r probed =
     (case probed of
        None \<Rightarrow> Inl ProbeFailed
      | Some NotRunning \<Rightarrow> Inr ()
      | Some (RunningAt t ow) \<Rightarrow> Inl (AlreadyRunning r t ow))"

definition verb_via ::
    "'h service_host \<Rightarrow> verb \<Rightarrow> role \<Rightarrow> service_scope \<Rightarrow> environment \<Rightarrow> 'h native
      \<Rightarrow> ((backend_error \<times> service_report) + service_report) \<times> 'h native" where
  "verb_via env v r scope environ s =
     (case and_then (map_sum PolicyRefused id (check_verb_policy (se_platform env) (verb_word v) r scope environ))
             (\<lambda>_. if v = VerbStart then not_running r (se_probe env 0) else Inr ()) of
        Inl e \<Rightarrow> (Inl (before_effects e), s)
      | Inr _ \<Rightarrow> execute (backend_verb env (se_platform env) v r scope) s)"

datatype install_outcome = InstallDone service_report | InstallNeeds install_need

definition install_via ::
    "'h service_host \<Rightarrow> (string \<Rightarrow> string) \<Rightarrow> install_request \<Rightarrow> service_error + planned \<Rightarrow> 'h native
      \<Rightarrow> ((backend_error \<times> service_report) + install_outcome) \<times> 'h native" where
  "install_via env enc rq plan s =
     (case plan of
        Inl e \<Rightarrow> (Inl (before_effects (PolicyRefused e)), s)
      | Inr (Needs need) \<Rightarrow> (Inr (InstallNeeds need), s)
      | Inr (Ready p) \<Rightarrow>
          (case execute (backend_install env enc (se_platform env) (ir_role rq) (pl_scope p) (ir_executable rq) (pl_config p)
                           (pl_state p) (pl_pin p)) s of
             (Inl f, s') \<Rightarrow> (Inl f, s')
           | (Inr rep, s') \<Rightarrow> (Inr (InstallDone rep), s')))"

datatype registration = Present string | Absent

datatype 'a fact = Known 'a | Unavailable

record service_status_report =
  ss_registration :: "registration fact"
  ss_liveness :: "liveness fact"
  ss_owner :: "owner_record fact"
  ss_native :: native_output

definition registration_path :: "'h service_host \<Rightarrow> role \<Rightarrow> service_scope \<Rightarrow> backend_error + path" where
  "registration_path env r scope =
     (case se_platform env of
        LinuxSystemd \<Rightarrow> unit_path env r scope
      | LinuxBusyBox \<Rightarrow> Inr (script_path r)
      | _ \<Rightarrow> plist_path env r scope)"

definition registration_of :: "'h service_host \<Rightarrow> role \<Rightarrow> service_scope \<Rightarrow> xfs \<Rightarrow> registration fact" where
  "registration_of env r scope files =
     (if se_platform env = WindowsOs then Known (Present ''scheduled task'')
      else case registration_path env r scope of
        Inl _ \<Rightarrow> Unavailable
      | Inr p \<Rightarrow> Known (if files p = None then Absent else Present (se_lossy env p)))"

definition owner_fact :: "liveness option \<Rightarrow> owner_record fact" where
  "owner_fact probed = (case probed of Some (RunningAt _ (Some ow)) \<Rightarrow> Known ow | _ \<Rightarrow> Unavailable)"

definition status_via ::
    "'h service_host \<Rightarrow> role \<Rightarrow> service_scope \<Rightarrow> environment \<Rightarrow> 'h native
      \<Rightarrow> ((backend_error \<times> service_report) + service_status_report) \<times> 'h native" where
  "status_via env r scope environ s =
     (case check_verb_policy (se_platform env) ''status'' r scope environ of
        Inl e \<Rightarrow> (Inl (before_effects (PolicyRefused e)), s)
      | Inr _ \<Rightarrow>
          (case backend_status env (se_platform env) r scope s of
             (Inl e, s') \<Rightarrow> (Inl (e, report_of s'), s')
           | (Inr out, s') \<Rightarrow>
               (Inr \<lparr>ss_registration = registration_of env r scope (nt_files s'),
                     ss_liveness = (case se_probe env 0 of Some l \<Rightarrow> Known l | None \<Rightarrow> Unavailable),
                     ss_owner = owner_fact (se_probe env 0), ss_native = out\<rparr>, s')))"

section \<open>Reports are true\<close>

text \<open>What a successful native command changes, by its words.\<close>

definition word_effects :: "string \<Rightarrow> applied_effect list" where
  "word_effects w =
     (if w \<in> {''enable'', ''/Create''} then [Enabled]
      else if w \<in> {''start'', ''restart'', ''kickstart'', ''/Run''} then [Started]
      else if w \<in> {''stop'', ''kill'', ''/End''} then [Stopped]
      else if w \<in> {''disable'', ''/Delete''} then [Disabled]
      else if w = ''bootstrap'' then [Enabled, Started]
      else if w = ''bootout'' then [Stopped, Disabled]
      else [])"

definition cmd_effects :: "string list \<Rightarrow> applied_effect list" where
  "cmd_effects cmd =
     (case cmd of
        program # words \<Rightarrow>
          (case (if words \<noteq> [] \<and> hd words = ''--user'' then tl words else words) of
             w # _ \<Rightarrow> if program = ''launchctl'' \<and> w = ''enable'' then [] else word_effects w
           | [] \<Rightarrow> [])
      | [] \<Rightarrow> [])"

fun event_effects :: "host_event \<Rightarrow> applied_effect list" where
  "event_effects (Ran cmd True) = cmd_effects cmd"
| "event_effects (Ran cmd False) = []"
| "event_effects (Wrote p) = [RegistrationWritten p]"
| "event_effects (MadeExecutable p) = [Enabled]"
| "event_effects (Removed p) = [RegistrationRemoved p]"

definition truthful :: "'h native \<Rightarrow> bool" where
  "truthful s \<longleftrightarrow> nt_applied s = concat (map event_effects (nt_trace s))"

definition keeps :: "('h, 'a) act \<Rightarrow> bool" where
  "keeps m \<longleftrightarrow> (\<forall>s. truthful s \<longrightarrow> truthful (snd (m s)))"

named_theorems keeping

lemma keeps_bind [keeping]: "keeps m \<Longrightarrow> (\<And>x. keeps (f x)) \<Longrightarrow> keeps (bind m f)"
  by (auto simp: keeps_def bind_def split: prod.splits sum.splits)

lemma keeps_plain [keeping]: "keeps (ret x)" "keeps (fail e)" "keeps (lift x2)" "keeps (notify n)" "keeps (require_root env)"
  "keeps (busybox_scope_note r scope)"
  by (simp_all add: keeps_def ret_def fail_def lift_def notify_def truthful_def require_root_def busybox_scope_note_def)

lemma keeps_wrapped [keeping]: "keeps m \<Longrightarrow> keeps (is_ok m)" "keeps m \<Longrightarrow> keeps (or_error m e)"
  by (auto simp: keeps_def is_ok_def or_error_def split: prod.splits sum.splits)

lemma keeps_on_error [keeping]: "keeps m \<Longrightarrow> (\<And>e. keeps (f e)) \<Longrightarrow> keeps (on_error m f)"
  by (auto simp: keeps_def on_error_def split: prod.splits sum.splits)

lemma keeps_case [keeping]:
  "keeps m \<Longrightarrow> keeps m' \<Longrightarrow> keeps (if b then m else m')"
  by simp

definition or_ret :: "('h, unit) act \<Rightarrow> ('h, unit) act" where
  "or_ret m s = (Inr (), snd (m s))"

lemma truthful_run_in:
  "truthful s \<Longrightarrow> run_in env mode keep cmd s = (r, s') \<Longrightarrow>
     nt_applied s' @ (case r of Inr out \<Rightarrow> if success out then cmd_effects cmd else [] | Inl _ \<Rightarrow> []) =
       concat (map event_effects (nt_trace s'))"
  by (auto simp: run_in_def truthful_def split: option.splits prod.splits)

lemma keeps_run_in:
  assumes "cmd_effects cmd = []"
  shows "keeps (run_in env mode keep cmd)"
  unfolding keeps_def
proof (intro allI impI)
  fix s :: "'a native" assume s: "truthful s"
  obtain r s' where run: "run_in env mode keep cmd s = (r, s')" by (cases "run_in env mode keep cmd s")
  have "(case r of Inr out \<Rightarrow> if success out then cmd_effects cmd else [] | Inl _ \<Rightarrow> []) = []"
    using assms by (simp split: sum.split)
  with truthful_run_in [OF s run] show "truthful (snd (run_in env mode keep cmd s))" by (simp add: run truthful_def)
qed

lemma keeps_run: "cmd_effects cmd = [] \<Longrightarrow> keeps (run env cmd)" "cmd_effects cmd = [] \<Longrightarrow> keeps (captured env cmd)"
  unfolding run_def captured_def by (rule keeps_run_in, assumption)+

lemma keeps_then:
  assumes "cmd_effects cmd = es" and "\<And>out. keeps (m out)"
  shows "keeps (bind (run_in env mode keep cmd) (\<lambda>out. if success out then applied es else m out))"
  unfolding keeps_def
proof (intro allI impI)
  fix s :: "'a native" assume s: "truthful s"
  obtain r s' where run: "run_in env mode keep cmd s = (r, s')" by (cases "run_in env mode keep cmd s")
  note t = truthful_run_in [OF s run]
  show "truthful (snd (bind (run_in env mode keep cmd) (\<lambda>out. if success out then applied es else m out) s))"
  proof (cases r)
    case (Inl e)
    then show ?thesis using t by (simp add: bind_def run truthful_def)
  next
    case (Inr out)
    show ?thesis
    proof (cases "success out")
      case True
      then show ?thesis using t Inr assms(1) by (simp add: bind_def run truthful_def applied_def)
    next
      case False
      then have "truthful s'" using t Inr by (simp add: truthful_def)
      with assms(2) False Inr show ?thesis by (simp add: bind_def run keeps_def)
    qed
  qed
qed

lemmas keeps_captured_then = keeps_then [where mode = Capture and keep = False, folded captured_def]

lemma keeps_run_checked: "cmd_effects cmd = [] \<Longrightarrow> keeps (run_checked env cmd)"
  unfolding run_checked_def by (intro keeping keeps_run)

lemma run_applied_then:
  "run_applied env cmd es =
     bind (run_in env (se_mode env) True cmd) (\<lambda>out. if success out then applied es else fail (CommandFailed cmd))"
  by (rule ext)
    (simp add: run_applied_def run_checked_def run_def bind_def ret_def fail_def split: prod.split sum.split)

lemma try_applied_then:
  "try_applied env cmd es = or_ret (bind (run_in env (se_mode env) True cmd) (\<lambda>out. if success out then applied es else ret ()))"
  by (rule ext)
    (simp add: try_applied_def run_checked_def run_def bind_def ret_def fail_def is_ok_def or_ret_def applied_def split: prod.split sum.split)

lemma keeps_run_applied:
  assumes "cmd_effects cmd = es"
  shows "keeps (run_applied env cmd es)" and "keeps (try_applied env cmd es)"
proof -
  show "keeps (run_applied env cmd es)" unfolding run_applied_then by (rule keeps_then [OF assms]) (rule keeping)
  have "keeps (bind (run_in env (se_mode env) True cmd) (\<lambda>out. if success out then applied es else ret ()))"
    by (rule keeps_then [OF assms]) (rule keeping)
  then show "keeps (try_applied env cmd es)"
    unfolding try_applied_then by (auto simp: keeps_def or_ret_def split: prod.splits sum.splits)
qed

lemma keeps_schtasks_applied: "cmd_effects (schtasks args) = es \<Longrightarrow> keeps (schtasks_applied env args es)"
  unfolding schtasks_applied_def by (rule keeps_captured_then) (simp_all add: keeping)

lemma keeps_schtasks_ok: "cmd_effects (schtasks args) = [] \<Longrightarrow> keeps (schtasks_ok env args)"
  unfolding schtasks_ok_def by (intro keeping keeps_run)

lemma keeps_files [keeping]: "keeps (write_at env p contents)" "keeps (remove_at env p)" "keeps (set_executable env p)"
  by (auto simp: keeps_def write_at_def remove_at_def set_executable_def truthful_def Let_def split: prod.splits sum.splits)

lemma keeps_with_definition [keeping]:
  assumes "keeps body"
  shows "keeps (with_definition env bytes body)"
  unfolding keeps_def
proof (intro allI impI)
  fix s :: "'a native" assume s: "truthful s"
  let ?s0 = "s\<lparr>nt_files := (nt_files s)(se_temp env \<mapsto> \<lparr>x_data = bytes, x_mode = 0, x_synced = False\<rparr>)\<rparr>"
  obtain r s' where run: "body ?s0 = (r, s')" by (cases "body ?s0")
  have "truthful ?s0" using s by (simp add: truthful_def)
  then have "truthful (snd (body ?s0))" using assms by (simp add: keeps_def)
  with s run show "truthful (snd (with_definition env bytes body s))" by (simp add: with_definition_def truthful_def)
qed

lemma systemctl_effects: "w \<noteq> ''--user'' \<Longrightarrow> cmd_effects (systemctl scope (w # ws)) = word_effects w"
  by (simp add: cmd_effects_def systemctl_def)

lemma script_effects: "w \<noteq> ''--user'' \<Longrightarrow> w \<noteq> ''enable'' \<Longrightarrow> cmd_effects [p, w] = word_effects w"
  by (simp add: cmd_effects_def)

lemma schtasks_effects: "w \<noteq> ''--user'' \<Longrightarrow> cmd_effects (schtasks (w # ws)) = word_effects w"
  by (simp add: cmd_effects_def schtasks_def)

lemma launchctl_effects:
  "w \<noteq> ''--user'' \<Longrightarrow> cmd_effects (''launchctl'' # w # ws) = (if w = ''enable'' then [] else word_effects w)"
  by (simp add: cmd_effects_def)

lemmas effects = systemctl_effects script_effects schtasks_effects launchctl_effects word_effects_def

lemma systemd_keeps:
  "keeps (systemd_install env r scope binary config state pn)" "keeps (systemd_uninstall env r scope)"
  "keeps (systemd_start env r scope)" "keeps (systemd_stop env r scope)" "keeps (systemd_restart env r scope)"
  unfolding systemd_install_def systemd_uninstall_def systemd_start_def systemd_stop_def systemd_restart_def enable_and_start_def
  by (intro keeping keeps_run_applied keeps_run_checked; simp add: effects)+

lemma busybox_keeps:
  "keeps (busybox_install env r scope binary config state pn)" "keeps (busybox_uninstall env r)"
  "keeps (busybox_start env r)" "keeps (busybox_stop env r)" "keeps (busybox_restart env r)"
  unfolding busybox_install_def busybox_uninstall_def busybox_start_def busybox_stop_def busybox_restart_def
  by (intro keeping keeps_run_applied keeps_run_checked; simp add: effects)+

lemma launchd_keeps:
  "keeps (launchd_uninstall env r scope)" "keeps (launchd_start env r scope)" "keeps (launchd_stop env r scope)"
  "keeps (launchd_restart env r scope)"
  unfolding launchd_uninstall_def launchd_start_def launchd_stop_def launchd_restart_def is_loaded_def Let_def
  by (intro keeping keeps_captured_then keeps_run_applied keeps_run_checked keeps_run; simp add: effects)+

lemma windows_keeps:
  "keeps (windows_install env enc r binary config state)" "keeps (windows_uninstall env r)"
  "keeps (windows_start env r)" "keeps (windows_stop env r)" "keeps (windows_restart env r)"
proof -
  have installed: "keeps (is_installed env r)" "keeps (require_installed env r)"
    unfolding is_installed_def require_installed_def by (intro keeping keeps_schtasks_ok; simp add: effects)+
  have user: "keeps (current_user env)"
    unfolding current_user_def Let_def by (intro keeping keeps_run) (simp add: cmd_effects_def)
  have reg: "keeps (register_task env (''/Create'' # args))" for args
    unfolding register_task_def by (intro keeping keeps_captured_then; simp add: effects)
  show "keeps (windows_install env enc r binary config state)"
    unfolding windows_install_def by (intro keeping user reg keeps_schtasks_applied; simp add: effects)
  show "keeps (windows_uninstall env r)"
    unfolding windows_uninstall_def windows_end_def by (intro keeping installed keeps_schtasks_applied; simp add: effects)
  show start: "keeps (windows_start env r)"
    unfolding windows_start_def by (intro keeping installed keeps_schtasks_applied; simp add: effects)
  show stop: "keeps (windows_stop env r)"
    unfolding windows_stop_def by (intro keeping installed keeps_captured_then; simp add: effects)
  show "keeps (windows_restart env r)" unfolding windows_restart_def by (intro keeping start stop)
qed

lemma verbs_keep: "keeps (backend_verb env pf v r scope)"
  by (cases pf; cases v) (simp_all add: systemd_keeps busybox_keeps launchd_keeps windows_keeps)

lemma installs_keep: "pf \<noteq> MacOs \<Longrightarrow> keeps (backend_install env enc pf r scope binary config state pn)"
  by (cases pf) (simp_all add: systemd_keeps busybox_keeps windows_keeps)

lemma truthful_new: "truthful (native_new h files)"
  by (simp add: truthful_def native_new_def)

text \<open>The effects that the result of an operation reports.\<close>

definition reported :: "(backend_error \<times> service_report) + service_report \<Rightarrow> applied_effect list" where
  "reported res = (case res of Inr rep \<Rightarrow> rp_applied rep | Inl (_, rep) \<Rightarrow> rp_applied rep)"

definition happened :: "'h native \<Rightarrow> applied_effect list" where
  "happened s = concat (map event_effects (nt_trace s))"

lemma execute_truthful:
  assumes "keeps step"
  shows "reported (fst (execute step (native_new h files))) = happened (snd (execute step (native_new h files)))"
proof -
  have "truthful (snd (step (native_new h files)))" using assms truthful_new [of h files] by (simp add: keeps_def)
  then show ?thesis
    by (auto simp: execute_def reported_def happened_def report_of_def truthful_def split: prod.splits sum.splits)
qed


section \<open>What an install leaves\<close>

lemma base_name_join: "CHR ''/'' \<notin> set n \<Longrightarrow> d \<noteq> [] \<Longrightarrow> base_name (path_join d n) = n"
proof -
  assume n: "CHR ''/'' \<notin> set n" and d: "d \<noteq> []"
  have "takeWhile (\<lambda>c. c \<noteq> CHR ''/'') (rev n @ CHR ''/'' # u) = rev n" for u using n by (subst takeWhile_append2) auto
  moreover have "\<exists>u. path_join d n = u @ CHR ''/'' # n"
  proof (cases "ends_with d ''/''")
    case True
    then obtain u where "d = u @ ''/''" by (metis append_take_drop_id ends_with_def)
    then show ?thesis using True by (auto simp: path_join_def)
  qed (auto simp: path_join_def d)
  ultimately show ?thesis by (auto simp: base_name_def)
qed

lemma registration_names:
  "CHR ''/'' \<notin> set (unit_name r)" "snd (name_parts (unit_name r)) = Some ''service''"
  "CHR ''/'' \<notin> set (plist_file r)" "snd (name_parts (plist_file r)) = Some ''plist''"
  "CHR ''/'' \<notin> set (script_name r)" "snd (name_parts (script_name r)) = None"
proof -
  have "list_all (\<lambda>r. CHR ''/'' \<notin> set (unit_name r) \<and> snd (name_parts (unit_name r)) = Some ''service'' \<and>
      CHR ''/'' \<notin> set (plist_file r) \<and> snd (name_parts (plist_file r)) = Some ''plist'' \<and>
      CHR ''/'' \<notin> set (script_name r) \<and> snd (name_parts (script_name r)) = None) [Serve, Access]"
    by code_simp
  then show "CHR ''/'' \<notin> set (unit_name r)" "snd (name_parts (unit_name r)) = Some ''service''"
    "CHR ''/'' \<notin> set (plist_file r)" "snd (name_parts (plist_file r)) = Some ''plist''"
    "CHR ''/'' \<notin> set (script_name r)" "snd (name_parts (script_name r)) = None"
    by (cases r; simp)+
qed

lemma bind_done: "bind m f s = (Inr y, s') \<longleftrightarrow> (\<exists>x s1. m s = (Inr x, s1) \<and> f x s1 = (Inr y, s'))"
  by (auto simp: bind_def split: prod.splits sum.splits)

lemma run_applied_done:
  "run_applied env cmd es s = (Inr (), s') \<Longrightarrow>
     nt_files s' = nt_files s \<and> nt_applied s' = nt_applied s @ es \<and> nt_trace s' = nt_trace s @ [Ran cmd True]"
  by (auto simp: run_applied_def run_checked_def run_def run_in_def applied_def ret_def fail_def bind_done split: option.splits prod.splits if_splits)

lemma run_checked_done:
  "run_checked env cmd s = (Inr (), s') \<Longrightarrow>
     nt_files s' = nt_files s \<and> nt_applied s' = nt_applied s \<and> nt_trace s' = nt_trace s @ [Ran cmd True]"
  by (auto simp: run_checked_def run_def run_in_def ret_def fail_def bind_done split: option.splits prod.splits if_splits)

lemma notify_done: "notify n s = (Inr (), s') \<Longrightarrow> nt_files s' = nt_files s \<and> nt_applied s' = nt_applied s \<and> nt_trace s' = nt_trace s"
  by (auto simp: notify_def)

lemma write_at_done:
  assumes "write_at env p contents s = (Inr (), s')" and "extension p \<noteq> Some (''tmp'' @ nat_str (re_pid (se_reg env)))"
  shows "nt_files s' p = Some (registered_file p contents) \<and> nt_applied s' = nt_applied s @ [RegistrationWritten p] \<and>
    nt_trace s' = nt_trace s @ [Wrote p]"
proof -
  obtain ops res where w: "write_registration (se_reg env) p contents (nt_files s) = (ops, res)"
    by (cases "write_registration (se_reg env) p contents (nt_files s)")
  then have "res = Inr ()" using assms(1) by (auto simp: write_at_def Let_def split: sum.splits)
  with registration_atomic [OF assms(2) w, of 0] assms(1) w show ?thesis by (auto simp: write_at_def Let_def)
qed

lemma extensions_apart: "''service'' \<noteq> ''tmp'' @ x" "''plist'' \<noteq> ''tmp'' @ x"
  by simp_all

definition registration_text :: "'h service_host \<Rightarrow> role \<Rightarrow> path \<Rightarrow> path \<Rightarrow> path \<Rightarrow> pin option \<Rightarrow> string" where
  "registration_text env r binary config state pn =
     (case se_platform env of
        LinuxSystemd \<Rightarrow> format_unit_with (se_lossy env) r binary config state RESTART_DEFAULT pn
      | LinuxBusyBox \<Rightarrow> format_script (se_lossy env) (se_functions env) r binary config state pn
      | _ \<Rightarrow> format_plist_with (se_lossy env) r binary config state RESTART_DEFAULT pn)"

definition left_by_install :: "'h service_host \<Rightarrow> path \<Rightarrow> string \<Rightarrow> 'h native \<Rightarrow> 'h native \<Rightarrow> bool" where
  "left_by_install env p contents s s' \<longleftrightarrow>
     nt_files s' p = Some (registered_file p contents) \<and>
     nt_applied s' = nt_applied s @ [RegistrationWritten p, Enabled, Started]"

lemma path_ne: "n \<noteq> [] \<Longrightarrow> path_join d n \<noteq> []"
  by (simp add: path_join_def)

lemma registration_extension:
  assumes "registration_path env r scope = Inr p" and "se_platform env \<noteq> WindowsOs"
  shows "extension p \<noteq> Some (''tmp'' @ x)" and "se_platform env = LinuxBusyBox \<Longrightarrow> extension p = None"
  using assms extensions_apart [of x]
  by (auto simp: registration_path_def unit_path_def plist_path_def script_path_def extension_def base_name_join path_ne
      registration_names split: platform.splits service_scope.splits option.splits)

lemma systemd_leaves:
  assumes "systemd_install env r scope binary config state pn s = (Inr (), s')" and "se_platform env = LinuxSystemd"
  shows "\<exists>p. registration_path env r scope = Inr p \<and> left_by_install env p (registration_text env r binary config state pn) s s'"
proof -
  obtain p s1 where path: "unit_path env r scope = Inr p"
    and wr: "write_at env p (format_unit_with (se_lossy env) r binary config state RESTART_DEFAULT pn) s = (Inr (), s1)"
    and go: "enable_and_start env scope (unit_name r) p s1 = (Inr (), s')"
    using assms(1) by (auto simp: systemd_install_def bind_done lift_def)
  have reg: "registration_path env r scope = Inr p" using path assms(2) by (simp add: registration_path_def)
  note w = write_at_done [OF wr registration_extension(1) [OF reg]]
  have "nt_files s' = nt_files s1 \<and> nt_applied s' = nt_applied s1 @ [Enabled, Started]"
    using go by (auto simp: enable_and_start_def bind_done dest!: run_applied_done run_checked_done notify_done)
  with w reg assms(2) show ?thesis by (simp add: left_by_install_def registration_text_def)
qed

lemma busybox_leaves:
  assumes "busybox_install env r scope binary config state pn s = (Inr (), s')" and "se_platform env = LinuxBusyBox"
  shows "\<exists>p. registration_path env r scope = Inr p \<and> left_by_install env p (registration_text env r binary config state pn) s s'"
proof -
  let ?p = "script_path r"
  have reg: "registration_path env r scope = Inr ?p" using assms(2) by (simp add: registration_path_def)
  obtain sa s0 s1 s2 s3 where root: "require_root env s = (Inr (), sa)" and scope: "busybox_scope_note r scope sa = (Inr (), s0)"
    and wr: "write_at env ?p (format_script (se_lossy env) (se_functions env) r binary config state pn) s0 = (Inr (), s1)"
    and exec: "set_executable env ?p s1 = (Inr (), s2)"
    and go: "run_applied env [?p, ''restart''] [Started] s2 = (Inr (), s3)"
      "notify (Installed (script_name r) (AtPath ?p)) s3 = (Inr (), s')"
    using assms(1) unfolding busybox_install_def bind_done by auto
  have noted: "nt_files s0 = nt_files s" "nt_applied s0 = nt_applied s"
    using root scope by (auto simp: require_root_def busybox_scope_note_def ret_def fail_def notify_def split: if_splits)
  note w = write_at_done [OF wr registration_extension(1) [OF reg]]
  have "reg_mode ?p = 0x1ED" using registration_extension(2) [OF reg] assms(2) by (simp add: reg_mode_def)
  then have "nt_files s2 ?p = nt_files s1 ?p" "nt_applied s2 = nt_applied s1 @ [Enabled]"
    using exec w assms(2) by (auto simp: set_executable_def registered_file_def split: if_splits)
  moreover have "nt_files s' = nt_files s2 \<and> nt_applied s' = nt_applied s2 @ [Started]"
    using run_applied_done [OF go(1)] notify_done [OF go(2)] by simp
  ultimately show ?thesis using w reg noted assms(2) by (simp add: left_by_install_def registration_text_def)
qed

lemma on_error_done:
  "on_error m (\<lambda>e. bind (notify n) (\<lambda>_. fail e)) s = (Inr y, s') \<Longrightarrow> m s = (Inr y, s')"
  by (auto simp: on_error_def bind_def notify_def fail_def split: prod.splits sum.splits)

lemma captured_frame:
  "is_ok (captured env cmd) s = (Inr x, s') \<Longrightarrow> nt_files s' = nt_files s \<and> nt_applied s' = nt_applied s"
  by (auto simp: is_ok_def captured_def run_in_def split: prod.splits sum.splits option.splits)

lemma load_done:
  assumes "launchd_load env r scope p s = (Inr (), s')"
  shows "nt_files s' = nt_files s \<and> nt_applied s' = nt_applied s @ [Enabled, Started]"
proof -
  obtain s1 x s2 where steps: "run_checked env [''launchctl'', ''enable'', service_target env r scope] s = (Inr (), s1)"
    "is_ok (captured env [''launchctl'', ''bootout'', service_target env r scope]) s1 = (Inr x, s2)"
    "on_error (run_applied env [''launchctl'', ''bootstrap'', domain_target env scope, se_lossy env p] [Enabled, Started])
       (\<lambda>e. bind (notify (LaunchdBootstrapHint (domain_target env scope) p)) (\<lambda>_. fail e)) s2 = (Inr (), s')"
    using assms unfolding launchd_load_def bind_done by auto
  show ?thesis
    using run_checked_done [OF steps(1)] captured_frame [OF steps(2)] run_applied_done [OF on_error_done [OF steps(3)]] by simp
qed

lemma launchd_leaves:
  assumes "launchd_install env r scope binary config state pn s = (Inr (), s')" and "se_platform env = MacOs"
  shows "\<exists>p. registration_path env r scope = Inr p \<and> left_by_install env p (registration_text env r binary config state pn) s s'"
proof -
  obtain p s1 s2 where path: "plist_path env r scope = Inr p"
    and wr: "write_at env p (format_plist_with (se_lossy env) r binary config state RESTART_DEFAULT pn) s = (Inr (), s1)"
    and go: "launchd_load env r scope p s1 = (Inr (), s2)" "notify (Installed (job_label r) (AtPath p)) s2 = (Inr (), s')"
    using assms(1) by (auto simp: launchd_install_def bind_done lift_def)
  have reg: "registration_path env r scope = Inr p" using path assms(2) by (simp add: registration_path_def)
  note w = write_at_done [OF wr registration_extension(1) [OF reg]]
  with load_done [OF go(1)] notify_done [OF go(2)] reg assms(2) show ?thesis
    by (simp add: left_by_install_def registration_text_def)
qed


section \<open>Witnesses\<close>

text \<open>A manager whose state is the number of commands it ran; the command with the given number fails.\<close>

definition demo_runner :: "nat \<Rightarrow> output_mode \<Rightarrow> string list \<Rightarrow> nat \<Rightarrow> native_output option \<times> nat" where
  "demo_runner bad mode cmd n =
     (Some \<lparr>no_status = Some (if n = bad then 5 else 0), no_stdout = [], no_stderr = []\<rparr>, Suc n)"

definition demo_service :: "platform \<Rightarrow> nat \<Rightarrow> nat service_host" where
  "demo_service pf bad =
     \<lparr>se_platform = pf, se_mode = Inherit, se_runner = demo_runner bad, se_elevated = True, se_home = Some ''/root'', se_uid = 0,
      se_lossy = id, se_functions = [], se_reg = demo_reg, se_chmods = True, se_removes = True,
      se_dirs = \<lparr>di_home = None, di_local = None, di_config = None\<rparr>, se_temp = ''t'', se_temp_writes = True,
      se_status_text = (\<lambda>_. []), se_lower = id, se_probe = (\<lambda>_. Some NotRunning)\<rparr>"

lemma demo_commands:
  "run_checked (demo_service pf bad) cmd s = (if nt_host s = bad then Inl (CommandFailed cmd) else Inr (),
     s\<lparr>nt_host := Suc (nt_host s), nt_trace := nt_trace s @ [Ran cmd (nt_host s \<noteq> bad)],
       nt_outputs := nt_outputs s @ [\<lparr>no_status = Some (if nt_host s = bad then 5 else 0), no_stdout = [], no_stderr = []\<rparr>]\<rparr>)"
  "captured (demo_service pf bad) cmd s = (Inr \<lparr>no_status = Some (if nt_host s = bad then 5 else 0), no_stdout = [], no_stderr = []\<rparr>,
     s\<lparr>nt_host := Suc (nt_host s), nt_trace := nt_trace s @ [Ran cmd (nt_host s \<noteq> bad)]\<rparr>)"
  by (simp_all add: run_checked_def run_def captured_def run_in_def bind_def ret_def fail_def demo_service_def demo_runner_def success_def)

definition written :: "path \<Rightarrow> xfs \<Rightarrow> 'h native \<Rightarrow> 'h native" where
  "written p fs s = s\<lparr>nt_files := fs, nt_trace := nt_trace s @ [Wrote p], nt_applied := nt_applied s @ [RegistrationWritten p]\<rparr>"

lemma demo_writes: "\<exists>fs. write_at (demo_service pf bad) p contents s = (Inr (), written p fs s)"
  by (rule exI [of _ "x_run (fst (write_registration demo_reg p contents (nt_files s))) (nt_files s)"])
    (simp add: write_at_def write_registration_def demo_service_def demo_reg_def written_def Let_def)

lemma native_new_sel [simp]:
  "nt_host (native_new h files) = h" "nt_files (native_new h files) = files" "nt_applied (native_new h files) = []"
  "nt_outputs (native_new h files) = []" "nt_notes (native_new h files) = []" "nt_trace (native_new h files) = []"
  by (simp_all add: native_new_def)

lemma demo_systemd_succeeds:
  "\<exists>s'. systemd_install (demo_service LinuxSystemd 9) r SystemScope binary config state pn (native_new 0 files) = (Inr (), s')"
proof -
  obtain fs where wr: "write_at (demo_service LinuxSystemd 9) (path_join ''/etc/systemd/system'' (unit_name r))
      (format_unit_with id r binary config state RESTART_DEFAULT pn) (native_new 0 files) =
    (Inr (), written (path_join ''/etc/systemd/system'' (unit_name r)) fs (native_new 0 files))"
    using demo_writes by blast
  have lossy: "se_lossy (demo_service LinuxSystemd 9) = id" by (simp add: demo_service_def)
  show ?thesis
    by (simp add: systemd_install_def bind_def lift_def unit_path_def lossy wr enable_and_start_def run_applied_def demo_commands
        applied_def notify_def native_new_sel written_def)
qed



text \<open>The exception on macOS: a re-install whose \<open>bootstrap\<close> fails has stopped the job that ran before, and its report
only says that the registration was written.\<close>

lemma failed_reinstall_hides_the_stop:
  "\<exists>s'. happened s' = [RegistrationWritten (path_join ''/Library/LaunchDaemons'' (plist_file r)), Stopped, Disabled] \<and>
     reported (fst (execute (backend_install (demo_service MacOs 2) id MacOs r SystemScope binary config state pn) (native_new 0 files))) =
       [RegistrationWritten (path_join ''/Library/LaunchDaemons'' (plist_file r))] \<and>
     s' = snd (execute (backend_install (demo_service MacOs 2) id MacOs r SystemScope binary config state pn) (native_new 0 files))"
proof -
  let ?env = "demo_service MacOs 2" and ?p = "path_join ''/Library/LaunchDaemons'' (plist_file r)"
  obtain fs where wr: "write_at ?env ?p (format_plist_with id r binary config state RESTART_DEFAULT pn) (native_new 0 files) =
    (Inr (), written ?p fs (native_new 0 files))"
    using demo_writes by blast
  have lossy: "se_lossy ?env = id" by (simp add: demo_service_def)
  show ?thesis
    by (simp add: execute_def launchd_install_def launchd_load_def bind_def lift_def plist_path_def lossy wr run_applied_def is_ok_def
        on_error_def demo_commands applied_def notify_def fail_def native_new_sel written_def reported_def report_of_def happened_def
        launchctl_effects word_effects_def)
qed

end
