(* ===== verification/Spec2Isabelle.thy ===== *)
theory Spec2Isabelle
  imports TextLib Settings Proto UdpCodec UdpStats UdpFlows ServeUdp ConnPath Shutdown Dial Tcp PeerTracker StatusFlush
    RoleRun ServeRun AccessUdp Endpoint AccessDial AccessRun Release Update
    ConfigSchema ConfigSettings ConfigDoc ConfigEdit ConfigStore ConfigOps Ownership Trust StatusFile HostRun Registration
    Paths ServicePlan ServiceBackend
begin

text \<open>
  Verification development for iroh-tunnel.

  iroh-tunnel carries TCP connections and UDP datagrams between two hosts over iroh (QUIC between
  public keys). A node in the role \<^emph>\<open>Serve\<close> offers named local services; a node in the role
  \<^emph>\<open>Access\<close> listens on local addresses and forwards what arrives there to the named service of a
  Serve node. The program has three layers: the engine (\<open>crates/engine\<close>: the two roles and their
  data paths), the host library (\<open>crates/host\<close>: configuration, ownership of a role, status files, one
  run of a role, services of the operating system, self-update) and the command line (\<open>src\<close>).

  \<^bold>\<open>How the code is modelled.\<close> A struct is a record, an enum a datatype, a function a definition by
  the same name where Isabelle allows it. A \<open>Result\<close> is a sum (\<open>Inl\<close> the error), an \<open>Option\<close> an
  option; a \<open>u8\<close> to \<open>u64\<close> whose wrap-around or width matters is a word, a length or a count that
  cannot overflow a nat. Time is a nat of nanoseconds. A Rust string or path is a list of
  characters that stand for bytes (UTF-8 for a string). State is passed explicitly. An \<open>async\<close> task is
  cut at its awaits: where tasks share state, the model is a step function or an inductive relation
  with one step per stretch between awaits (or per system call, where other processes interfere), and
  the properties hold for every interleaving of those steps. Iteration order of a hash map is an
  argument wherever a result could depend on it. What is not under \<open>src/\<close> (iroh, tokio, serde's text
  formats, base64, SHA-256, Sigstore, HTTP, archive formats, the operating system's answers) is a
  parameter: a function or a record of answers that the definitions take as an argument.

  \<^bold>\<open>Shared vocabulary.\<close> \<open>Prelude\<close> has words, time, decimal text, association lists as hash maps (the
  locale \<open>hash_map\<close> states the laws of insertion, lookup and removal and is interpreted on them) and
  the fact collections; \<open>TextLib\<close> the operations of \<open>str\<close>, \<open>char\<close>, \<open>Path\<close> and integer parsing with
  their laws.

  \<^bold>\<open>Engine.\<close>
  \<^item> \<open>Settings\<close>, \<open>Proto\<close>, \<open>Endpoint\<close>: \<open>settings.rs\<close>, \<open>proto.rs\<close>, \<open>endpoint/\<close>, \<open>bind_*.rs\<close>. The limits a
    service runs with, the ALPN of a service and its inverse, relay choice and dial addresses.
  \<^item> \<open>UdpCodec\<close>, \<open>UdpStats\<close>, \<open>UdpFlows\<close>: \<open>udp/\<close>. The datagram codec and the bounded queue of a flow
    (order, bound); the lock-free slot counter as read and compare-and-swap steps (never over the
    cap, never loses a slot; the locale \<open>slot_counter\<close>); the flow tables of both roles (an identifier
    names one client for good, a spent one is never new again; the locale \<open>idle_table\<close> for expiry).
  \<^item> \<open>ServeUdp\<close>, \<open>AccessUdp\<close>: the UDP data paths of \<open>run_serve.rs\<close> and \<open>run_access.rs\<close>. Serve's service as
    an interleaving of connections, quarantine and reply sinks: caps hold, slots balance. Access's
    listen loop and reply relay: a reply reaches only the client of its flow.
  \<^item> \<open>Tcp\<close>, \<open>Dial\<close>, \<open>AccessDial\<close>: the byte pipe (bytes unchanged, half-close, success exactly when both
    directions are clean), dialling with back-off (always returns by its deadline), the shared
    connection under two locks and cancellation (one connection, one dial at a time).
  \<^item> \<open>ConnPath\<close>, \<open>PeerTracker\<close>, \<open>StatusFlush\<close>: path reports and the poller that refines their changes, the
    registry of peers (the locale \<open>refcounts\<close>), the flush loop.
  \<^item> \<open>Shutdown\<close>, \<open>RoleRun\<close>, \<open>ServeRun\<close>, \<open>AccessRun\<close>: stop signals and drain deadlines, readiness and
    completion, the accept loop with its supervised connections and streams, and whole runs:
    accounting is exact, a stop seals admission, draining can always finish by the deadline and a
    run returns within drain grace plus flush bound.

  \<^bold>\<open>Host.\<close>
  \<^item> \<open>ConfigSchema\<close>, \<open>ConfigSettings\<close>: \<open>config/dto.rs\<close>, \<open>to_settings.rs\<close>. Validation accepts exactly the
    documents of the schema, and a valid document gives the engine exactly its services.
  \<^item> \<open>ConfigDoc\<close>, \<open>ConfigEdit\<close>, \<open>ConfigStore\<close>, \<open>ConfigOps\<close>: the editable TOML document and its decoding
    (\<open>mutate.rs\<close>, \<open>set_service.rs\<close>, ...), the refinement of document edits to operations on the decoded
    configuration, the atomic write with crashes (\<open>store.rs\<close>), and the commands on files: no
    sequence of them makes a configuration invalid, racing first starts agree on one key.
  \<^item> \<open>Ownership\<close>: \<open>ownership.rs\<close>. Claims, owner records, probes, crashes of any number of processes as
    interleaved steps over kernel locks: a role runs once, an identity runs once.
  \<^item> \<open>Trust\<close>: \<open>service/trust.rs\<close>. The descent that root makes through directories another user may
    change, with that user as extra steps of a relation: what was checked is what is read.
  \<^item> \<open>StatusFile\<close>: \<open>status/\<close>. The schema and its JSON form, saving, reading, freshness, removal.
  \<^item> \<open>HostRun\<close>: \<open>runtime/\<close>, \<open>lifecycle.rs\<close>, \<open>error.rs\<close>. One run: claim, load, key, identity, bind, role,
    cleanup, release, in that order (the locale \<open>host_role\<close>, interpreted for both roles), the forced
    exit and the exit statuses.
  \<^item> \<open>Registration\<close>: \<open>service/pin.rs\<close>, \<open>registration.rs\<close>, \<open>task_xml.rs\<close> and the templates of
    \<open>service/backend/\<close>. The pin is read back from what is written, a unit runs exactly the
    registered command line, a registration is replaced atomically.
  \<^item> \<open>Paths\<close>: \<open>paths/\<close>. Default locations and the macOS migration, which never overwrites a configuration,
    not even one that another process creates meanwhile.
  \<^item> \<open>ServicePlan\<close>: \<open>service/install.rs\<close>, \<open>system.rs\<close>, \<open>policy.rs\<close> and the scope helpers. Whose files a system
    service uses and what is checked before anything is written; what was planned is what the trust
    policy of the running service accepts.
  \<^item> \<open>ServiceBackend\<close>: \<open>service/native.rs\<close>, \<open>execute.rs\<close>, \<open>verb.rs\<close>, \<open>status.rs\<close> and \<open>backend/\<close>. The commands of the four
    service managers as actions of a state and error monad over an arbitrary manager: reports are
    true, and a successful install leaves exactly the planned registration.
  \<^item> \<open>Release\<close>, \<open>Update\<close>: \<open>update/\<close>. The installed executable is at every moment, also after a power
    failure, the old file or the complete executable of a signed release.

  \<^bold>\<open>How theories depend on each other.\<close> The data paths use the codec, counters and flow tables; the
  role runs use the data paths' settings, dialers, registry and stop signals; \<open>HostRun\<close> calls the role
  runs through the configuration commands, ownership, the trust policy and the status files, as the
  code does. Every property names the theory it stands in; the lemmas before it carry its proof.

  \<^bold>\<open>Bounds.\<close> No definition uses fuel: recursion is structural or has a measure (the dial loop: the time
  left; the descent: the components left), and the runs are functions of the finite list of events
  they receive. Timers fire at their instant; the bounds on a stop are on model time.

  \<^bold>\<open>Not modelled.\<close> Opening lock files (modes, symbolic links), resolution of symbolic links in
  configuration paths, the text forms of TOML and JSON (their decoded trees are the model's
  documents), log output, guidance texts (named, not spelled out), the rest of the fixed shell
  functions of the BusyBox script, process spawning and signal delivery, and the one-line
  accessors of the endpoint, which only call iroh.
\<close>

end
